(* ===== verification/Prelude.thy ===== *)
theory Prelude
  imports Main "HOL-Library.Word" "HOL-Library.Sublist"
begin

section \<open>Shared types, hints and list lemmas\<close>

text \<open>
  What every component uses: the types of Go's values (\<open>[]byte\<close> as \<open>bytes\<close>, Go strings, which
  are byte sequences, as HOL's \<open>string\<close>), the conversions between the two, the collections that
  carry the automation of the development, the interface of an encoding with its decoder, and the
  lemmas on occurrences in lists that the redaction and the encodings share.
\<close>

named_theorems byte_simps \<open>conversions between strings and bytes\<close>

type_synonym byte = "8 word"
type_synonym bytes = "byte list"

subsection \<open>Strings and bytes\<close>

text \<open>\<open>[]byte(s)\<close> and \<open>string(b)\<close> of Go: the bytes of a string, unchanged.\<close>

definition byte_of :: "char \<Rightarrow> byte" where
  "byte_of c = of_nat (of_char c)"

definition char_of_byte :: "byte \<Rightarrow> char" where
  "char_of_byte b = char_of (unat b)"

definition bytes_of :: "string \<Rightarrow> bytes" where
  "bytes_of s = map byte_of s"

definition string_of :: "bytes \<Rightarrow> string" where
  "string_of b = map char_of_byte b"

lemma of_char_bound: "(of_char c :: nat) < 256"
  using nat_of_char_less_256 [of c] by simp

lemma char_of_byte_of [simp]: "char_of_byte (byte_of c) = c"
proof -
  have "unat (of_nat (of_char c) :: byte) = of_char c"
    using of_char_bound [of c] by (simp add: unat_of_nat take_bit_nat_eq_self)
  then show ?thesis by (simp add: char_of_byte_def byte_of_def)
qed

lemma byte_of_char_of [simp]: "byte_of (char_of_byte b) = b"
proof -
  have "unat b < 256" using unsigned_less [of b, where 'a = nat] by simp
  then have "(of_char (char_of (unat b) :: char) :: nat) = unat b" by simp
  then show ?thesis by (simp add: char_of_byte_def byte_of_def)
qed

lemma string_of_bytes_of [simp, byte_simps]: "string_of (bytes_of s) = s"
  by (simp add: string_of_def bytes_of_def comp_def)

lemma bytes_of_string_of [simp, byte_simps]: "bytes_of (string_of b) = b"
  by (simp add: string_of_def bytes_of_def comp_def)

lemma bytes_of_inject [simp]: "bytes_of s = bytes_of t \<longleftrightarrow> s = t"
  by (metis string_of_bytes_of)

lemma length_bytes_of [simp, byte_simps]: "length (bytes_of s) = length s"
  by (simp add: bytes_of_def)

lemma length_string_of [simp, byte_simps]: "length (string_of b) = length b"
  by (simp add: string_of_def)

lemma bytes_of_append [byte_simps]: "bytes_of (s @ t) = bytes_of s @ bytes_of t"
  by (simp add: bytes_of_def)

subsection \<open>The interface of an encoding\<close>

text \<open>
  Hexadecimal, base64, decimal numbers, time stamps and the stored JSON records are all used the
  same way: what was encoded is read back. A provider gives the encoder, the decoder and the set of
  values the encoder is used on; its clients use that distinct values have distinct encodings.
\<close>

locale encoding =
  fixes enc :: "'a \<Rightarrow> 'b"
    and dec :: "'b \<Rightarrow> 'a option"
    and valid :: "'a \<Rightarrow> bool"
  assumes dec_enc: "valid x \<Longrightarrow> dec (enc x) = Some x"
begin

lemma enc_inject: "valid x \<Longrightarrow> valid y \<Longrightarrow> enc x = enc y \<longleftrightarrow> x = y"
  by (metis dec_enc option.inject)

lemma enc_inj_on: "inj_on enc {x. valid x}"
  by (auto intro: inj_onI simp: enc_inject)

lemma map_enc_inject:
  "list_all valid xs \<Longrightarrow> list_all valid ys \<Longrightarrow> map enc xs = map enc ys \<longleftrightarrow> xs = ys"
proof (induction xs arbitrary: ys)
  case (Cons x xs)
  then show ?case by (cases ys) (auto simp: enc_inject)
qed auto

end

subsection \<open>Occurrences that cross a boundary\<close>

text \<open>\<open>v\<close> occurs across the boundary between \<open>xs\<close> and \<open>ys\<close>.\<close>

definition straddles :: "'a list \<Rightarrow> 'a list \<Rightarrow> 'a list \<Rightarrow> bool" where
  "straddles v xs ys \<longleftrightarrow> (\<exists>a b. v = a @ b \<and> a \<noteq> [] \<and> b \<noteq> [] \<and> suffix a xs \<and> prefix b ys)"

lemma straddlesI: "v = a @ b \<Longrightarrow> a \<noteq> [] \<Longrightarrow> b \<noteq> [] \<Longrightarrow> suffix a xs \<Longrightarrow> prefix b ys
    \<Longrightarrow> straddles v xs ys"
  by (auto simp: straddles_def)

lemma straddlesE:
  assumes "straddles v xs ys"
  obtains a b where "v = a @ b" "a \<noteq> []" "b \<noteq> []" "suffix a xs" "prefix b ys"
  using assms by (auto simp: straddles_def)

lemma straddles_mono: "straddles v xs ys \<Longrightarrow> suffix xs xs' \<Longrightarrow> prefix ys ys' \<Longrightarrow> straddles v xs' ys'"
  by (auto simp: straddles_def intro: suffix_order.trans prefix_order.trans)

lemma sublist_append_straddles:
  "sublist v (xs @ ys) \<longleftrightarrow> sublist v xs \<or> sublist v ys \<or> straddles v xs ys"
proof -
  have "straddles v xs ys \<or> sublist v xs \<or> sublist v ys"
    if "v = a @ b" "suffix a xs" "prefix b ys" for a b
    using that by (cases "a = []"; cases "b = []") (auto simp: straddles_def)
  then show ?thesis
    by (auto simp: sublist_append straddles_def)
qed

lemma suffix_drop_eq: "suffix a xs \<longleftrightarrow> length a \<le> length xs \<and> drop (length xs - length a) xs = a"
  by (metis append_take_drop_id suffix_def suffix_length_le append_eq_conv_conj length_append
      add_diff_cancel_right')

lemma prefix_take_eq: "prefix a xs \<longleftrightarrow> take (length a) xs = a"
  by (metis append_eq_conv_conj prefix_def take_is_prefix)

end
