(* ===== verification/Redaction.thy ===== *)
theory Redaction
  imports Prelude
begin

section \<open>Exact-value redaction (internal/redaction/redaction.go)\<close>

text \<open>
  The two redactors of the package: \<open>Redact\<close> on a whole text, and \<open>Writer\<close>, which sits between
  a child process and the client and must redact a value even when the process splits it over
  several writes. The destination of a \<open>Writer\<close> is an interface (\<open>io.Writer\<close>): a write function
  on the destination's state that may report an error. The lemmas show what the streaming writer
  emits, under which condition on the values it agrees with redacting the whole output at once, and
  what happens to a value that has a border.
\<close>

subsection \<open>The operations\<close>

definition marker :: bytes where
  "marker = bytes_of ''[REDACTED]''"

text \<open>
  \<open>bytes.ReplaceAll\<close> and \<open>strings.ReplaceAll\<close>: the leftmost non-overlapping occurrences are
  replaced. Both callers drop values of fewer than three bytes, so the pattern is never empty; the
  first test only makes the recursion total.
\<close>

function replace_all :: "bytes \<Rightarrow> bytes \<Rightarrow> bytes \<Rightarrow> bytes" where
  "replace_all old new s =
     (if old = [] then s
      else if prefix old s then new @ replace_all old new (drop (length old) s)
      else case s of [] \<Rightarrow> [] | c # cs \<Rightarrow> c # replace_all old new cs)"
  by pat_completeness auto
termination
  by (relation "measure (\<lambda>(old, new, s). length s)") (auto simp: prefix_def)

declare replace_all.simps [simp del]

text \<open>\<open>Redact(text, values)\<close>; both texts are kept as bytes.\<close>

primrec redact_values :: "bytes \<Rightarrow> bytes list \<Rightarrow> bytes" where
  "redact_values input [] = input"
| "redact_values input (value # values) =
     (if length value < 3 then redact_values input values
      else redact_values (replace_all value marker input) values)"

definition Redact :: "bytes \<Rightarrow> bytes list \<Rightarrow> bytes" where
  "Redact input values = (if input = [] then input else redact_values input values)"

record 'd writer =
  w_dst :: 'd
  w_values :: "bytes list"
  w_pending :: bytes

definition NewWriter :: "'d \<Rightarrow> bytes list \<Rightarrow> 'd writer" where
  "NewWriter dst values =
     \<lparr>w_dst = dst, w_values = filter (\<lambda>value. \<not> length value < 3) values, w_pending = []\<rparr>"

primrec redact_loop :: "bytes list \<Rightarrow> bytes \<Rightarrow> bytes" where
  "redact_loop [] result = result"
| "redact_loop (value # values) result = redact_loop values (replace_all value marker result)"

definition redact :: "'d writer \<Rightarrow> bytes \<Rightarrow> bytes" where
  "redact w data = redact_loop (w_values w) data"

text \<open>
  \<open>partialSuffixLength\<close>: the inner loop counts \<open>length\<close> down from \<open>max\<close> while it is above
  \<open>longest\<close>, and stops at the first match.
\<close>

fun suffix_scan :: "bytes \<Rightarrow> bytes \<Rightarrow> nat \<Rightarrow> nat \<Rightarrow> nat" where
  "suffix_scan pending value longest len =
     (if longest < len
      then if drop (length pending - len) pending = take len value then len
           else suffix_scan pending value longest (len - 1)
      else longest)"

declare suffix_scan.simps [simp del]

primrec suffix_loop :: "bytes \<Rightarrow> bytes list \<Rightarrow> nat \<Rightarrow> nat" where
  "suffix_loop pending [] longest = longest"
| "suffix_loop pending (value # values) longest =
     suffix_loop pending values
       (suffix_scan pending value longest
          (if length value - 1 > length pending then length pending else length value - 1))"

definition partialSuffixLength :: "'d writer \<Rightarrow> nat" where
  "partialSuffixLength w = suffix_loop (w_pending w) (w_values w) 0"

text \<open>
  \<open>Write\<close> returns the count and the error of the Go function, and the writer after the call. A
  write of the destination that fails leaves the bytes pending.
\<close>

definition Write :: "('d \<Rightarrow> bytes \<Rightarrow> 'e option \<times> 'd) \<Rightarrow> 'd writer \<Rightarrow> bytes
    \<Rightarrow> (nat \<times> 'e option) \<times> 'd writer" where
  "Write dst_write w p =
     (let w = w\<lparr>w_pending := w_pending w @ p\<rparr>;
          n = int (length (w_pending w)) - int (partialSuffixLength w)
      in if n \<le> 0 then ((length p, None), w)
         else let flush = nat n in
           (case dst_write (w_dst w) (redact w (take flush (w_pending w))) of
              (Some err, d) \<Rightarrow> ((0, Some err), w\<lparr>w_dst := d\<rparr>)
            | (None, d) \<Rightarrow>
                ((length p, None), w\<lparr>w_dst := d, w_pending := drop flush (w_pending w)\<rparr>)))"

definition Close :: "('d \<Rightarrow> bytes \<Rightarrow> 'e option \<times> 'd) \<Rightarrow> 'd writer \<Rightarrow> 'e option \<times> 'd writer" where
  "Close dst_write w =
     (let zeroed = map (map (\<lambda>_. 0)) (w_values w)
      in if 0 < length (w_pending w)
         then case dst_write (w_dst w) (redact w (w_pending w)) of
                (Some err, d) \<Rightarrow> (Some err, w\<lparr>w_dst := d\<rparr>)
              | (None, d) \<Rightarrow> (None, w\<lparr>w_dst := d, w_pending := [], w_values := zeroed\<rparr>)
         else (None, w\<lparr>w_values := zeroed\<rparr>))"

text \<open>A child process's output: a sequence of writes, stopped by the first error, then \<open>Close\<close>.\<close>

fun write_all :: "('d \<Rightarrow> bytes \<Rightarrow> 'e option \<times> 'd) \<Rightarrow> 'd writer \<Rightarrow> bytes list
    \<Rightarrow> 'e option \<times> 'd writer" where
  "write_all dst_write w [] = Close dst_write w"
| "write_all dst_write w (p # ps) =
     (case Write dst_write w p of
        ((_, Some err), w') \<Rightarrow> (Some err, w')
      | ((_, None), w') \<Rightarrow> write_all dst_write w' ps)"

subsection \<open>Replacing a value\<close>

lemma replace_all_Nil [simp]: "replace_all old new [] = []"
  by (subst replace_all.simps) simp

lemma replace_all_prefix:
  "old \<noteq> [] \<Longrightarrow> replace_all old new (old @ s) = new @ replace_all old new s"
  by (subst replace_all.simps) simp

lemma replace_all_Cons:
  "\<not> prefix old (c # s) \<Longrightarrow> replace_all old new (c # s) = c # replace_all old new s"
  by (subst replace_all.simps) auto

text \<open>The induction that all facts on \<open>replace_all\<close> use: an occurrence is skipped, or a byte.\<close>

lemma replace_all_induct [case_names Nil Occ Byte]:
  assumes "old \<noteq> []" and "P []"
    and "\<And>s. P s \<Longrightarrow> P (old @ s)"
    and "\<And>c s. \<not> prefix old (c # s) \<Longrightarrow> P s \<Longrightarrow> P (c # s)"
  shows "P s"
proof (induction s rule: length_induct)
  case (1 s)
  show ?case
  proof (cases "prefix old s")
    case True
    then obtain r where "s = old @ r" by (auto simp: prefix_def)
    with 1 assms(1,3) show ?thesis by simp
  next
    case False
    with 1 assms(2,4) show ?thesis by (cases s) auto
  qed
qed

lemma replace_all_append:
  assumes "old \<noteq> []" and "\<not> straddles old xs ys"
  shows "replace_all old new (xs @ ys) = replace_all old new xs @ replace_all old new ys"
  using assms(2)
proof (induction xs rule: replace_all_induct [OF assms(1)])
  case (2 s)
  then have "\<not> straddles old s ys"
    using straddles_mono [of old s ys "old @ s" ys] by (auto simp: suffix_def)
  with 2 show ?case by (simp add: replace_all_prefix [OF assms(1)])
next
  case (3 c s)
  from 3 have "\<not> straddles old s ys"
    using straddles_mono [of old s ys "c # s" ys] by (auto simp: suffix_ConsI)
  moreover have "\<not> prefix old (c # s @ ys)"
  proof
    assume "prefix old (c # s @ ys)"
    with 3(1) obtain us where "old = (c # s) @ us" "prefix us ys"
      using prefix_append [of old "c # s" ys] by auto
    moreover from this 3(1) have "us \<noteq> []" by auto
    ultimately show False using 3(3) by (auto simp: straddles_def)
  qed
  ultimately show ?case using 3 by (simp add: replace_all_Cons)
qed simp

lemma list_all_replace_all:
  assumes "list_all P new" and "list_all P s"
  shows "list_all P (replace_all old new s)"
proof (cases "old = []")
  case True
  with assms(2) show ?thesis by (subst replace_all.simps) simp
next
  case False
  from assms(2) show ?thesis
  proof (induction s rule: replace_all_induct [OF False])
    case (2 s)
    with assms(1) show ?case by (simp add: replace_all_prefix [OF False])
  qed (simp_all add: replace_all_Cons)
qed

text \<open>
  A value without the brackets of the marker: no occurrence of it can touch a marker's ends.
\<close>

definition bracket_free :: "bytes \<Rightarrow> bool" where
  "bracket_free v \<longleftrightarrow> byte_of (CHR ''['') \<notin> set v \<and> byte_of (CHR '']'') \<notin> set v"

lemma marker_ends: "\<exists>m. marker = byte_of (CHR ''['') # m @ [byte_of (CHR '']'')]"
  by (rule exI [of _ "bytes_of ''REDACTED''"]) (simp add: marker_def bytes_of_def)

lemma bracket_free_suffix_marker:
  assumes "suffix a marker" and "bracket_free a"
  shows "a = []"
proof (rule ccontr)
  assume "a \<noteq> []"
  with assms(1) have "last a = last marker" by (metis last_appendR suffixE)
  moreover obtain m where "marker = (byte_of (CHR ''['') # m) @ [byte_of (CHR '']'')]"
    using marker_ends by (metis append_Cons)
  ultimately have "byte_of (CHR '']'') \<in> set a" using \<open>a \<noteq> []\<close> by (metis last_in_set last_snoc)
  with assms(2) show False by (simp add: bracket_free_def)
qed

lemma bracket_free_prefix_marker:
  assumes "prefix a (marker @ s)" and "bracket_free a"
  shows "a = []"
proof (rule ccontr)
  assume "a \<noteq> []"
  obtain m where "marker = byte_of (CHR ''['') # m" using marker_ends by blast
  with assms(1) have "prefix a (byte_of (CHR ''['') # m @ s)" by (metis append_Cons)
  with \<open>a \<noteq> []\<close> have "byte_of (CHR ''['') \<in> set a" by (cases a) simp_all
  with assms(2) show False by (simp add: bracket_free_def)
qed

lemma bracket_free_append [simp]: "bracket_free (a @ b) \<longleftrightarrow> bracket_free a \<and> bracket_free b"
  by (auto simp: bracket_free_def)

lemma bracket_free_Cons: "bracket_free (c # b) \<Longrightarrow> bracket_free b"
  by (auto simp: bracket_free_def)

text \<open>
  What a bracket-free text sees of \<open>replace_all \<dots> marker\<close>: at the ends and inside, only pieces of
  the original.
\<close>

lemma prefix_replace_all:
  assumes "old \<noteq> []" and "bracket_free b" and "prefix b (replace_all old marker s)"
  shows "prefix b s"
  using assms(2,3)
proof (induction s arbitrary: b rule: replace_all_induct [OF assms(1)])
  case (2 s)
  then have "b = []" by (metis replace_all_prefix [OF assms(1)] bracket_free_prefix_marker)
  then show ?case by simp
next
  case (3 c s)
  then show ?case by (cases b) (auto simp: replace_all_Cons dest: bracket_free_Cons)
qed simp

lemma replace_all_bracket_free:
  assumes "old \<noteq> []" and "bracket_free (replace_all old marker s)"
  shows "replace_all old marker s = s"
  using assms(2)
proof (induction s rule: replace_all_induct [OF assms(1)])
  case (2 s)
  then have "bracket_free marker" by (simp add: replace_all_prefix [OF assms(1)])
  then have "marker = []" by (rule bracket_free_suffix_marker [OF suffix_order.refl])
  with marker_ends show ?case by simp
next
  case (3 c s)
  then show ?case by (auto simp: replace_all_Cons dest: bracket_free_Cons)
qed simp

lemma suffix_replace_all:
  assumes "old \<noteq> []" and "bracket_free a" and "suffix a (replace_all old marker s)"
  shows "suffix a s"
  using assms(2,3)
proof (induction s rule: replace_all_induct [OF assms(1)])
  case (2 s)
  then have "suffix a (marker @ replace_all old marker s)" by (simp add: replace_all_prefix [OF assms(1)])
  then consider "suffix a (replace_all old marker s)"
    | a' where "a = a' @ replace_all old marker s" "suffix a' marker"
    by (auto simp: suffix_append)
  then show ?case
  proof cases
    case 1
    with 2 show ?thesis by (auto simp: suffix_append)
  next
    case (2 a')
    with \<open>bracket_free a\<close> have "a' = []" by (auto intro: bracket_free_suffix_marker)
    with 2 "2.IH" \<open>bracket_free a\<close> show ?thesis by (auto simp: suffix_append)
  qed
next
  case (3 c s)
  then have "suffix a (c # replace_all old marker s)" by (simp add: replace_all_Cons)
  then show ?case
  proof (cases "a = c # replace_all old marker s")
    case True
    with 3 have "replace_all old marker s = s"
      by (intro replace_all_bracket_free [OF assms(1)]) (auto dest: bracket_free_Cons)
    with True show ?thesis by simp
  next
    case False
    with 3 show ?thesis by (auto simp: replace_all_Cons suffix_Cons)
  qed
qed simp

lemma straddles_replace_all:
  assumes "old \<noteq> []" and "bracket_free v"
    and "straddles v (replace_all old marker xs) (replace_all old marker ys)"
  shows "straddles v xs ys"
  using assms(3)
proof (rule straddlesE)
  fix a b assume v: "v = a @ b" "a \<noteq> []" "b \<noteq> []"
    and "suffix a (replace_all old marker xs)" "prefix b (replace_all old marker ys)"
  moreover from v assms(2) have "bracket_free a" "bracket_free b" by simp_all
  ultimately show ?thesis
    by (blast intro: straddlesI suffix_replace_all [OF assms(1)] prefix_replace_all [OF assms(1)])
qed

text \<open>A value that no marker can contain.\<close>

definition clean_value :: "bytes \<Rightarrow> bool" where
  "clean_value v \<longleftrightarrow> v \<noteq> [] \<and> bracket_free v \<and> \<not> sublist v marker"

lemma sublist_replace_all:
  assumes "old \<noteq> []" and "clean_value v" and "sublist v (replace_all old marker s)"
  shows "sublist v s"
  using assms(3)
proof (induction s rule: replace_all_induct [OF assms(1)])
  case (2 s)
  have "\<not> straddles v marker (replace_all old marker s)"
    using assms(2) by (auto simp: straddles_def clean_value_def dest: bracket_free_suffix_marker)
  with 2 assms(2) show ?case
    by (auto simp: replace_all_prefix [OF assms(1)] sublist_append_straddles clean_value_def)
next
  case (3 c s)
  from 3 consider "prefix v (replace_all old marker (c # s))" | "sublist v (replace_all old marker s)"
    by (auto simp: replace_all_Cons sublist_Cons_right)
  then show ?case
  proof cases
    case 1
    with assms(1,2) have "prefix v (c # s)" by (auto simp: clean_value_def intro: prefix_replace_all)
    then show ?thesis by (rule prefix_imp_sublist)
  next
    case 2
    with 3 show ?thesis by (simp add: sublist_Cons_right)
  qed
qed simp

lemma replace_all_removes:
  assumes "clean_value v"
  shows "\<not> sublist v (replace_all v marker s)"
proof -
  from assms have v: "v \<noteq> []" by (simp add: clean_value_def)
  show ?thesis
  proof (induction s rule: replace_all_induct [OF v])
    case 1
    from v show ?case by simp
  next
    case (2 s)
    have "\<not> straddles v marker (replace_all v marker s)"
      using assms by (auto simp: straddles_def clean_value_def dest: bracket_free_suffix_marker)
    with 2 assms show ?case
      by (auto simp: replace_all_prefix [OF v] sublist_append_straddles clean_value_def)
  next
    case (3 c s)
    then have "\<not> prefix v (replace_all v marker (c # s))"
      using assms prefix_replace_all [OF v] by (auto simp: clean_value_def)
    with 3 show ?case by (auto simp: replace_all_Cons sublist_Cons_right)
  qed
qed

lemma replace_all_id:
  assumes "old \<noteq> []" and "\<not> sublist old s"
  shows "replace_all old new s = s"
  using assms(2)
proof (induction s rule: replace_all_induct [OF assms(1)])
  case (3 c s)
  then show ?case by (simp add: replace_all_Cons sublist_Cons_right)
qed simp_all

subsection \<open>The redaction loop over all values\<close>

definition clean_values :: "bytes list \<Rightarrow> bool" where
  "clean_values values \<longleftrightarrow> (\<forall>v\<in>set values. clean_value v)"

lemma clean_values_Cons [simp]: "clean_values (v # vs) \<longleftrightarrow> clean_value v \<and> clean_values vs"
  by (simp add: clean_values_def)

lemma redact_loop_append:
  assumes "clean_values vs" and "\<forall>v\<in>set vs. \<not> straddles v xs ys"
  shows "redact_loop vs (xs @ ys) = redact_loop vs xs @ redact_loop vs ys"
  using assms
proof (induction vs arbitrary: xs ys)
  case (Cons v vs)
  have v: "v \<noteq> []" using Cons.prems(1) by (simp add: clean_value_def)
  have "\<forall>u\<in>set vs. \<not> straddles u (replace_all v marker xs) (replace_all v marker ys)"
    using Cons.prems straddles_replace_all [OF v] by (auto simp: clean_values_def clean_value_def)
  with Cons v show ?case by (simp add: replace_all_append)
qed simp

lemma sublist_redact_loop:
  "clean_values vs \<Longrightarrow> clean_value v \<Longrightarrow> sublist v (redact_loop vs s) \<Longrightarrow> sublist v s"
proof (induction vs arbitrary: s)
  case (Cons u vs)
  then have "sublist v (replace_all u marker s)" by simp
  with Cons.prems show ?case by (auto simp: clean_value_def intro: sublist_replace_all [of u])
qed simp

lemma redact_loop_removes:
  "clean_values vs \<Longrightarrow> v \<in> set vs \<Longrightarrow> \<not> sublist v (redact_loop vs s)"
proof (induction vs arbitrary: s)
  case (Cons u vs)
  then have clean: "clean_value v" "clean_values vs" by (auto simp: clean_values_def)
  show ?case
  proof (cases "v = u")
    case True
    with clean show ?thesis
      by (auto dest: sublist_redact_loop simp: replace_all_removes)
  next
    case False
    with Cons show ?thesis by simp
  qed
qed simp

lemma redact_values_eq_loop:
  "redact_values input vs = redact_loop (filter (\<lambda>v. \<not> length v < 3) vs) input"
  by (induction vs arbitrary: input) auto

lemma Redact_eq_loop: "Redact input vs = redact_loop (filter (\<lambda>v. \<not> length v < 3) vs) input"
proof -
  have "redact_loop vs [] = []" for vs by (induction vs) simp_all
  then show ?thesis by (simp add: Redact_def redact_values_eq_loop)
qed

subsection \<open>The part of the output held back\<close>

lemma suffix_scan_ge: "longest \<le> suffix_scan p v longest len"
  by (induction p v longest len rule: suffix_scan.induct) (subst suffix_scan.simps, auto)

lemma suffix_scan_max:
  "k \<le> len \<Longrightarrow> drop (length p - k) p = take k v \<Longrightarrow> k \<le> suffix_scan p v longest len"
proof (induction p v longest len rule: suffix_scan.induct)
  case (1 p v longest len)
  then show ?case by (subst suffix_scan.simps) (cases "k = len"; auto)
qed

lemma suffix_scan_hit:
  "suffix_scan p v longest len = longest \<or>
   suffix_scan p v longest len \<le> len \<and>
   drop (length p - suffix_scan p v longest len) p = take (suffix_scan p v longest len) v"
proof (induction p v longest len rule: suffix_scan.induct)
  case (1 p v longest len)
  then show ?case by (subst (1 2 3 4) suffix_scan.simps) auto
qed

lemma suffix_loop_ge: "longest \<le> suffix_loop p vs longest"
  by (induction vs arbitrary: longest) (auto intro: order_trans [OF suffix_scan_ge])

lemma suffix_loop_max:
  "v \<in> set vs \<Longrightarrow> suffix a p \<Longrightarrow> strict_prefix a v \<Longrightarrow> length a \<le> suffix_loop p vs longest"
proof (induction vs arbitrary: longest)
  case (Cons u vs)
  show ?case
  proof (cases "v = u")
    case True
    from Cons.prems have "length a \<le> length p" "drop (length p - length a) p = a"
      by (simp_all add: suffix_drop_eq)
    moreover from Cons.prems have "length a < length v" "take (length a) v = a"
      by (auto simp: prefix_take_eq [symmetric] strict_prefix_def intro: prefix_length_less)
    ultimately have "length a \<le> suffix_scan p u longest
        (if length u - 1 > length p then length p else length u - 1)"
      using True by (intro suffix_scan_max) auto
    then show ?thesis by (auto intro: order_trans [OF _ suffix_loop_ge])
  next
    case False
    with Cons show ?thesis by simp
  qed
qed simp

lemma suffix_loop_hit:
  assumes "\<forall>v\<in>set vs. v \<noteq> []"
  shows "suffix_loop p vs longest = longest \<or>
    (\<exists>v\<in>set vs. suffix_loop p vs longest \<le> length p \<and>
      strict_prefix (drop (length p - suffix_loop p vs longest) p) v)"
  using assms
proof (induction vs arbitrary: longest)
  case (Cons v vs)
  let ?len = "if length v - 1 > length p then length p else length v - 1"
  let ?r = "suffix_scan p v longest ?len"
  have len: "?len \<le> length p" "?len < length v" using Cons.prems by (auto simp: not_less)
  have scan: "?r = longest \<or> ?r \<le> length p \<and> strict_prefix (drop (length p - ?r) p) v"
  proof (cases "?r = longest")
    case False
    then have r: "?r \<le> ?len" "drop (length p - ?r) p = take ?r v"
      using suffix_scan_hit [of p v longest ?len] by blast+
    with len have "?r < length v" "?r \<le> length p" by linarith+
    then have "strict_prefix (take ?r v) v" by (auto simp: strict_prefix_def take_is_prefix)
    with r \<open>?r \<le> length p\<close> show ?thesis by simp
  qed simp
  from Cons.IH [of ?r] Cons.prems scan show ?case by auto
qed simp

lemma partialSuffixLength_max:
  "v \<in> set (w_values w) \<Longrightarrow> suffix a (w_pending w) \<Longrightarrow> strict_prefix a v
    \<Longrightarrow> length a \<le> partialSuffixLength w"
  unfolding partialSuffixLength_def by (rule suffix_loop_max)

lemma partialSuffixLength_hit:
  assumes "\<forall>v\<in>set (w_values w). v \<noteq> []" and "0 < partialSuffixLength w"
  obtains v where "v \<in> set (w_values w)"
    and "strict_prefix (drop (length (w_pending w) - partialSuffixLength w) (w_pending w)) v"
  using suffix_loop_hit [OF assms(1), of "w_pending w" 0] assms(2) that
  by (auto simp: partialSuffixLength_def)

lemma partialSuffixLength_le: "\<forall>v\<in>set (w_values w). v \<noteq> [] \<Longrightarrow> partialSuffixLength w \<le> length (w_pending w)"
  using suffix_loop_hit [of "w_values w" "w_pending w" 0] by (auto simp: partialSuffixLength_def)

subsection \<open>The streaming writer over its destination\<close>

text \<open>
  What the writer holds back is the longest suffix that is the beginning of a value. A cut there is
  harmless when no value ends with the beginning of a value, itself included.
\<close>

definition overlaps :: "bytes \<Rightarrow> bytes \<Rightarrow> bool" where
  "overlaps v w \<longleftrightarrow> list_ex (\<lambda>k. strict_prefix (drop k v) w) [1..<length v]"

definition separated :: "bytes list \<Rightarrow> bool" where
  "separated vs \<longleftrightarrow> list_all (\<lambda>v. list_all (\<lambda>w. \<not> overlaps v w) vs) vs"

definition has_border :: "bytes \<Rightarrow> bool" where
  "has_border v \<longleftrightarrow> overlaps v v"

lemma overlapsI:
  assumes "v = a @ b" and "a \<noteq> []" and "b \<noteq> []" and "strict_prefix b w"
  shows "overlaps v w"
proof -
  from assms(1-3) have "length a \<in> set [1..<length v]" by (simp add: Suc_le_eq)
  moreover from assms(1,4) have "strict_prefix (drop (length a) v) w" by simp
  ultimately show ?thesis unfolding overlaps_def list_ex_iff by blast
qed

lemma has_borderE:
  assumes "has_border v"
  obtains b where "suffix b v" "b \<noteq> []" "strict_prefix b v"
proof -
  from assms obtain k where "k < length v" "strict_prefix (drop k v) v"
    by (auto simp: has_border_def overlaps_def list_ex_iff)
  then show thesis using that [of "drop k v"] by (simp add: suffix_drop)
qed

lemma cut_not_straddled:
  assumes "separated (w_values w)" and "\<forall>v\<in>set (w_values w). v \<noteq> []" and "v \<in> set (w_values w)"
  defines "n \<equiv> length (w_pending w) - partialSuffixLength w"
  shows "\<not> straddles v (take n (w_pending w)) (drop n (w_pending w) @ rest)"
proof
  let ?P = "w_pending w"
  assume "straddles v (take n ?P) (drop n ?P @ rest)"
  then obtain a b where v: "v = a @ b" "a \<noteq> []" "b \<noteq> []" and a: "suffix a (take n ?P)"
    and b: "prefix b (drop n ?P @ rest)" by (rule straddlesE)
  have T: "length (drop n ?P) = partialSuffixLength w"
    using partialSuffixLength_le [OF assms(2)] by (simp add: n_def)
  from b consider "prefix b (drop n ?P)" | u where "b = drop n ?P @ u" "u \<noteq> []"
    by (metis append_Nil2 prefix_append prefix_order.order_refl)
  then show False
  proof cases
    case 1
    with v(3) have "drop n ?P \<noteq> []" by auto
    then have "0 < partialSuffixLength w" by (simp add: n_def)
    then obtain u where u: "u \<in> set (w_values w)" "strict_prefix (drop n ?P) u"
      using partialSuffixLength_hit [OF assms(2)] unfolding n_def by blast
    with 1 have "strict_prefix b u" by (blast intro: prefix_order.le_less_trans)
    with v have "overlaps v u" by (blast intro: overlapsI)
    with assms(1,3) u(1) show False by (auto simp: separated_def list_all_iff)
  next
    case 2
    from a obtain zs where "take n ?P = zs @ a" by (rule suffixE)
    then have "?P = zs @ a @ drop n ?P" by (metis append_assoc append_take_drop_id)
    then have "suffix (a @ drop n ?P) ?P" by (metis suffixI)
    moreover from v 2 have "strict_prefix (a @ drop n ?P) v" by (auto simp: strict_prefix_def prefix_def)
    ultimately have "length (a @ drop n ?P) \<le> partialSuffixLength w"
      using assms(3) partialSuffixLength_max by blast
    with T v(2) show False by simp
  qed
qed

text \<open>One call of \<open>Write\<close>, with the position \<open>k\<close> of the cut in the pending bytes \<open>P\<close>.\<close>

lemma Write_eq:
  assumes "P = w_pending w @ p" and "k = length P - partialSuffixLength (w\<lparr>w_pending := P\<rparr>)"
    and "\<forall>v\<in>set (w_values w). v \<noteq> []"
  shows "Write dst_write w p =
    (if k = 0 then ((length p, None), w\<lparr>w_pending := P\<rparr>)
     else case dst_write (w_dst w) (redact_loop (w_values w) (take k P)) of
       (Some e, d) \<Rightarrow> ((0, Some e), w\<lparr>w_pending := P, w_dst := d\<rparr>)
     | (None, d) \<Rightarrow> ((length p, None), w\<lparr>w_dst := d, w_pending := drop k P\<rparr>))"
proof -
  have "partialSuffixLength (w\<lparr>w_pending := P\<rparr>) \<le> length P"
    using partialSuffixLength_le [of "w\<lparr>w_pending := P\<rparr>"] assms(3) by simp
  then have "nat (int (length P) - int (partialSuffixLength (w\<lparr>w_pending := P\<rparr>))) = k"
    and "int (length P) - int (partialSuffixLength (w\<lparr>w_pending := P\<rparr>)) \<le> 0 \<longleftrightarrow> k = 0"
    using assms(2) by linarith+
  then show ?thesis
    by (simp add: Write_def Let_def redact_def assms(1) [symmetric] split: prod.splits option.splits)
qed

text \<open>
  The destination, as the writer uses it: a successful write appends the bytes to what the
  destination has received, a failed one at most a part of them. A destination may carry only some
  bytes unchanged (\<open>byte_ok\<close>); those of the marker are among them.
\<close>

locale sink =
  fixes dst_write :: "'d \<Rightarrow> bytes \<Rightarrow> 'e option \<times> 'd"
    and received :: "'d \<Rightarrow> bytes"
    and byte_ok :: "byte \<Rightarrow> bool"
  assumes write_ok: "list_all byte_ok p \<Longrightarrow> dst_write d p = (None, d') \<Longrightarrow> received d' = received d @ p"
    and write_err: "list_all byte_ok p \<Longrightarrow> dst_write d p = (Some e, d')
      \<Longrightarrow> \<exists>q. prefix q p \<and> received d' = received d @ q"
    and marker_ok: "list_all byte_ok marker"
begin

lemma list_all_take: "list_all byte_ok s \<Longrightarrow> list_all byte_ok (take n s)"
  by (auto simp: list_all_iff dest: in_set_takeD)

lemma redact_loop_ok: "list_all byte_ok s \<Longrightarrow> list_all byte_ok (redact_loop vs s)"
  using marker_ok by (induction vs arbitrary: s) (auto simp: list_all_replace_all)

lemma Write_ok:
  assumes "Write dst_write w p = ((n, None), w')"
    and "P = w_pending w @ p" and "k = length P - partialSuffixLength (w\<lparr>w_pending := P\<rparr>)"
    and "\<forall>v\<in>set (w_values w). v \<noteq> []" and "list_all byte_ok P"
  shows "w_values w' = w_values w" and "w_pending w' = drop k P"
    and "received (w_dst w') = received (w_dst w) @ redact_loop (w_values w) (take k P)"
proof -
  have nil: "redact_loop vs [] = []" for vs by (induction vs) simp_all
  note ok = redact_loop_ok [OF list_all_take [OF assms(5)]]
  show "w_values w' = w_values w" and "w_pending w' = drop k P"
    and "received (w_dst w') = received (w_dst w) @ redact_loop (w_values w) (take k P)"
    using assms(1) unfolding Write_eq [OF assms(2-4)]
    by (auto simp: nil dest: write_ok [OF ok] split: prod.splits option.splits if_splits)
qed

lemma Write_err:
  assumes "Write dst_write w p = ((n, Some e), w')"
    and "P = w_pending w @ p" and "k = length P - partialSuffixLength (w\<lparr>w_pending := P\<rparr>)"
    and "\<forall>v\<in>set (w_values w). v \<noteq> []" and "list_all byte_ok P"
  shows "\<exists>q. prefix q (redact_loop (w_values w) (take k P)) \<and> received (w_dst w') = received (w_dst w) @ q"
  using assms(1) unfolding Write_eq [OF assms(2-4)]
  by (auto dest: write_err [OF redact_loop_ok [OF list_all_take [OF assms(5)]]]
      split: prod.splits option.splits if_splits)

lemma Close_ok:
  assumes "Close dst_write w = (None, w')" and "list_all byte_ok (w_pending w)"
  shows "received (w_dst w') = received (w_dst w) @ redact_loop (w_values w) (w_pending w)
    \<and> w_values w' = map (map (\<lambda>_. 0)) (w_values w) \<and> w_pending w' = []"
proof -
  have nil: "redact_loop vs [] = []" for vs by (induction vs) simp_all
  from assms redact_loop_ok show ?thesis
    by (auto simp: Close_def Let_def redact_def nil dest: write_ok [rotated] split: prod.splits option.splits if_splits)
qed

lemma Close_err:
  assumes "Close dst_write w = (Some e, w')" and "list_all byte_ok (w_pending w)"
  shows "\<exists>q. prefix q (redact_loop (w_values w) (w_pending w)) \<and> received (w_dst w') = received (w_dst w) @ q"
  using assms redact_loop_ok
  by (auto simp: Close_def Let_def redact_def dest: write_err [rotated] split: prod.splits option.splits if_splits)

text \<open>
  The whole stream: with separated clean values the destination receives the redaction of the whole
  output, or a part of it when it fails.
\<close>

lemma write_all_received:
  assumes "separated (w_values w)" and "clean_values (w_values w)"
    and "write_all dst_write w ps = (r, w')" and "list_all byte_ok (w_pending w @ concat ps)"
  shows "\<exists>q. received (w_dst w') = received (w_dst w) @ q
    \<and> prefix q (redact_loop (w_values w) (w_pending w @ concat ps))
    \<and> (r = None \<longrightarrow> q = redact_loop (w_values w) (w_pending w @ concat ps))"
  using assms
proof (induction ps arbitrary: w)
  case Nil
  then show ?case by (cases r) (auto dest: Close_ok Close_err)
next
  case (Cons p ps)
  let ?vs = "w_values w" and ?P = "w_pending w @ p"
  let ?k = "length ?P - partialSuffixLength (w\<lparr>w_pending := ?P\<rparr>)"
  have ok: "list_all byte_ok ?P" "list_all byte_ok (drop ?k ?P @ concat ps)"
    using Cons.prems(4) by (auto simp: list_all_iff dest: in_set_dropD)
  have ne: "\<forall>v\<in>set ?vs. v \<noteq> []" using Cons.prems(2) by (auto simp: clean_values_def clean_value_def)
  have "\<forall>v\<in>set ?vs. \<not> straddles v (take ?k ?P) (drop ?k ?P @ concat ps)"
    using cut_not_straddled [of "w\<lparr>w_pending := ?P\<rparr>"] Cons.prems(1) ne by simp
  then have split: "redact_loop ?vs (?P @ concat ps)
      = redact_loop ?vs (take ?k ?P) @ redact_loop ?vs (drop ?k ?P @ concat ps)"
    using redact_loop_append [OF Cons.prems(2), of "take ?k ?P" "drop ?k ?P @ concat ps"]
    by (simp only: append_assoc [symmetric] append_take_drop_id)
  obtain n e w1 where W: "Write dst_write w p = ((n, e), w1)" by (metis surj_pair)
  show ?case
  proof (cases e)
    case (Some err)
    with W Cons.prems(3) have "r = Some err" "w' = w1" by auto
    with Write_err [OF W [unfolded Some] refl refl ne ok(1)] split show ?thesis
      by (auto intro: prefix_order.trans [OF _ prefixI [OF split]])
  next
    case None
    with W Cons.prems(3) have rest: "write_all dst_write w1 ps = (r, w')" by auto
    from Write_ok [OF W [unfolded None] refl refl ne ok(1)] have w1: "w_values w1 = ?vs" "w_pending w1 = drop ?k ?P"
      "received (w_dst w1) = received (w_dst w) @ redact_loop ?vs (take ?k ?P)" by auto
    from Cons.IH [OF _ _ rest] Cons.prems(1,2) ok(2) w1 obtain q where
      "received (w_dst w') = received (w_dst w1) @ q"
      "prefix q (redact_loop ?vs (drop ?k ?P @ concat ps))"
      "r = None \<longrightarrow> q = redact_loop ?vs (drop ?k ?P @ concat ps)" by auto
    with w1 split show ?thesis by auto
  qed
qed

end

subsection \<open>The writer over a buffer\<close>

text \<open>\<open>bytes.Buffer\<close>, the destination of the package's own test: every write is appended.\<close>

definition buffer_write :: "bytes \<Rightarrow> bytes \<Rightarrow> unit option \<times> bytes" where
  "buffer_write d p = (None, d @ p)"

interpretation buf: sink buffer_write "\<lambda>d. d" "\<lambda>_. True"
  by unfold_locales (auto simp: buffer_write_def list_all_iff)

lemma write_all_buffer: "\<exists>w'. write_all buffer_write w ps = (None, w')"
  by (induction ps arbitrary: w)
    (auto simp: Close_def Write_def buffer_write_def Let_def split: prod.splits)

lemma write_all_NewWriter:
  assumes "separated (w_values (NewWriter ([] :: bytes) vs))"
    and "clean_values (w_values (NewWriter ([] :: bytes) vs))"
  shows "\<exists>w. write_all buffer_write (NewWriter [] vs) ps = (None, w) \<and> w_dst w = Redact (concat ps) vs"
proof -
  obtain w where w: "write_all buffer_write (NewWriter [] vs) ps = (None, w)"
    using write_all_buffer by blast
  from buf.write_all_received [OF assms w] have "w_dst w = Redact (concat ps) vs"
    by (simp add: Redact_eq_loop NewWriter_def list_all_iff)
  with w show ?thesis by blast
qed

lemma redact_loop_single_id: "v \<noteq> [] \<Longrightarrow> \<not> sublist v s \<Longrightarrow> redact_loop [v] s = s"
  by (simp add: replace_all_id)

text \<open>A value with a border: the cut falls into the value when it is the end of a write.\<close>

lemma bordered_cut:
  assumes "has_border v" and "w_values w = [v]" and "w_pending w = pre @ v"
  shows "0 < partialSuffixLength w \<and> partialSuffixLength w < length v"
proof -
  obtain b where b: "suffix b v" "b \<noteq> []" "strict_prefix b v" using assms(1) by (rule has_borderE)
  then have "suffix b (pre @ v)" by (auto simp: suffix_append)
  with b assms have pos: "0 < partialSuffixLength w"
    using partialSuffixLength_max [of v w b] by (cases b) auto
  moreover have v: "\<forall>u\<in>set (w_values w). u \<noteq> []" using b assms(2) by auto
  then obtain u where "u \<in> set (w_values w)"
    "strict_prefix (drop (length (w_pending w) - partialSuffixLength w) (w_pending w)) u"
    using pos by (rule partialSuffixLength_hit)
  with assms(2) have "length (drop (length (w_pending w) - partialSuffixLength w) (w_pending w)) < length v"
    by (auto dest: prefix_length_less)
  with partialSuffixLength_le [OF v] show ?thesis using pos by simp
qed

lemma bordered_stream:
  assumes "has_border v" and "3 \<le> length v" and "\<not> sublist v (pre @ butlast v)"
  shows "w_dst (snd (write_all buffer_write (NewWriter [] [v]) [pre @ v])) = pre @ v"
proof -
  let ?w = "(NewWriter [] [v])\<lparr>w_pending := pre @ v\<rparr> :: bytes writer"
  define k where "k = length (pre @ v) - partialSuffixLength ?w"
  have v: "v \<noteq> []" using assms(2) by auto
  have w: "w_values ?w = [v]" using assms(2) by (simp add: NewWriter_def)
  have cut: "0 < partialSuffixLength ?w" "partialSuffixLength ?w < length v"
    using bordered_cut [OF assms(1) w] by simp_all
  then have k: "k \<noteq> 0" "length (pre @ v) - k < length v" "k \<le> length (pre @ butlast v)"
    using v by (auto simp: k_def)
  have "take k (pre @ v) = take k (pre @ butlast v)"
    using k(3) v by (metis append_assoc append_butlast_last_id diff_is_0_eq take_0 take_append append_Nil2)
  with assms(3) have 1: "\<not> sublist v (take k (pre @ v))"
    by (metis sublist_order.order_trans sublist_take)
  have 2: "\<not> sublist v (drop k (pre @ v))" using k(2) by (auto dest: sublist_length_le)
  define X where "X = pre @ v"
  have "Write buffer_write (NewWriter [] [v]) X
      = ((length X, None), ?w\<lparr>w_dst := take k X, w_pending := drop k X\<rparr>)"
    using Write_eq [of X "NewWriter [] [v]" X k buffer_write] k(1) k_def w
      redact_loop_single_id [OF v 1] v
    by (simp add: NewWriter_def buffer_write_def X_def [symmetric])
  moreover have "drop k X \<noteq> []" using cut by (auto simp: k_def X_def)
  ultimately have "w_dst (snd (write_all buffer_write (NewWriter [] [v]) [X])) = take k X @ drop k X"
    using redact_loop_single_id [OF v 2] w v
    by (simp add: Close_def Let_def redact_def buffer_write_def NewWriter_def X_def [symmetric])
  then show ?thesis by (simp only: X_def append_take_drop_id)
qed

subsection \<open>Properties\<close>





text \<open>
  C33: A value with a border (a proper prefix that is also a suffix, such as an equal first and last
  byte) is delivered in the clear when a write ends with it: the writer holds back the border only.
\<close>

theorem bordered_value_leaks:
  assumes "has_border v" and "3 \<le> length v" and "\<not> sublist v (pre @ butlast v)"
  shows "w_dst (snd (write_all buffer_write (NewWriter [] [v]) [pre @ v])) = pre @ v"
  using assms by (rule bordered_stream)

theorem bordered_value_leaks_witness:
  "w_dst (snd (write_all buffer_write (NewWriter [] [bytes_of ''abc-abc'']) [bytes_of ''token='' @ bytes_of ''abc-abc'']))
     = bytes_of ''token='' @ bytes_of ''abc-abc''"
  by (rule bordered_value_leaks) code_simp+

text \<open>
  \<open>partialSuffixLength\<close> computes the length of the longest suffix of the pending bytes that is
  a proper beginning of some value: the countdown loops skip nothing.
\<close>

theorem partialSuffixLength_Max:
  assumes "\<forall>v\<in>set (w_values w). v \<noteq> []"
  shows "partialSuffixLength w = Max (insert 0 {length a |a v. v \<in> set (w_values w)
    \<and> suffix a (w_pending w) \<and> strict_prefix a v})" (is "_ = Max (insert 0 ?A)")
proof (rule Max_eqI [symmetric])
  have "?A \<subseteq> {..length (w_pending w)}" by (auto dest: suffix_length_le)
  then show "finite (insert 0 ?A)" by (auto intro: finite_subset)
  show "k \<le> partialSuffixLength w" if "k \<in> insert 0 ?A" for k
    using that partialSuffixLength_max by auto
  show "partialSuffixLength w \<in> insert 0 ?A"
  proof (cases "partialSuffixLength w = 0")
    case False
    then obtain v where "v \<in> set (w_values w)"
      "strict_prefix (drop (length (w_pending w) - partialSuffixLength w) (w_pending w)) v"
      using partialSuffixLength_hit [OF assms] by blast
    then have "length (drop (length (w_pending w) - partialSuffixLength w) (w_pending w)) \<in> ?A"
      by (blast intro: suffix_drop)
    then show ?thesis using partialSuffixLength_le [OF assms] by simp
  qed simp
qed

theorem partialSuffixLength_Max_witness:
  "Max (insert 0 {length a |a v. v \<in> set [[1, 2, 3 :: byte]] \<and> suffix a [7, 1, 2] \<and> strict_prefix a v}) = 2"
proof -
  let ?w = "\<lparr>w_dst = (), w_values = [[1, 2, 3 :: byte]], w_pending = [7, 1, 2]\<rparr>"
  have "partialSuffixLength ?w = 2" by code_simp
  with partialSuffixLength_Max [of ?w] show ?thesis by simp
qed

end
