(* ===== verification/GoErrors.thy ===== *)
theory GoErrors
  imports Prelude
begin

section \<open>Go's error values\<close>

text \<open>
  An error is a value made by \<open>errors.New\<close> (a package-level sentinel such as \<open>vault.ErrLocked\<close>),
  by \<open>fmt.Errorf\<close> without a wrapped error, or by \<open>fmt.Errorf("\<dots>: %w", err)\<close>, which wraps another.
  \<open>errors.Is\<close> follows the chain of wrapped errors and compares with the sentinel. A Go function
  that returns \<open>(T, error)\<close> is a function into \<open>error + 'a\<close>.
\<close>

datatype error =
    Sentinel string
  | Errorf string
  | Wrap string error

primrec error_text :: "error \<Rightarrow> string" where
  "error_text (Sentinel s) = s"
| "error_text (Errorf s) = s"
| "error_text (Wrap s e) = s @ error_text e"

primrec error_is :: "error \<Rightarrow> error \<Rightarrow> bool" where
  "error_is (Sentinel s) target = (Sentinel s = target)"
| "error_is (Errorf s) target = False"
| "error_is (Wrap s e) target = error_is e target"

type_synonym 'a result = "error + 'a"

text \<open>\<open>x, err := f(); if err != nil { return err }\<close> followed by the rest of the function.\<close>

definition and_then :: "'a result \<Rightarrow> ('a \<Rightarrow> 'b result) \<Rightarrow> 'b result" where
  "and_then r f = (case r of Inl e \<Rightarrow> Inl e | Inr x \<Rightarrow> f x)"

lemma and_then_simps [simp]:
  "and_then (Inl e) f = Inl e"
  "and_then (Inr x) f = f x"
  by (simp_all add: and_then_def)

lemma and_then_Inr: "and_then r f = Inr y \<longleftrightarrow> (\<exists>x. r = Inr x \<and> f x = Inr y)"
  by (cases r) simp_all

lemma and_then_assoc: "and_then (and_then r f) g = and_then r (\<lambda>x. and_then (f x) g)"
  by (cases r) simp_all

lemma error_is_Wrap_prefix: "error_is (Wrap s e) (Sentinel t) \<longleftrightarrow> error_is e (Sentinel t)"
  by simp

end
