(* ===== verification/Runner.thy ===== *)
theory Runner
  imports GoErrors
begin

section \<open>Running a command (internal/runner/runner.go)\<close>

text \<open>
  \<open>Run\<close> starts a command and turns what \<open>cmd.Run\<close> of \<open>os/exec\<close> returns into an exit code. Starting the
  process is the operating system's: \<open>cmd_run\<close> is an argument that takes the invocation to the error of
  \<open>cmd.Run\<close>, if any, and to the new state of whatever the process writes to.
\<close>

record Invocation =
  iv_command :: "string list"
  iv_dir :: string
  iv_env :: "string list"

text \<open>An \<open>exec.ExitError\<close> with its code and text, or another error, for which \<open>os.IsNotExist\<close> may hold.\<close>

datatype cmd_error = ExitError int string | OtherError error bool

definition exit_of :: "error option \<Rightarrow> cmd_error option \<Rightarrow> int \<times> error option" where
  "exit_of ctx_err err =
     (case err of
        None \<Rightarrow> (0, None)
      | Some (ExitError exit_code msg) \<Rightarrow> (exit_code, Some (Errorf msg))
      | Some (OtherError e not_exist) \<Rightarrow>
          (case ctx_err of
             Some c \<Rightarrow> (130, Some c)
           | None \<Rightarrow> if not_exist then (127, Some e) else (1, Some e)))"

definition Run :: "(Invocation \<Rightarrow> 's \<Rightarrow> cmd_error option \<times> 's) \<Rightarrow> error option \<Rightarrow> Invocation \<Rightarrow> 's
    \<Rightarrow> (int \<times> error option) \<times> 's" where
  "Run cmd_run ctx_err call s =
     (if iv_command call = [] then ((2, Some (Errorf ''no command provided'')), s)
      else case cmd_run call s of (err, s') \<Rightarrow> (exit_of ctx_err err, s'))"

lemma Run_command:
  "iv_command call \<noteq> [] \<Longrightarrow> cmd_run call s = (err, s') \<Longrightarrow> Run cmd_run ctx_err call s = (exit_of ctx_err err, s')"
  by (simp add: Run_def)

lemma exit_of_ok: "snd (exit_of ctx_err err) = None \<longleftrightarrow> err = None"
  by (auto simp: exit_of_def split: option.splits cmd_error.splits)

end
