(* ===== verification/GoRuntime.thy ===== *)
theory GoRuntime
  imports GoErrors
begin

section \<open>What the program takes from Go's standard library\<close>

text \<open>
  The parts of the standard library whose results the program computes with: the random source
  \<open>crypto/rand\<close>. Its bytes come from the environment: they are a tape, which every read shortens;
  at its end a read reports an error, as \<open>io.ReadFull(rand.Reader, \<dots>)\<close> may.
\<close>

subsection \<open>crypto/rand\<close>

definition rand_read :: "nat \<Rightarrow> bytes \<Rightarrow> bytes result \<times> bytes" where
  "rand_read n tape =
     (if n \<le> length tape then (Inr (take n tape), drop n tape)
      else (Inl (Errorf ''unexpected EOF''), []))"

lemma rand_read_Inr:
  "rand_read n tape = (Inr b, tape') \<longleftrightarrow> n \<le> length tape \<and> b = take n tape \<and> tape' = drop n tape"
  by (auto simp: rand_read_def)

lemma rand_read_Inr_sym:
  "(Inr b, tape') = rand_read n tape \<longleftrightarrow> n \<le> length tape \<and> b = take n tape \<and> tape' = drop n tape"
  by (auto simp: rand_read_def)

lemma rand_read_length: "rand_read n tape = (Inr b, tape') \<Longrightarrow> length b = n"
  by (auto simp: rand_read_Inr)

end
