(* ===== verification/GoText.thy ===== *)
theory GoText
  imports GoRuntime "HOL-Library.Char_ord" "HOL-Library.List_Lexorder" "HOL-Library.Product_Lexorder"
begin

section \<open>Text formats of Go's standard library\<close>

text \<open>
  The text formats the program computes with: \<open>%d\<close> of \<open>fmt\<close>, \<open>encoding/hex\<close>,
  \<open>base64.RawURLEncoding\<close> and \<open>time.RFC3339Nano\<close>. Each has a decoder and is an instance of the
  interface \<open>encoding\<close>, so distinct values have distinct texts. Texts are ordered bytewise, as
  SQLite orders a TEXT column.
\<close>

subsection \<open>Decimal numbers\<close>

definition digit :: "nat \<Rightarrow> char" where
  "digit d = char_of (48 + d)"

definition undigit :: "char \<Rightarrow> nat option" where
  "undigit c = (if 48 \<le> (of_char c :: nat) \<and> of_char c < (58 :: nat) then Some (of_char c - 48) else None)"

lemma digit_eval:
  "digit 0 = CHR ''0''" "digit (Suc 0) = CHR ''1''" "digit 2 = CHR ''2''" "digit 3 = CHR ''3''" "digit 4 = CHR ''4''"
  "digit 5 = CHR ''5''" "digit 6 = CHR ''6''" "digit 7 = CHR ''7''" "digit 8 = CHR ''8''" "digit 9 = CHR ''9''"
  by code_simp+

lemma undigit_digit [simp]: "d < 10 \<Longrightarrow> undigit (digit d) = Some d"
  by (simp add: digit_def undigit_def)

lemma of_char_digit: "d < 10 \<Longrightarrow> (of_char (digit d) :: nat) = 48 + d"
  by (simp add: digit_def)

lemma digit_inject: "d < 10 \<Longrightarrow> e < 10 \<Longrightarrow> digit d = digit e \<longleftrightarrow> d = e"
  by (metis option.inject undigit_digit)

text \<open>The value of a string of digits.\<close>

fun undec_from :: "nat \<Rightarrow> string \<Rightarrow> nat option" where
  "undec_from acc [] = Some acc"
| "undec_from acc (c # cs) =
     (case undigit c of None \<Rightarrow> None | Some d \<Rightarrow> undec_from (10 * acc + d) cs)"

lemma undec_from_append:
  "undec_from acc (xs @ ys) = (case undec_from acc xs of None \<Rightarrow> None | Some a \<Rightarrow> undec_from a ys)"
  by (induction acc xs rule: undec_from.induct) (auto split: option.splits)

fun dec_nat :: "nat \<Rightarrow> string" where
  "dec_nat n = (if n < 10 then [digit n] else dec_nat (n div 10) @ [digit (n mod 10)])"

declare dec_nat.simps [simp del]

lemma dec_nat_nonempty [simp]: "dec_nat n \<noteq> []"
  by (subst dec_nat.simps) simp

lemma undec_dec_nat: "undec_from 0 (dec_nat n) = Some n"
proof (induction n rule: dec_nat.induct)
  case (1 n)
  then show ?case by (subst dec_nat.simps) (auto simp: undec_from_append)
qed

lemma dec_nat_digits: "c \<in> set (dec_nat n) \<Longrightarrow> \<exists>d<10. c = digit d"
proof (induction n rule: dec_nat.induct)
  case (1 n)
  show ?case
  proof (cases "n < 10")
    case True
    with "1.prems" show ?thesis by (subst (asm) dec_nat.simps) auto
  next
    case False
    with "1.prems" have "c \<in> set (dec_nat (n div 10)) \<or> c = digit (n mod 10)"
      by (subst (asm) dec_nat.simps) auto
    moreover have "n mod 10 < 10" by simp
    ultimately show ?thesis using "1.IH" [OF False] by blast
  qed
qed

text \<open>\<open>%d\<close> of an \<open>int\<close>.\<close>

definition dec_int :: "int \<Rightarrow> string" where
  "dec_int i = (if i < 0 then CHR ''-'' # dec_nat (nat (- i)) else dec_nat (nat i))"

definition undec_int :: "string \<Rightarrow> int option" where
  "undec_int s =
     (case s of
        [] \<Rightarrow> None
      | c # cs \<Rightarrow>
          if c = CHR ''-'' then (if cs = [] then None else map_option (\<lambda>n. - int n) (undec_from 0 cs))
          else map_option int (undec_from 0 s))"

lemma digit_not_minus: "d < 10 \<Longrightarrow> digit d \<noteq> CHR ''-''"
  using of_char_digit [of d] by auto

lemma undec_dec_int: "undec_int (dec_int i) = Some i"
proof (cases "i < 0")
  case True
  then show ?thesis by (simp add: undec_int_def dec_int_def undec_dec_nat)
next
  case False
  obtain c cs where d: "dec_nat (nat i) = c # cs" by (cases "dec_nat (nat i)") auto
  then obtain k where "k < 10" "c = digit k" using dec_nat_digits [of c "nat i"] by auto
  then have "c \<noteq> CHR ''-''" by (simp add: digit_not_minus)
  moreover have "undec_from 0 (c # cs) = Some (nat i)" by (metis d undec_dec_nat)
  ultimately show ?thesis using False d by (simp add: undec_int_def dec_int_def del: undec_from.simps)
qed

interpretation dec: encoding dec_int undec_int "\<lambda>_. True"
  by unfold_locales (rule undec_dec_int)

text \<open>Numbers of a fixed width, padded with zeros.\<close>

primrec pad :: "nat \<Rightarrow> nat \<Rightarrow> string" where
  "pad 0 n = []"
| "pad (Suc k) n = pad k (n div 10) @ [digit (n mod 10)]"

lemma pad_numeral: "pad (numeral k) n = pad (pred_numeral k) (n div 10) @ [digit (n mod 10)]"
  unfolding numeral_eq_Suc [of k] by (rule pad.simps(2))

lemma length_pad [simp]: "length (pad k n) = k"
  by (induction k arbitrary: n) simp_all

lemma undec_pad: "n < 10 ^ k \<Longrightarrow> undec_from 0 (pad k n) = Some n"
proof (induction k arbitrary: n)
  case (Suc k)
  then have "n div 10 < 10 ^ k" by (simp add: less_mult_imp_div_less mult.commute)
  with Suc.IH show ?case by (simp add: undec_from_append)
qed simp

lemma pad_digits: "c \<in> set (pad k n) \<Longrightarrow> \<exists>d<10. c = digit d"
proof (induction k arbitrary: n)
  case (Suc k)
  moreover have "n mod 10 < 10" by simp
  ultimately show ?case by (auto simp del: mod_less_divisor)
qed simp

text \<open>Equal widths compare as numbers.\<close>

lemma append_less_iff:
  fixes a b :: "'a :: linorder list"
  assumes "length a = length b"
  shows "a @ x < b @ y \<longleftrightarrow> a < b \<or> a = b \<and> x < y"
  using assms by (induction a b rule: list_induct2) auto

lemma digit_less_iff: "d < 10 \<Longrightarrow> e < 10 \<Longrightarrow> digit d < digit e \<longleftrightarrow> d < e"
  by (simp add: less_char_def of_char_digit)

lemma pad_less_iff: "m < 10 ^ k \<Longrightarrow> n < 10 ^ k \<Longrightarrow> pad k m < pad k n \<longleftrightarrow> m < n"
proof (induction k arbitrary: m n)
  case (Suc k)
  have d: "m div 10 < 10 ^ k" "n div 10 < 10 ^ k"
    using Suc.prems by (simp_all add: less_mult_imp_div_less mult.commute)
  have inj: "pad k (m div 10) = pad k (n div 10) \<longleftrightarrow> m div 10 = n div 10"
    by (metis d undec_pad option.inject)
  have "pad (Suc k) m < pad (Suc k) n \<longleftrightarrow>
      m div 10 < n div 10 \<or> m div 10 = n div 10 \<and> m mod 10 < n mod 10"
    using Suc.IH [OF d] by (simp add: append_less_iff inj digit_less_iff)
  also have "\<dots> \<longleftrightarrow> m < n"
    using div_mult_mod_eq [of m 10] div_mult_mod_eq [of n 10] mod_less_divisor [of 10 m]
      mod_less_divisor [of 10 n] by linarith
  finally show ?case .
qed simp

subsection \<open>Hexadecimal\<close>

definition hex_digit :: "nat \<Rightarrow> char" where
  "hex_digit d = (if d < 10 then digit d else char_of (87 + d))"

definition unhex_digit :: "char \<Rightarrow> nat option" where
  "unhex_digit c =
     (let n = of_char c :: nat
      in if 97 \<le> n \<and> n < 103 then Some (n - 87) else undigit c)"

lemma unhex_hex_digit: "d < 16 \<Longrightarrow> unhex_digit (hex_digit d) = Some d"
  by (auto simp: unhex_digit_def hex_digit_def Let_def of_char_digit)

text \<open>\<open>hex.EncodeToString\<close>.\<close>

definition hex_byte :: "byte \<Rightarrow> string" where
  "hex_byte b = [hex_digit (unat b div 16), hex_digit (unat b mod 16)]"

primrec hex_encode :: "bytes \<Rightarrow> string" where
  "hex_encode [] = []"
| "hex_encode (b # bs) = hex_byte b @ hex_encode bs"

fun hex_decode :: "string \<Rightarrow> bytes option" where
  "hex_decode [] = Some []"
| "hex_decode [c] = None"
| "hex_decode (c # d # cs) =
     (case (unhex_digit c, unhex_digit d, hex_decode cs) of
        (Some h, Some l, Some bs) \<Rightarrow> Some (of_nat (16 * h + l) # bs)
      | _ \<Rightarrow> None)"

lemma unat_byte_bound: "unat (b :: byte) < 256"
  using unsigned_less [of b, where 'a = nat] by simp

lemma hex_decode_encode: "hex_decode (hex_encode bs) = Some bs"
proof (induction bs)
  case (Cons b bs)
  have "unat b div 16 < 16" using unat_byte_bound [of b] by (simp add: less_mult_imp_div_less)
  moreover have "(of_nat (16 * (unat b div 16) + unat b mod 16) :: byte) = b"
    by (simp only: mult_div_mod_eq) simp
  ultimately show ?case using Cons by (simp add: hex_byte_def unhex_hex_digit)
qed simp

lemma length_hex_encode [simp]: "length (hex_encode bs) = 2 * length bs"
  by (induction bs) (simp_all add: hex_byte_def)

lemma hex_encode_digits: "c \<in> set (hex_encode bs) \<Longrightarrow> \<exists>d<16. c = hex_digit d"
proof (induction bs)
  case (Cons b bs)
  have "unat b div 16 < 16" "unat b mod 16 < 16"
    using unat_byte_bound [of b] by (simp_all add: less_mult_imp_div_less)
  moreover have "c = hex_digit (unat b div 16) \<or> c = hex_digit (unat b mod 16) \<or> c \<in> set (hex_encode bs)"
    using Cons.prems by (auto simp: hex_byte_def)
  ultimately show ?case using Cons.IH by blast
qed simp

lemma of_char_hex_digit: "d < 16 \<Longrightarrow> (of_char (hex_digit d) :: nat) = (if d < 10 then 48 + d else 87 + d)"
  by (simp add: hex_digit_def of_char_digit)

lemma hex_encode_append: "hex_encode (xs @ ys) = hex_encode xs @ hex_encode ys"
  by (induction xs) simp_all

interpretation hex: encoding hex_encode hex_decode "\<lambda>_. True"
  by unfold_locales (rule hex_decode_encode)

subsection \<open>Quoted strings\<close>

text \<open>
  The verb \<open>%q\<close>: backslashes, quotes and the control characters of ASCII are escaped. Characters beyond
  ASCII are kept, which is what Go does with the printable ones; the texts of errors are their only use.
\<close>

definition go_quote_char :: "char \<Rightarrow> string" where
  "go_quote_char c =
     (let n = of_char c :: nat in
      if n = 34 \<or> n = 92 then [CHR 0x5C, c]
      else if n = 7 then [CHR 0x5C, CHR ''a''] else if n = 8 then [CHR 0x5C, CHR ''b'']
      else if n = 9 then [CHR 0x5C, CHR ''t''] else if n = 10 then [CHR 0x5C, CHR ''n'']
      else if n = 11 then [CHR 0x5C, CHR ''v''] else if n = 12 then [CHR 0x5C, CHR ''f'']
      else if n = 13 then [CHR 0x5C, CHR ''r'']
      else if n < 32 \<or> n = 127 then [CHR 0x5C, CHR ''x''] @ hex_byte (of_nat n)
      else [c])"

definition go_quote :: "string \<Rightarrow> string" where
  "go_quote s = [CHR 0x22] @ concat (map go_quote_char s) @ [CHR 0x22]"

subsection \<open>Base64, URL alphabet, no padding\<close>

definition b64_alphabet :: string where
  "b64_alphabet = ''ABCDEFGHIJKLMNOPQRSTUVWXYZabcdefghijklmnopqrstuvwxyz0123456789-_''"

definition b64_char :: "nat \<Rightarrow> char" where
  "b64_char i = b64_alphabet ! i"

definition unb64_char :: "char \<Rightarrow> nat option" where
  "unb64_char = map_of (zip b64_alphabet [0..<64])"

lemma b64_alphabet_length: "length b64_alphabet = 64"
  by code_simp

lemma b64_alphabet_distinct: "distinct b64_alphabet"
  by code_simp

lemma unb64_b64_char: "i < 64 \<Longrightarrow> unb64_char (b64_char i) = Some i"
  using map_of_zip_nth [of b64_alphabet "[0..<64]" i] b64_alphabet_length b64_alphabet_distinct
  by (simp add: unb64_char_def b64_char_def)

text \<open>\<open>base64.RawURLEncoding.EncodeToString\<close>: three bytes to four characters, the rest to two or three.\<close>

fun b64_encode :: "bytes \<Rightarrow> string" where
  "b64_encode (a # b # c # bs) =
     (let v = unat a * 65536 + unat b * 256 + unat c
      in b64_char (v div 262144) # b64_char (v div 4096 mod 64) # b64_char (v div 64 mod 64)
         # b64_char (v mod 64) # b64_encode bs)"
| "b64_encode [a, b] =
     (let v = unat a * 65536 + unat b * 256
      in [b64_char (v div 262144), b64_char (v div 4096 mod 64), b64_char (v div 64 mod 64)])"
| "b64_encode [a] =
     (let v = unat a * 65536 in [b64_char (v div 262144), b64_char (v div 4096 mod 64)])"
| "b64_encode [] = []"

definition join_sextets :: "nat \<Rightarrow> nat \<Rightarrow> nat \<Rightarrow> nat \<Rightarrow> nat" where
  "join_sextets i j k l = ((i * 64 + j) * 64 + k) * 64 + l"

fun b64_decode :: "string \<Rightarrow> bytes option" where
  "b64_decode (p # q # r # s # cs) =
     (case (unb64_char p, unb64_char q, unb64_char r, unb64_char s, b64_decode cs) of
        (Some i, Some j, Some k, Some l, Some bs) \<Rightarrow>
          (let v = join_sextets i j k l
           in Some (of_nat (v div 65536) # of_nat (v div 256 mod 256) # of_nat (v mod 256) # bs))
      | _ \<Rightarrow> None)"
| "b64_decode [p, q, r] =
     (case (unb64_char p, unb64_char q, unb64_char r) of
        (Some i, Some j, Some k) \<Rightarrow>
          (let v = join_sextets i j k 0 in Some [of_nat (v div 65536), of_nat (v div 256 mod 256)])
      | _ \<Rightarrow> None)"
| "b64_decode [p, q] =
     (case (unb64_char p, unb64_char q) of
        (Some i, Some j) \<Rightarrow> Some [of_nat (join_sextets i j 0 0 div 65536)]
      | _ \<Rightarrow> None)"
| "b64_decode [p] = None"
| "b64_decode [] = Some []"

lemma sextets:
  fixes v :: nat
  shows "join_sextets (v div 262144) (v div 4096 mod 64) (v div 64 mod 64) (v mod 64) = v"
proof -
  have "v div 262144 = v div 4096 div 64" and "v div 4096 = v div 64 div 64"
    by (simp_all add: div_mult2_eq [symmetric])
  then show ?thesis unfolding join_sextets_def by (metis div_mult_mod_eq)
qed

lemma byte_digits:
  fixes a b c :: nat
  assumes "a < 256" and "b < 256" and "c < 256"
  defines "v \<equiv> a * 65536 + b * 256 + c"
  shows "v div 65536 = a" and "v div 256 mod 256 = b" and "v mod 256 = c" and "v div 262144 < 64"
proof -
  have v: "v = c + (a * 256 + b) * 256" by (simp add: v_def)
  have "v div 256 = a * 256 + b" "v mod 256 = c"
    using assms(3) unfolding v by (simp_all only: div_mult_self1 mod_mult_self1, simp_all)
  moreover have "v div 65536 = v div 256 div 256" by (simp add: div_mult2_eq [symmetric])
  ultimately show "v div 65536 = a" "v div 256 mod 256 = b" "v mod 256 = c" using assms by simp_all
  have "v < 16777216" using assms by simp
  then show "v div 262144 < 64" by (simp add: less_mult_imp_div_less)
qed

lemma b64_decode_encode: "b64_decode (b64_encode bs) = Some bs"
proof (induction bs rule: b64_encode.induct)
  case (1 a b c bs)
  define v where "v = unat a * 65536 + unat b * 256 + unat c"
  have bytes: "v div 65536 = unat a" "v div 256 mod 256 = unat b" "v mod 256 = unat c" "v div 262144 < 64"
    using byte_digits [OF unat_byte_bound unat_byte_bound unat_byte_bound] unfolding v_def by blast+
  with 1 show ?case by (simp add: v_def [symmetric] Let_def unb64_b64_char sextets bytes)
next
  case (2 a b)
  define v where "v = unat a * 65536 + unat b * 256"
  have bytes: "v div 65536 = unat a" "v div 256 mod 256 = unat b" "v div 262144 < 64"
    using byte_digits [OF unat_byte_bound [of a] unat_byte_bound [of b], of 0] unfolding v_def by simp_all
  have "v = (unat a * 1024 + unat b * 4) * 64" by (simp add: v_def)
  then have "v mod 64 = 0" by simp
  then have "join_sextets (v div 262144) (v div 4096 mod 64) (v div 64 mod 64) 0 = v"
    using sextets [of v] by simp
  then show ?case using bytes by (simp add: v_def [symmetric] Let_def unb64_b64_char)
next
  case (3 a)
  define v where "v = unat a * 65536"
  have bytes: "v div 65536 = unat a" "v div 262144 < 64"
    using byte_digits [OF unat_byte_bound [of a], of 0 0] unfolding v_def by simp_all
  have v: "v = unat a * 16 * 64 * 64" by (simp add: v_def)
  then have "v mod 64 = 0" by simp
  moreover have "v div 64 mod 64 = 0" unfolding v
    by (metis mod_mult_self2_is_0 nonzero_mult_div_cancel_right zero_neq_numeral)
  ultimately have "join_sextets (v div 262144) (v div 4096 mod 64) 0 0 = v" using sextets [of v] by simp
  then show ?case using bytes by (simp add: v_def [symmetric] Let_def unb64_b64_char)
qed simp

interpretation b64: encoding b64_encode b64_decode "\<lambda>_. True"
  by unfold_locales (rule b64_decode_encode)

end
