(* ===== verification/GoTime.thy ===== *)
theory GoTime
  imports GoText
begin

section \<open>Time stamps\<close>

text \<open>
  \<open>time.Time\<close> in UTC, as the program uses it: values of the clock in calendar fields, their order,
  and the text \<open>Format(time.RFC3339Nano)\<close>, which the vault stores in its TEXT columns and orders
  by. The format drops the trailing zeros of the fraction, so the order of the texts is the order of
  the times only when no zeros are dropped.
\<close>

datatype gotime = GoTime (t_year: nat) (t_month: nat) (t_day: nat)
  (t_hour: nat) (t_minute: nat) (t_second: nat) (t_nanos: nat)

definition time_key :: "gotime \<Rightarrow> nat \<times> nat \<times> nat \<times> nat \<times> nat \<times> nat \<times> nat" where
  "time_key t = (t_year t, t_month t, t_day t, t_hour t, t_minute t, t_second t, t_nanos t)"

lemma time_key_inject: "time_key t = time_key u \<longleftrightarrow> t = u"
  by (cases t; cases u) (simp add: time_key_def)

instantiation gotime :: linorder
begin

definition less_eq_gotime :: "gotime \<Rightarrow> gotime \<Rightarrow> bool" where
  "t \<le> u \<longleftrightarrow> time_key t \<le> time_key u"

definition less_gotime :: "gotime \<Rightarrow> gotime \<Rightarrow> bool" where
  "t < u \<longleftrightarrow> time_key t < time_key u"

instance
  by standard (auto simp: less_eq_gotime_def less_gotime_def time_key_inject not_le)

end

definition leap_year :: "nat \<Rightarrow> bool" where
  "leap_year y \<longleftrightarrow> y mod 4 = 0 \<and> (y mod 100 \<noteq> 0 \<or> y mod 400 = 0)"

definition days_in :: "nat \<Rightarrow> nat \<Rightarrow> nat" where
  "days_in y m = (if m = 2 then (if leap_year y then 29 else 28)
     else if m \<in> {4, 6, 9, 11} then 30 else 31)"

definition valid_time :: "gotime \<Rightarrow> bool" where
  "valid_time t \<longleftrightarrow> t_year t < 10000 \<and> 1 \<le> t_month t \<and> t_month t \<le> 12
     \<and> 1 \<le> t_day t \<and> t_day t \<le> days_in (t_year t) (t_month t)
     \<and> t_hour t < 24 \<and> t_minute t < 60 \<and> t_second t < 60 \<and> t_nanos t < 1000000000"

text \<open>\<open>Time.IsZero\<close>.\<close>

definition zero_time :: gotime where
  "zero_time = GoTime 1 1 1 0 0 0 0"

subsection \<open>The text of a time\<close>

definition strip_zeros :: "string \<Rightarrow> string" where
  "strip_zeros s = rev (dropWhile (\<lambda>c. c = CHR ''0'') (rev s))"

definition fraction :: "nat \<Rightarrow> string" where
  "fraction ns = (let ds = strip_zeros (pad 9 ns) in if ds = [] then [] else CHR ''.'' # ds)"

definition stamp_seconds :: "gotime \<Rightarrow> string" where
  "stamp_seconds t = pad 4 (t_year t) @ ''-'' @ pad 2 (t_month t) @ ''-'' @ pad 2 (t_day t) @ ''T''
     @ pad 2 (t_hour t) @ '':'' @ pad 2 (t_minute t) @ '':'' @ pad 2 (t_second t)"

definition stamp :: "gotime \<Rightarrow> string" where
  "stamp t = stamp_seconds t @ fraction (t_nanos t) @ ''Z''"

definition unfraction :: "string \<Rightarrow> nat option" where
  "unfraction s =
     (if s = ''Z'' then Some 0
      else case s of
        [] \<Rightarrow> None
      | c # r \<Rightarrow>
          if c = CHR ''.'' \<and> r \<noteq> [] \<and> last r = CHR ''Z'' \<and> butlast r \<noteq> [] \<and> length (butlast r) \<le> 9
          then undec_from 0 (butlast r @ replicate (9 - length (butlast r)) (CHR ''0''))
          else None)"

definition unstamp :: "string \<Rightarrow> gotime option" where
  "unstamp s =
     (if length s < 20 \<or> s ! 4 \<noteq> CHR ''-'' \<or> s ! 7 \<noteq> CHR ''-'' \<or> s ! 10 \<noteq> CHR ''T''
        \<or> s ! 13 \<noteq> CHR '':'' \<or> s ! 16 \<noteq> CHR '':'' then None
      else case (undec_from 0 (take 4 s), undec_from 0 (take 2 (drop 5 s)), undec_from 0 (take 2 (drop 8 s)),
          undec_from 0 (take 2 (drop 11 s)), undec_from 0 (take 2 (drop 14 s)),
          undec_from 0 (take 2 (drop 17 s)), unfraction (drop 19 s)) of
        (Some y, Some mo, Some d, Some h, Some mi, Some sec, Some ns) \<Rightarrow>
          (let t = GoTime y mo d h mi sec ns in if valid_time t then Some t else None)
      | _ \<Rightarrow> None)"

lemma strip_zeros_restore: "strip_zeros s @ replicate (length s - length (strip_zeros s)) (CHR ''0'') = s"
proof -
  let ?p = "\<lambda>c. c = CHR ''0''"
  have "rev (takeWhile ?p (rev s) @ dropWhile ?p (rev s)) = s" by (simp only: takeWhile_dropWhile_id rev_rev_ident)
  then have s: "s = strip_zeros s @ rev (takeWhile ?p (rev s))"
    unfolding rev_append strip_zeros_def by (rule sym)
  moreover have "rev (takeWhile ?p (rev s)) = replicate (length (takeWhile ?p (rev s))) (CHR ''0'')"
  proof -
    have "\<forall>c\<in>set (rev (takeWhile ?p (rev s))). c = CHR ''0''" by (auto dest: set_takeWhileD)
    then show ?thesis by (metis length_rev replicate_length_same)
  qed
  moreover have "length s = length (strip_zeros s) + length (takeWhile ?p (rev s))"
    using arg_cong [OF s, of length] by (simp only: length_append length_rev)
  ultimately show ?thesis by simp
qed

lemma length_strip_zeros: "length (strip_zeros s) \<le> length s"
  using strip_zeros_restore [of s] by (metis length_append le_add1)

lemma strip_zeros_digits: "set (strip_zeros s) \<subseteq> set s"
  by (auto simp: strip_zeros_def dest: set_dropWhileD)

lemma unfraction_fraction:
  assumes "ns < 1000000000"
  shows "unfraction (fraction ns @ ''Z'') = Some ns"
proof (cases "strip_zeros (pad 9 ns) = []")
  case True
  then have "pad 9 ns = replicate 9 (CHR ''0'')" using strip_zeros_restore [of "pad 9 ns"] by simp
  then have "undec_from 0 (replicate 9 (CHR ''0'')) = Some ns" using undec_pad [of ns 9] assms by simp
  moreover have "undec_from 0 (replicate 9 (CHR ''0'')) = Some 0" by code_simp
  ultimately show ?thesis using True by (simp add: fraction_def unfraction_def)
next
  case False
  let ?ds = "strip_zeros (pad 9 ns)"
  have "length ?ds \<le> 9" using length_strip_zeros [of "pad 9 ns"] by simp
  moreover have "?ds @ replicate (9 - length ?ds) (CHR ''0'') = pad 9 ns"
    using strip_zeros_restore [of "pad 9 ns"] by simp
  ultimately show ?thesis using False undec_pad [of ns 9] assms
    by (simp add: fraction_def unfraction_def)
qed

lemma length_stamp_seconds: "length (stamp_seconds t) = 19"
  by (simp add: stamp_seconds_def)

lemma days_in_le: "days_in y m \<le> 31"
  by (simp add: days_in_def)

lemma unstamp_stamp:
  assumes "valid_time t"
  shows "unstamp (stamp t) = Some t"
proof -
  have d: "t_year t < 10 ^ 4" "t_month t < 10 ^ 2" "t_day t < 10 ^ 2" "t_hour t < 10 ^ 2"
    "t_minute t < 10 ^ 2" "t_second t < 10 ^ 2" "t_nanos t < 1000000000"
    using assms days_in_le [of "t_year t" "t_month t"] by (auto simp: valid_time_def)
  have sep: "stamp t ! 4 = CHR ''-''" "stamp t ! 7 = CHR ''-''" "stamp t ! 10 = CHR ''T''"
    "stamp t ! 13 = CHR '':''" "stamp t ! 16 = CHR '':''"
    by (simp_all add: stamp_def stamp_seconds_def nth_append)
  have fields: "take 4 (stamp t) = pad 4 (t_year t)" "take 2 (drop 5 (stamp t)) = pad 2 (t_month t)"
    "take 2 (drop 8 (stamp t)) = pad 2 (t_day t)" "take 2 (drop 11 (stamp t)) = pad 2 (t_hour t)"
    "take 2 (drop 14 (stamp t)) = pad 2 (t_minute t)" "take 2 (drop 17 (stamp t)) = pad 2 (t_second t)"
    "drop 19 (stamp t) = fraction (t_nanos t) @ ''Z''"
    by (simp_all add: stamp_def stamp_seconds_def)
  have "\<not> length (stamp t) < 20" by (simp add: stamp_def length_stamp_seconds)
  then show ?thesis
    unfolding unstamp_def fields sep using assms
    by (simp add: undec_pad [OF d(1)] undec_pad [OF d(2)] undec_pad [OF d(3)] undec_pad [OF d(4)]
        undec_pad [OF d(5)] undec_pad [OF d(6)] unfraction_fraction [OF d(7)] Let_def)
qed

interpretation stamps: encoding stamp unstamp valid_time
  by unfold_locales (rule unstamp_stamp)

lemmas stamp_eval = stamp_def stamp_seconds_def fraction_def strip_zeros_def pad_numeral digit_eval Let_def

subsection \<open>The order of the texts\<close>

text \<open>A time whose fraction is written in full.\<close>

definition full_fraction :: "gotime \<Rightarrow> bool" where
  "full_fraction t \<longleftrightarrow> t_nanos t mod 10 \<noteq> 0"

lemma digit_eq_zero: "d < 10 \<Longrightarrow> digit d = CHR ''0'' \<longleftrightarrow> d = 0"
proof -
  have "digit 0 = CHR ''0''" by code_simp
  then show "d < 10 \<Longrightarrow> digit d = CHR ''0'' \<longleftrightarrow> d = 0" using digit_inject [of d 0] by simp
qed

lemma pad_9_nonempty [simp]: "pad 9 n \<noteq> []"
  by (metis length_pad list.size(3) zero_neq_numeral)

lemma strip_zeros_full: "ns mod 10 \<noteq> 0 \<Longrightarrow> strip_zeros (pad (Suc k) ns) = pad (Suc k) ns"
  by (simp add: strip_zeros_def digit_eq_zero)

lemma fraction_full: "full_fraction t \<Longrightarrow> fraction (t_nanos t) = CHR ''.'' # pad 9 (t_nanos t)"
  using strip_zeros_full [of "t_nanos t" 8] by (simp add: full_fraction_def fraction_def Let_def)

lemma pad_inject: "m < 10 ^ k \<Longrightarrow> n < 10 ^ k \<Longrightarrow> pad k m = pad k n \<longleftrightarrow> m = n"
  by (metis option.inject undec_pad)

lemma stamp_less_iff:
  assumes "valid_time t" and "valid_time u" and "full_fraction t" and "full_fraction u"
  shows "stamp t < stamp u \<longleftrightarrow> t < u"
proof -
  have d: "t_year x < 10 ^ 4" "t_month x < 10 ^ 2" "t_day x < 10 ^ 2" "t_hour x < 10 ^ 2"
    "t_minute x < 10 ^ 2" "t_second x < 10 ^ 2" "t_nanos x < 10 ^ 9" if "valid_time x" for x
    using that days_in_le [of "t_year x" "t_month x"] by (auto simp: valid_time_def)
  show ?thesis
    using d [OF assms(1)] d [OF assms(2)]
    by (simp add: stamp_def stamp_seconds_def fraction_full assms(3,4) append_less_iff pad_less_iff
        pad_inject less_gotime_def time_key_def) linarith
qed

end
