(* ===== verification/Json.thy ===== *)
theory Json
  imports GoTime
begin

section \<open>JSON texts (encoding/json)\<close>

text \<open>
  The vault stores its records, and the broker exchanges its messages, as JSON. This theory models
  what \<open>json.Marshal\<close> writes and \<open>json.Unmarshal\<close> reads: strings with Go's escapes (HTML characters
  and the line separators escaped, invalid UTF-8 replaced), numbers as literals, arrays and objects.
  The main lemma is that a rendered value is read back, with every byte of its strings that begins no
  character as U+FFFD, and so unchanged for strings of valid UTF-8.
\<close>

datatype jv = JNull | JBool bool | JNum string | JStr string | JArr "jv list" | JObj "(string \<times> jv) list"

subsection \<open>UTF-8\<close>

abbreviation code :: "char \<Rightarrow> nat" where
  "code c \<equiv> of_char c"

definition cont :: "nat \<Rightarrow> char \<Rightarrow> nat \<Rightarrow> bool" where
  "cont lo c hi \<longleftrightarrow> lo \<le> code c \<and> code c \<le> hi"

text \<open>The well-formed sequences of two, three and four bytes.\<close>

definition seq2 :: "char \<Rightarrow> char \<Rightarrow> bool" where
  "seq2 a b \<longleftrightarrow> cont 194 a 223 \<and> cont 128 b 191"

definition seq3 :: "char \<Rightarrow> char \<Rightarrow> char \<Rightarrow> bool" where
  "seq3 a b c \<longleftrightarrow> cont 224 a 239
     \<and> cont (if code a = 224 then 160 else 128) b (if code a = 237 then 159 else 191) \<and> cont 128 c 191"

definition seq4 :: "char \<Rightarrow> char \<Rightarrow> char \<Rightarrow> char \<Rightarrow> bool" where
  "seq4 a b c d \<longleftrightarrow> cont 240 a 244
     \<and> cont (if code a = 240 then 144 else 128) b (if code a = 244 then 143 else 191)
     \<and> cont 128 c 191 \<and> cont 128 d 191"

text \<open>\<open>utf8.DecodeRune\<close>: the length of the first rune, 0 if it is not valid.\<close>

definition rune_len :: "string \<Rightarrow> nat" where
  "rune_len s =
     (case s of
        [] \<Rightarrow> 0
      | a # r \<Rightarrow>
          if code a < 128 then 1
          else (case r of
             [] \<Rightarrow> 0
           | b # r \<Rightarrow>
               if seq2 a b then 2
               else (case r of
                  [] \<Rightarrow> 0
                | c # r \<Rightarrow>
                    if seq3 a b c then 3
                    else (case r of
                       [] \<Rightarrow> 0
                     | d # r \<Rightarrow> if seq4 a b c d then 4 else 0))))"

lemma rune_len_cases:
  assumes "0 < rune_len s"
  obtains (1) a r where "s = a # r" "code a < 128"
  | (2) a b r where "s = a # b # r" "\<not> code a < 128" "seq2 a b"
  | (3) a b c r where "s = a # b # c # r" "\<not> code a < 128" "\<not> seq2 a b" "seq3 a b c"
  | (4) a b c d r where "s = a # b # c # d # r" "\<not> code a < 128" "\<not> seq2 a b" "\<not> seq3 a b c" "seq4 a b c d"
proof -
  from assms obtain a r where s: "s = a # r" by (cases s) (simp_all add: rune_len_def)
  show thesis
  proof (cases "code a < 128")
    case True
    with s show ?thesis by (rule 1)
  next
    case a: False
    with assms s obtain b r2 where r: "r = b # r2" by (cases r) (simp_all add: rune_len_def)
    show ?thesis
    proof (cases "seq2 a b")
      case True
      with s r a show ?thesis by (intro 2) simp_all
    next
      case ab: False
      with assms s r a obtain c r3 where r2: "r2 = c # r3" by (cases r2) (simp_all add: rune_len_def)
      show ?thesis
      proof (cases "seq3 a b c")
        case True
        with s r r2 a ab show ?thesis by (intro 3) simp_all
      next
        case abc: False
        with assms s r r2 a ab obtain d r4 where r3: "r3 = d # r4" by (cases r3) (simp_all add: rune_len_def)
        with assms s r r2 a ab abc have "seq4 a b c d" by (simp add: rune_len_def split: if_splits)
        with s r r2 r3 a ab abc show ?thesis by (intro 4) simp_all
      qed
    qed
  qed
qed

lemma rune_len_le: "rune_len s \<le> length s"
proof (cases "rune_len s = 0")
  case False
  then have "0 < rune_len s" by simp
  then show ?thesis by (cases rule: rune_len_cases) (simp_all add: rune_len_def)
qed simp

lemma rune_len_append: "0 < rune_len s \<Longrightarrow> rune_len (s @ t) = rune_len s"
  by (erule rune_len_cases) (simp_all add: rune_len_def)

lemma rune_len_take: "0 < rune_len s \<Longrightarrow> rune_len (take (rune_len s) s) = rune_len s"
  by (erule rune_len_cases) (simp_all add: rune_len_def)

function valid_utf8 :: "string \<Rightarrow> bool" where
  "valid_utf8 s =
     (if s = [] then True
      else if rune_len s = 0 then False
      else valid_utf8 (drop (rune_len s) s))"
  by pat_completeness auto
termination
  by (relation "measure length") auto

declare valid_utf8.simps [simp del]

lemma valid_utf8_Nil [simp]: "valid_utf8 []"
  by (subst valid_utf8.simps) simp

lemma valid_utf8_ascii: "list_all (\<lambda>c. code c < 128) s \<Longrightarrow> valid_utf8 s"
proof (induction s)
  case (Cons c s)
  then show ?case by (subst valid_utf8.simps) (simp add: rune_len_def)
qed simp

definition utf8_encode :: "nat \<Rightarrow> string" where
  "utf8_encode n =
     (if n < 128 then [char_of n]
      else if n < 2048 then [char_of (192 + n div 64), char_of (128 + n mod 64)]
      else if n < 65536 then [char_of (224 + n div 4096), char_of (128 + n div 64 mod 64), char_of (128 + n mod 64)]
      else [char_of (240 + n div 262144), char_of (128 + n div 4096 mod 64), char_of (128 + n div 64 mod 64),
        char_of (128 + n mod 64)])"

definition replacement :: string where
  "replacement = [CHR 0xEF, CHR 0xBF, CHR 0xBD]"

subsection \<open>Writing strings\<close>

definition u_escape :: "nat \<Rightarrow> string" where
  "u_escape n = CHR 0x5C # CHR ''u'' # [hex_digit (n div 4096 mod 16), hex_digit (n div 256 mod 16),
     hex_digit (n div 16 mod 16), hex_digit (n mod 16)]"

definition esc_ascii :: "char \<Rightarrow> string" where
  "esc_ascii c =
     (if c = CHR 0x22 \<or> c = CHR 0x5C then [CHR 0x5C, c]
      else if c = CHR 0x08 then [CHR 0x5C, CHR ''b'']
      else if c = CHR 0x0C then [CHR 0x5C, CHR ''f'']
      else if c = CHR 0x0A then [CHR 0x5C, CHR ''n'']
      else if c = CHR 0x0D then [CHR 0x5C, CHR ''r'']
      else if c = CHR 0x09 then [CHR 0x5C, CHR ''t'']
      else if code c < 32 \<or> c = CHR ''<'' \<or> c = CHR ''>'' \<or> c = CHR ''&'' then u_escape (code c)
      else [c])"

function esc :: "string \<Rightarrow> string" where
  "esc s =
     (case s of
        [] \<Rightarrow> []
      | c # cs \<Rightarrow>
          if code c < 128 then esc_ascii c @ esc cs
          else if rune_len s = 0 then u_escape 0xFFFD @ esc cs
          else (if take (rune_len s) s = [CHR 0xE2, CHR 0x80, CHR 0xA8] then u_escape 0x2028
                else if take (rune_len s) s = [CHR 0xE2, CHR 0x80, CHR 0xA9] then u_escape 0x2029
                else take (rune_len s) s) @ esc (drop (rune_len s) s))"
  by pat_completeness auto
termination
  by (relation "measure length") auto

declare esc.simps [simp del]

subsection \<open>Reading strings\<close>

definition unhex_any :: "char \<Rightarrow> nat option" where
  "unhex_any c = (if 65 \<le> code c \<and> code c < 71 then Some (code c - 55) else unhex_digit c)"

definition join_nibbles :: "nat \<Rightarrow> nat \<Rightarrow> nat \<Rightarrow> nat \<Rightarrow> nat" where
  "join_nibbles i j k l = ((i * 16 + j) * 16 + k) * 16 + l"

definition unhex4 :: "string \<Rightarrow> nat option" where
  "unhex4 s =
     (case s of
        [a, b, c, d] \<Rightarrow>
          (case (unhex_any a, unhex_any b, unhex_any c, unhex_any d) of
             (Some i, Some j, Some k, Some l) \<Rightarrow> Some (join_nibbles i j k l)
           | _ \<Rightarrow> None)
      | _ \<Rightarrow> None)"

text \<open>After a backslash: the bytes it stands for and the rest.\<close>

definition unescape :: "string \<Rightarrow> (string \<times> string) option" where
  "unescape s =
     (case s of
        [] \<Rightarrow> None
      | e # cs \<Rightarrow>
          if e = CHR 0x22 \<or> e = CHR 0x5C \<or> e = CHR ''/'' then Some ([e], cs)
          else if e = CHR ''b'' then Some ([CHR 0x08], cs)
          else if e = CHR ''f'' then Some ([CHR 0x0C], cs)
          else if e = CHR ''n'' then Some ([CHR 0x0A], cs)
          else if e = CHR ''r'' then Some ([CHR 0x0D], cs)
          else if e = CHR ''t'' then Some ([CHR 0x09], cs)
          else if e = CHR ''u''
          then (case unhex4 (take 4 cs) of
                  None \<Rightarrow> None
                | Some n \<Rightarrow>
                    if 0xD800 \<le> n \<and> n < 0xE000
                    then (case unhex4 (take 4 (drop 6 cs)) of
                            None \<Rightarrow> Some (replacement, drop 4 cs)
                          | Some m \<Rightarrow>
                              if n < 0xDC00 \<and> take 2 (drop 4 cs) = [CHR 0x5C, CHR ''u''] \<and> 0xDC00 \<le> m \<and> m < 0xE000
                              then Some (utf8_encode (0x10000 + (n - 0xD800) * 1024 + (m - 0xDC00)), drop 10 cs)
                              else Some (replacement, drop 4 cs))
                    else Some (utf8_encode n, drop 4 cs))
          else None)"

lemma unescape_length: "unescape s = Some (out, rest) \<Longrightarrow> length rest < length s"
  by (auto simp: unescape_def split: list.splits if_splits option.splits)

text \<open>The characters of a string literal up to its closing quote, and the rest.\<close>

function pstr :: "string \<Rightarrow> (string \<times> string) option" where
  "pstr s =
     (case s of
        [] \<Rightarrow> None
      | c # cs \<Rightarrow>
          if c = CHR 0x22 then Some ([], cs)
          else if c = CHR 0x5C
          then (case unescape cs of
                  None \<Rightarrow> None
                | Some (out, rest) \<Rightarrow> map_option (apfst ((@) out)) (pstr rest))
          else if code c < 32 then None
          else if code c < 128 then map_option (apfst ((#) c)) (pstr cs)
          else if rune_len s = 0 then map_option (apfst ((@) replacement)) (pstr cs)
          else map_option (apfst ((@) (take (rune_len s) s))) (pstr (drop (rune_len s) s)))"
  by pat_completeness auto
termination
  by (relation "measure length") (auto dest!: unescape_length)

declare pstr.simps [simp del]

subsection \<open>A written string is read back\<close>

text \<open>What is read for a string that was written: every byte that begins no character becomes U+FFFD.\<close>

function to_valid :: "string \<Rightarrow> string" where
  "to_valid s =
     (case s of
        [] \<Rightarrow> []
      | c # cs \<Rightarrow>
          if rune_len s = 0 then replacement @ to_valid cs
          else take (rune_len s) s @ to_valid (drop (rune_len s) s))"
  by pat_completeness auto
termination
  by (relation "measure length") auto

declare to_valid.simps [simp del]

lemma to_valid_Nil [simp]: "to_valid [] = []"
  by (subst to_valid.simps) simp

lemma to_valid_empty [simp]: "to_valid s = [] \<longleftrightarrow> s = []"
  by (cases s; subst to_valid.simps) (auto simp: replacement_def)

lemma to_valid_same: "valid_utf8 s \<Longrightarrow> to_valid s = s"
proof (induction s rule: valid_utf8.induct)
  case (1 s)
  show ?case
  proof (cases "s = []")
    case False
    then obtain c cs where s: "s = c # cs" by (cases s) auto
    have pos: "rune_len s \<noteq> 0" and "valid_utf8 (drop (rune_len s) s)"
      using 1(2) False valid_utf8.simps [of s] by (auto split: if_splits)
    then have "to_valid (drop (rune_len s) s) = drop (rune_len s) s" using 1(1) False by simp
    then have "take (rune_len s) s @ to_valid (drop (rune_len s) s) = s" by simp
    with pos show ?thesis unfolding s by (subst to_valid.simps) simp
  qed simp
qed

lemma unhex_any_hex_digit: "d < 16 \<Longrightarrow> unhex_any (hex_digit d) = Some d"
proof -
  assume d: "d < 16"
  then have "code (hex_digit d) = (if d < 10 then 48 + d else 87 + d)"
    by (simp add: hex_digit_def of_char_digit)
  with d unhex_hex_digit [OF d] show ?thesis by (simp add: unhex_any_def)
qed

lemma unhex4_u_escape:
  assumes "n < 65536"
  shows "unhex4 [hex_digit (n div 4096 mod 16), hex_digit (n div 256 mod 16), hex_digit (n div 16 mod 16),
    hex_digit (n mod 16)] = Some n"
proof -
  have "n div 4096 mod 16 = n div 16 div 16 div 16" using assms by (simp add: less_mult_imp_div_less div_mult2_eq [symmetric])
  moreover have "n div 256 mod 16 = n div 16 div 16 mod 16" by (simp add: div_mult2_eq [symmetric])
  ultimately have "join_nibbles (n div 4096 mod 16) (n div 256 mod 16) (n div 16 mod 16) (n mod 16) = n"
    unfolding join_nibbles_def by (simp only: div_mult_mod_eq)
  then show ?thesis by (simp add: unhex4_def unhex_any_hex_digit)
qed

lemma pstr_u_escape:
  assumes "n < 0xD800"
  shows "pstr (u_escape n @ t) = map_option (apfst ((@) (utf8_encode n))) (pstr t)"
proof -
  have "unescape (tl (u_escape n) @ t) = Some (utf8_encode n, t)"
    using unhex4_u_escape [of n] assms by (simp add: unescape_def u_escape_def)
  then show ?thesis by (subst pstr.simps) (simp add: u_escape_def)
qed

lemma append_single: "(@) [c] = (#) c"
  by (rule ext) simp

lemma pstr_esc_ascii:
  assumes "code c < 128"
  shows "pstr (esc_ascii c @ t) = map_option (apfst ((#) c)) (pstr t)"
proof -
  define plain where "plain \<longleftrightarrow> \<not> c \<in> {CHR 0x22, CHR 0x5C, CHR 0x08, CHR 0x0C, CHR 0x0A, CHR 0x0D, CHR 0x09}"
  define special where "special \<longleftrightarrow> code c < 32 \<or> c = CHR ''<'' \<or> c = CHR ''>'' \<or> c = CHR ''&''"
  consider "\<not> plain" | "plain" "special" | "plain" "\<not> special" by blast
  then show ?thesis
  proof cases
    case 1
    then have "c \<in> {CHR 0x22, CHR 0x5C, CHR 0x08, CHR 0x0C, CHR 0x0A, CHR 0x0D, CHR 0x09}" by (simp add: plain_def)
    then obtain e where "esc_ascii c = [CHR 0x5C, e]" "unescape (e # t) = Some ([c], t)"
      by (auto simp: esc_ascii_def unescape_def)
    then show ?thesis by (subst pstr.simps) (simp add: append_single)
  next
    case 2
    then have "esc_ascii c = u_escape (code c)" by (simp add: esc_ascii_def plain_def special_def)
    with assms pstr_u_escape [of "code c" t] show ?thesis by (simp add: utf8_encode_def append_single)
  next
    case 3
    then have "esc_ascii c = [c]" by (simp add: esc_ascii_def plain_def special_def)
    with 3 assms show ?thesis by (subst pstr.simps) (simp add: plain_def special_def)
  qed
qed

lemma pstr_rune:
  assumes "0 < rune_len s" and "\<not> code (hd s) < 128"
  shows "pstr (take (rune_len s) s @ t) = map_option (apfst ((@) (take (rune_len s) s))) (pstr t)"
proof -
  let ?u = "take (rune_len s) s"
  obtain c cs where s: "s = c # cs" using assms(1) by (cases s) (auto simp: rune_len_def)
  obtain u' where u': "?u = c # u'" using s assms(1) by (cases "rune_len s") auto
  have len: "length (c # u') = rune_len s" using rune_len_le [of s] unfolding u' [symmetric] by simp
  have r: "rune_len (c # u' @ t) = rune_len s"
    using rune_len_append [of ?u t] rune_len_take [OF assms(1)] assms(1) u' by simp
  have "take (rune_len s) (c # u' @ t) = c # u'" "drop (rune_len s) (c # u' @ t) = t"
    unfolding len [symmetric] by simp_all
  moreover have "c \<noteq> CHR 0x22" "c \<noteq> CHR 0x5C" "\<not> code c < 32" "\<not> code c < 128" using assms(2) s by auto
  ultimately have "pstr (c # u' @ t) = map_option (apfst ((@) (c # u'))) (pstr t)"
    by (subst pstr.simps) (simp add: r assms(1) [THEN gr_implies_not0] del: take_Suc_Cons drop_Suc_Cons)
  then show ?thesis unfolding u' by simp
qed

lemma line_seps:
  "utf8_encode 0x2028 = [CHR 0xE2, CHR 0x80, CHR 0xA8]"
  "utf8_encode 0x2029 = [CHR 0xE2, CHR 0x80, CHR 0xA9]"
  by (simp_all add: utf8_encode_def char_of_def bit_Suc_0_iff)

lemma line_seps_distinct: "([CHR 0xE2, CHR 0x80, CHR 0xA9] = [CHR 0xE2, CHR 0x80, CHR 0xA8]) = False"
  by simp

lemma replacement_utf8: "utf8_encode 0xFFFD = replacement"
  by (simp add: utf8_encode_def replacement_def char_of_def bit_Suc_0_iff)

lemma pstr_u_escape_replacement: "pstr (u_escape 0xFFFD @ t) = map_option (apfst ((@) replacement)) (pstr t)"
proof -
  have "unescape (tl (u_escape 0xFFFD) @ t) = Some (replacement, t)"
    using unhex4_u_escape [of "0xFFFD"] by (simp add: unescape_def u_escape_def replacement_utf8)
  then show ?thesis by (subst pstr.simps) (simp add: u_escape_def)
qed

lemma pstr_esc_any: "pstr (esc s @ CHR 0x22 # rest) = Some (to_valid s, rest)"
proof (induction s rule: esc.induct)
  case (1 s)
  show ?case
  proof (cases s)
    case Nil
    then show ?thesis by (subst esc.simps, subst pstr.simps) simp
  next
    case (Cons c cs)
    show ?thesis
    proof (cases "code c < 128")
      case True
      then have l: "rune_len s = 1" using Cons by (simp add: rune_len_def)
      then have "to_valid s = c # to_valid cs" using Cons by (subst to_valid.simps) simp
      moreover have "pstr (esc cs @ CHR 0x22 # rest) = Some (to_valid cs, rest)" by (rule 1(1) [OF Cons True])
      moreover have "esc s = esc_ascii c @ esc cs" using Cons True by (subst esc.simps) simp
      ultimately show ?thesis using pstr_esc_ascii [OF True] Cons by simp
    next
      case False
      note not_ascii = this
      show ?thesis
      proof (cases "rune_len s = 0")
        case True
        have "pstr (esc cs @ CHR 0x22 # rest) = Some (to_valid cs, rest)" by (rule 1(2) [OF Cons False True])
        moreover have "esc s = u_escape 0xFFFD @ esc cs" "to_valid s = replacement @ to_valid cs"
          using True False Cons esc.simps [of s] to_valid.simps [of s] by simp_all
        ultimately show ?thesis by (simp add: pstr_u_escape_replacement)
      next
        case pos: False
      let ?u = "take (rune_len s) s"
      have IH: "pstr (esc (drop (rune_len s) s) @ CHR 0x22 # rest) = Some (to_valid (drop (rune_len s) s), rest)"
        using 1(3) [OF Cons not_ascii pos] by simp
      have whole: "to_valid s = ?u @ to_valid (drop (rune_len s) s)" using Cons pos by (subst to_valid.simps) simp
      have hd: "\<not> code (hd s) < 128" using not_ascii Cons by simp
      define w where "w = (if ?u = [CHR 0xE2, CHR 0x80, CHR 0xA8] then u_escape 0x2028
        else if ?u = [CHR 0xE2, CHR 0x80, CHR 0xA9] then u_escape 0x2029 else ?u)"
      have e: "esc s = w @ esc (drop (rune_len s) s)"
        unfolding w_def using Cons not_ascii pos esc.simps [of s] by simp
      have "pstr (w @ t) = map_option (apfst ((@) ?u)) (pstr t)" for t
      proof -
        consider "?u = utf8_encode 0x2028" "w = u_escape 0x2028" | "?u = utf8_encode 0x2029" "w = u_escape 0x2029"
          | "w = ?u"
        proof (cases "?u = utf8_encode 0x2028 \<or> ?u = utf8_encode 0x2029")
          case True
          then show ?thesis using that(1,2) w_def line_seps_distinct by (auto simp only: line_seps if_True if_False simp_thms)
        next
          case False
          then have "w = ?u" unfolding w_def line_seps by simp
          then show ?thesis by (rule that(3))
        qed
        then show ?thesis
        proof cases
          case 1
          show ?thesis unfolding 1 by (rule pstr_u_escape) simp
        next
          case 2
          show ?thesis unfolding 2 by (rule pstr_u_escape) simp
        next
          case 3
          show ?thesis unfolding 3 by (rule pstr_rune [OF _ hd]) (use pos in simp)
        qed
      qed
      then show ?thesis by (simp add: e IH whole)
      qed
    qed
  qed
qed

theorem pstr_esc: "valid_utf8 s \<Longrightarrow> pstr (esc s @ CHR 0x22 # rest) = Some (s, rest)"
  by (simp add: pstr_esc_any to_valid_same)

subsection \<open>Writing values\<close>

definition quote :: "string \<Rightarrow> string" where
  "quote s = CHR 0x22 # esc s @ [CHR 0x22]"

fun render :: "jv \<Rightarrow> string"
  and render_elems :: "jv list \<Rightarrow> string"
  and render_members :: "(string \<times> jv) list \<Rightarrow> string" where
  "render JNull = ''null''"
| "render (JBool b) = (if b then ''true'' else ''false'')"
| "render (JNum l) = l"
| "render (JStr s) = quote s"
| "render (JArr vs) = ''['' @ render_elems vs @ '']''"
| "render (JObj ms) = ''{'' @ render_members ms @ ''}''"
| "render_elems [] = []"
| "render_elems [v] = render v"
| "render_elems (v # w # vs) = render v @ '','' @ render_elems (w # vs)"
| "render_members [] = []"
| "render_members [(k, v)] = quote k @ '':'' @ render v"
| "render_members ((k, v) # m # ms) = quote k @ '':'' @ render v @ '','' @ render_members (m # ms)"

subsection \<open>Reading values\<close>

definition is_space :: "char \<Rightarrow> bool" where
  "is_space c \<longleftrightarrow> c = CHR '' '' \<or> c = CHR 0x09 \<or> c = CHR 0x0A \<or> c = CHR 0x0D"

abbreviation skip :: "string \<Rightarrow> string" where
  "skip \<equiv> dropWhile is_space"

definition is_digit :: "char \<Rightarrow> bool" where
  "is_digit c \<longleftrightarrow> 48 \<le> code c \<and> code c \<le> 57"

definition num_char :: "char \<Rightarrow> bool" where
  "num_char c \<longleftrightarrow> is_digit c \<or> c = CHR ''-'' \<or> c = CHR ''+'' \<or> c = CHR ''.'' \<or> c = CHR ''e'' \<or> c = CHR ''E''"

text \<open>The grammar of numbers: sign, integer part, fraction, exponent.\<close>

definition exponent_ok :: "string \<Rightarrow> bool" where
  "exponent_ok s =
     (case s of
        [] \<Rightarrow> True
      | c # r \<Rightarrow> (c = CHR ''e'' \<or> c = CHR ''E'')
          \<and> (let ds = (if r \<noteq> [] \<and> (hd r = CHR ''+'' \<or> hd r = CHR ''-'') then tl r else r)
             in ds \<noteq> [] \<and> list_all is_digit ds))"

definition fraction_ok :: "string \<Rightarrow> bool" where
  "fraction_ok s =
     (if s \<noteq> [] \<and> hd s = CHR ''.''
      then takeWhile is_digit (tl s) \<noteq> [] \<and> exponent_ok (dropWhile is_digit (tl s))
      else exponent_ok s)"

definition number_ok :: "string \<Rightarrow> bool" where
  "number_ok s =
     (let r = (if s \<noteq> [] \<and> hd s = CHR ''-'' then tl s else s)
      in r \<noteq> [] \<and>
        (if hd r = CHR ''0'' then fraction_ok (tl r)
         else is_digit (hd r) \<and> fraction_ok (dropWhile is_digit r)))"

text \<open>
  The parser, with fuel: each call consumes a character or passes to a call that does, so twice the
  length of the text is enough (\<open>json_fuel\<close> below proves it for written values, \<open>parse_fuel\<close> in
  \<open>JsonReader\<close> for every text).
\<close>

fun pval :: "nat \<Rightarrow> string \<Rightarrow> (jv \<times> string) option"
  and pelems :: "nat \<Rightarrow> string \<Rightarrow> (jv list \<times> string) option"
  and pmembers :: "nat \<Rightarrow> string \<Rightarrow> ((string \<times> jv) list \<times> string) option" where
  "pval 0 s = None"
| "pval (Suc n) s =
     (case s of
        [] \<Rightarrow> None
      | c # r \<Rightarrow>
          if c = CHR ''{''
          then (if take 1 (skip r) = ''}'' then Some (JObj [], tl (skip r))
                else map_option (apfst JObj) (pmembers n (skip r)))
          else if c = CHR ''[''
          then (if take 1 (skip r) = '']'' then Some (JArr [], tl (skip r))
                else map_option (apfst JArr) (pelems n (skip r)))
          else if c = CHR 0x22 then map_option (apfst JStr) (pstr r)
          else if take 4 s = ''true'' then Some (JBool True, drop 4 s)
          else if take 5 s = ''false'' then Some (JBool False, drop 5 s)
          else if take 4 s = ''null'' then Some (JNull, drop 4 s)
          else if number_ok (takeWhile num_char s) then Some (JNum (takeWhile num_char s), dropWhile num_char s)
          else None)"
| "pelems 0 s = None"
| "pelems (Suc n) s =
     (case pval n s of
        None \<Rightarrow> None
      | Some (v, r) \<Rightarrow>
          if take 1 (skip r) = '','' then map_option (apfst ((#) v)) (pelems n (skip (tl (skip r))))
          else if take 1 (skip r) = '']'' then Some ([v], tl (skip r))
          else None)"
| "pmembers 0 s = None"
| "pmembers (Suc n) s =
     (if take 1 s \<noteq> [CHR 0x22] then None
      else case pstr (tl s) of
        None \<Rightarrow> None
      | Some (k, r) \<Rightarrow>
          if take 1 (skip r) \<noteq> '':'' then None
          else (case pval n (skip (tl (skip r))) of
             None \<Rightarrow> None
           | Some (v, r) \<Rightarrow>
               if take 1 (skip r) = '','' then map_option (apfst ((#) (k, v))) (pmembers n (skip (tl (skip r))))
               else if take 1 (skip r) = ''}'' then Some ([(k, v)], tl (skip r))
               else None))"

definition parse :: "string \<Rightarrow> jv option" where
  "parse s =
     (case pval (2 * length s + 2) (skip s) of
        None \<Rightarrow> None
      | Some (v, r) \<Rightarrow> if skip r = [] then Some v else None)"

subsection \<open>A written value is read back\<close>

text \<open>The values that \<open>Marshal\<close> writes: strings of valid UTF-8 and numbers of the grammar.\<close>

fun writable :: "jv \<Rightarrow> bool" where
  "writable JNull = True"
| "writable (JBool b) = True"
| "writable (JNum l) = (number_ok l \<and> list_all num_char l)"
| "writable (JStr s) = valid_utf8 s"
| "writable (JArr vs) = list_all writable vs"
| "writable (JObj ms) = list_all (\<lambda>(k, v). valid_utf8 k \<and> writable v) ms"

text \<open>What is read for a value that was written, for any strings in it, when its numbers are of the grammar.\<close>

fun numbers_ok :: "jv \<Rightarrow> bool" where
  "numbers_ok (JNum l) = (number_ok l \<and> list_all num_char l)"
| "numbers_ok (JArr vs) = list_all numbers_ok vs"
| "numbers_ok (JObj ms) = list_all (\<lambda>(k, v). numbers_ok v) ms"
| "numbers_ok v = True"

fun as_read :: "jv \<Rightarrow> jv" where
  "as_read (JStr s) = JStr (to_valid s)"
| "as_read (JArr vs) = JArr (map as_read vs)"
| "as_read (JObj ms) = JObj (map (\<lambda>(k, v). (to_valid k, as_read v)) ms)"
| "as_read v = v"

lemma writable_numbers: "writable v \<Longrightarrow> numbers_ok v"
  by (induction v rule: writable.induct) (auto simp: list_all_iff)

lemma as_read_same: "writable v \<Longrightarrow> as_read v = v"
  by (induction v rule: writable.induct) (auto simp: list_all_iff to_valid_same intro!: map_idI)

fun need :: "jv \<Rightarrow> nat"
  and needs :: "jv list \<Rightarrow> nat"
  and needm :: "(string \<times> jv) list \<Rightarrow> nat" where
  "need (JArr vs) = Suc (needs vs)"
| "need (JObj ms) = Suc (needm ms)"
| "need v = 1"
| "needs [] = 0"
| "needs (v # vs) = Suc (max (need v) (needs vs))"
| "needm [] = 0"
| "needm ((k, v) # ms) = Suc (max (need v) (needm ms))"

text \<open>What may follow a value: nothing, or a character that no number contains.\<close>

definition ends :: "string \<Rightarrow> bool" where
  "ends s \<longleftrightarrow> s = [] \<or> \<not> num_char (hd s)"

lemma number_first: "number_ok l \<Longrightarrow> l \<noteq> [] \<and> (hd l = CHR ''-'' \<or> is_digit (hd l))"
  by (cases l) (auto simp: number_ok_def Let_def is_digit_def split: if_splits)

definition first_ok :: "char \<Rightarrow> bool" where
  "first_ok c \<longleftrightarrow> \<not> is_space c \<and> c \<noteq> CHR '']'' \<and> c \<noteq> CHR ''}''"

lemma first_ok_number: "c = CHR ''-'' \<or> is_digit c \<Longrightarrow> first_ok c"
  by (auto simp: first_ok_def is_space_def is_digit_def)

lemma render_first: "numbers_ok v \<Longrightarrow> \<exists>c r. render v = c # r \<and> first_ok c"
proof (cases v)
  case (JNum l)
  moreover assume "numbers_ok v"
  ultimately have "l \<noteq> []" "first_ok (hd l)" using number_first [of l] first_ok_number by auto
  then show ?thesis using JNum by (cases l) auto
qed (auto simp: quote_def first_ok_def is_space_def)

lemma skip_first: "first_ok c \<Longrightarrow> skip (c # r) = c # r"
  by (simp add: first_ok_def)

lemma pval_number:
  assumes "number_ok l" and "list_all num_char l" and "ends rest"
  shows "pval (Suc n) (l @ rest) = Some (JNum l, rest)"
proof -
  obtain c r where l: "l = c # r" and c: "c = CHR ''-'' \<or> is_digit c"
    using number_first [OF assms(1)] by (cases l) auto
  have "c \<notin> {CHR ''{'', CHR ''['', CHR 0x22, CHR ''t'', CHR ''f'', CHR ''n''}"
    using c by (auto simp: is_digit_def)
  moreover have "takeWhile num_char (l @ rest) = l" "dropWhile num_char (l @ rest) = rest"
    using assms(2,3) by (cases rest; auto simp: ends_def list_all_iff takeWhile_append dropWhile_append)+
  ultimately show ?thesis using assms(1) l by auto
qed

lemma pval_string: "pval (Suc n) (quote s @ rest) = Some (JStr (to_valid s), rest)"
  using pstr_esc_any [of s rest] by (simp add: quote_def)

lemma skip_render: "numbers_ok v \<Longrightarrow> skip (render v @ r) = render v @ r"
  using render_first [of v] by (auto simp: first_ok_def)

lemma ends_punct [simp]: "ends (CHR '','' # r)" "ends (CHR '']'' # r)" "ends (CHR ''}'' # r)"
  by (simp_all add: ends_def num_char_def is_digit_def)

lemma elems_first: "vs \<noteq> [] \<Longrightarrow> list_all numbers_ok vs \<Longrightarrow> \<exists>c r. render_elems vs = c # r \<and> first_ok c"
  by (cases vs rule: render_elems.cases) (use render_first in fastforce)+

lemma members_first: "ms \<noteq> [] \<Longrightarrow> \<exists>r. render_members ms = CHR 0x22 # r"
  by (cases ms rule: render_members.cases) (simp_all add: quote_def)

lemma skip_members: "ms \<noteq> [] \<Longrightarrow> skip (render_members ms @ r) = render_members ms @ r"
  using members_first [of ms] by (auto simp: is_space_def)

lemma skip_elems: "vs \<noteq> [] \<Longrightarrow> list_all numbers_ok vs \<Longrightarrow> skip (render_elems vs @ r) = render_elems vs @ r"
  using elems_first [of vs] by (auto simp: first_ok_def)

lemma parse_written:
  "need v \<le> n \<Longrightarrow> numbers_ok v \<Longrightarrow> ends rest \<Longrightarrow> pval n (render v @ rest) = Some (as_read v, rest)"
  "needs vs \<le> n \<Longrightarrow> vs \<noteq> [] \<Longrightarrow> list_all numbers_ok vs \<Longrightarrow>
     pelems n (render_elems vs @ CHR '']'' # rest) = Some (map as_read vs, rest)"
  "needm ms \<le> n \<Longrightarrow> ms \<noteq> [] \<Longrightarrow> list_all (\<lambda>(k, v). numbers_ok v) ms \<Longrightarrow>
     pmembers n (render_members ms @ CHR ''}'' # rest) = Some (map (\<lambda>(k, v). (to_valid k, as_read v)) ms, rest)"
proof (induction v and vs and ms arbitrary: n rest and n rest and n rest
    rule: render_render_elems_render_members.induct)
  case 1
  then show ?case by (cases n) simp_all
next
  case (2 b)
  then show ?case by (cases n) simp_all
next
  case (3 l)
  then show ?case using pval_number [of l rest] by (cases n) simp_all
next
  case (4 s)
  then show ?case using pval_string [of _ s] by (cases n) simp_all
next
  case (5 vs)
  then obtain m where n: "n = Suc m" "needs vs \<le> m" by (cases n) auto
  show ?case
  proof (cases "vs = []")
    case True
    then show ?thesis by (simp add: n is_space_def)
  next
    case False
    have "pelems m (render_elems vs @ CHR '']'' # rest) = Some (map as_read vs, rest)"
      using 5 n False by simp
    moreover obtain c r where "render_elems vs = c # r" "first_ok c"
      using elems_first [OF False] 5 by auto
    ultimately show ?thesis using False n skip_elems [of vs "CHR '']'' # rest"] 5
      by (simp add: first_ok_def)
  qed
next
  case (6 ms)
  then obtain m where n: "n = Suc m" "needm ms \<le> m" by (cases n) auto
  show ?case
  proof (cases "ms = []")
    case True
    then show ?thesis by (simp add: n is_space_def)
  next
    case False
    have "pmembers m (render_members ms @ CHR ''}'' # rest) = Some (map (\<lambda>(k, v). (to_valid k, as_read v)) ms, rest)"
      using 6 n False by simp
    moreover obtain r where "render_members ms = CHR 0x22 # r"
      using members_first [OF False] by auto
    ultimately show ?thesis using False n by (simp add: is_space_def)
  qed
next
  case 7
  then show ?case by simp
next
  case (8 v)
  then obtain m where n: "n = Suc m" "need v \<le> m" by (cases n) auto
  have "pval m (render v @ CHR '']'' # rest) = Some (as_read v, CHR '']'' # rest)"
    using 8 n by simp
  then show ?case by (simp add: n is_space_def)
next
  case (9 v w vs)
  then obtain m where n: "n = Suc m" "need v \<le> m" "needs (w # vs) \<le> m" by (cases n) auto
  have "pval m (render v @ CHR '','' # render_elems (w # vs) @ CHR '']'' # rest)
      = Some (as_read v, CHR '','' # render_elems (w # vs) @ CHR '']'' # rest)"
    using 9 n by simp
  moreover have "pelems m (render_elems (w # vs) @ CHR '']'' # rest) = Some (map as_read (w # vs), rest)"
    using 9 n by simp
  ultimately show ?case using skip_elems [of "w # vs" "CHR '']'' # rest"] 9(5)
    by (simp add: n is_space_def)
next
  case 10
  then show ?case by simp
next
  case (11 k v)
  then obtain m where n: "n = Suc m" "need v \<le> m" by (cases n) auto
  have "pval m (render v @ CHR ''}'' # rest) = Some (as_read v, CHR ''}'' # rest)"
    using 11 n by simp
  then show ?case using pstr_esc_any [of k "CHR '':'' # render v @ CHR ''}'' # rest"] 11 skip_render [of v]
    by (simp add: n is_space_def quote_def)
next
  case (12 k v m' ms)
  then obtain m where n: "n = Suc m" "need v \<le> m" "needm (m' # ms) \<le> m" by (cases n) auto
  have "pval m (render v @ CHR '','' # render_members (m' # ms) @ CHR ''}'' # rest)
      = Some (as_read v, CHR '','' # render_members (m' # ms) @ CHR ''}'' # rest)"
    using 12 n by simp
  moreover have "pmembers m (render_members (m' # ms) @ CHR ''}'' # rest) = Some (map (\<lambda>(k, v). (to_valid k, as_read v)) (m' # ms), rest)"
    using 12 n by simp
  ultimately show ?case
    using skip_members [of "m' # ms" "CHR ''}'' # rest"] skip_render [of v] 12(5)
      pstr_esc_any [of k "CHR '':'' # render v @ CHR '','' # render_members (m' # ms) @ CHR ''}'' # rest"]
    by (simp add: n is_space_def quote_def)
qed

lemma json_fuel:
  "numbers_ok v \<Longrightarrow> need v \<le> length (render v)"
  "list_all numbers_ok vs \<Longrightarrow> needs vs \<le> Suc (length (render_elems vs))"
  "list_all (\<lambda>(k, v). numbers_ok v) ms \<Longrightarrow> needm ms \<le> length (render_members ms)"
  by (induction v and vs and ms rule: render_render_elems_render_members.induct)
    (auto simp: quote_def Suc_le_eq dest: number_first)

lemma parse_render_any: "numbers_ok v \<Longrightarrow> parse (render v) = Some (as_read v)"
  using parse_written(1) [of v "2 * length (render v) + 2" "[]"] json_fuel(1) [of v] skip_render [of v "[]"]
  by (simp add: parse_def ends_def)

theorem parse_render: "writable v \<Longrightarrow> parse (render v) = Some v"
  by (simp add: parse_render_any writable_numbers as_read_same)

subsection \<open>Reading structs\<close>

text \<open>
  A struct is read member by member into its fields: a member goes to the field with its name, or
  else to the first field whose name it matches when case is ignored (which, by Unicode folding,
  identifies U+017F with s and U+212A with k); other members are ignored, \<open>null\<close> leaves a field as
  it is, and a member of the wrong type makes \<open>Unmarshal\<close> return an error.
\<close>

type_synonym 'r field_setter = "jv \<Rightarrow> 'r \<Rightarrow> 'r option"

function fold_name :: "string \<Rightarrow> string" where
  "fold_name s =
     (case s of
        [] \<Rightarrow> []
      | c # cs \<Rightarrow>
          if take 2 s = [CHR 0xC5, CHR 0xBF] then CHR ''S'' # fold_name (drop 2 s)
          else if take 3 s = [CHR 0xE2, CHR 0x84, CHR 0xAA] then CHR ''K'' # fold_name (drop 3 s)
          else (if 97 \<le> code c \<and> code c \<le> 122 then char_of (code c - 32) else c) # fold_name cs)"
  by pat_completeness auto
termination
  by (relation "measure length") auto

declare fold_name.simps [simp del]

definition find_field :: "(string \<times> 'r field_setter) list \<Rightarrow> string \<Rightarrow> 'r field_setter option" where
  "find_field fields k =
     (case map_of fields k of
        Some f \<Rightarrow> Some f
      | None \<Rightarrow> map_option snd (find (\<lambda>(n, _). fold_name n = fold_name k) fields))"

primrec set_members :: "(string \<times> 'r field_setter) list \<Rightarrow> (string \<times> jv) list \<Rightarrow> 'r \<Rightarrow> 'r option" where
  "set_members fields [] r = Some r"
| "set_members fields (m # ms) r =
     (case find_field fields (fst m) of
        None \<Rightarrow> set_members fields ms r
      | Some f \<Rightarrow> (case f (snd m) r of None \<Rightarrow> None | Some r' \<Rightarrow> set_members fields ms r'))"

definition decode_struct :: "(string \<times> 'r field_setter) list \<Rightarrow> jv \<Rightarrow> 'r \<Rightarrow> 'r option" where
  "decode_struct fields v r =
     (case v of JNull \<Rightarrow> Some r | JObj ms \<Rightarrow> set_members fields ms r | _ \<Rightarrow> None)"

definition str_field :: "((string \<Rightarrow> string) \<Rightarrow> 'r \<Rightarrow> 'r) \<Rightarrow> 'r field_setter" where
  "str_field upd v r = (case v of JStr s \<Rightarrow> Some (upd (\<lambda>_. s) r) | JNull \<Rightarrow> Some r | _ \<Rightarrow> None)"

definition bool_field :: "((bool \<Rightarrow> bool) \<Rightarrow> 'r \<Rightarrow> 'r) \<Rightarrow> 'r field_setter" where
  "bool_field upd v r = (case v of JBool b \<Rightarrow> Some (upd (\<lambda>_. b) r) | JNull \<Rightarrow> Some r | _ \<Rightarrow> None)"

definition int_field :: "int \<Rightarrow> int \<Rightarrow> ((int \<Rightarrow> int) \<Rightarrow> 'r \<Rightarrow> 'r) \<Rightarrow> 'r field_setter" where
  "int_field lo hi upd v r =
     (case v of
        JNum l \<Rightarrow> (case undec_int l of
                    Some i \<Rightarrow> if lo \<le> i \<and> i \<le> hi then Some (upd (\<lambda>_. i) r) else None
                  | None \<Rightarrow> None)
      | JNull \<Rightarrow> Some r
      | _ \<Rightarrow> None)"

definition time_field :: "((gotime \<Rightarrow> gotime) \<Rightarrow> 'r \<Rightarrow> 'r) \<Rightarrow> 'r field_setter" where
  "time_field upd v r =
     (case v of
        JStr s \<Rightarrow> map_option (\<lambda>t. upd (\<lambda>_. t) r) (unstamp s)
      | JNull \<Rightarrow> Some r
      | _ \<Rightarrow> None)"

text \<open>Go's \<open>int\<close>, of 64 bits on the platforms the program is built for.\<close>

definition int64 :: "int \<Rightarrow> bool" where
  "int64 i \<longleftrightarrow> - 9223372036854775808 \<le> i \<and> i \<le> 9223372036854775807"

abbreviation int64_field :: "((int \<Rightarrow> int) \<Rightarrow> 'r \<Rightarrow> 'r) \<Rightarrow> 'r field_setter" where
  "int64_field \<equiv> int_field (- 9223372036854775808) 9223372036854775807"

lemmas field_simps' = str_field_def bool_field_def int_field_def time_field_def

lemma find_field_exact: "map_of fields k = Some f \<Longrightarrow> find_field fields k = Some f"
  by (simp add: find_field_def)

text \<open>Elements of a list of strings, where \<open>null\<close> gives the empty string.\<close>

fun str_elem :: "jv \<Rightarrow> string option" where
  "str_elem (JStr s) = Some s"
| "str_elem JNull = Some []"
| "str_elem _ = None"

fun str_elems :: "jv list \<Rightarrow> string list option" where
  "str_elems [] = Some []"
| "str_elems (v # vs) =
     (case (str_elem v, str_elems vs) of (Some s, Some ss) \<Rightarrow> Some (s # ss) | _ \<Rightarrow> None)"

lemma str_elems_map: "str_elems (map JStr ss) = Some ss"
  by (induction ss) simp_all

text \<open>
  A slice of strings is None when it is nil, which is written as \<open>null\<close>. A map from strings to
  strings is None when it is nil, and otherwise the list of its entries in the order of the keys,
  which is the order in which \<open>Marshal\<close> writes them.
\<close>

definition strs_field :: "((string list option \<Rightarrow> string list option) \<Rightarrow> 'r \<Rightarrow> 'r) \<Rightarrow> 'r field_setter" where
  "strs_field upd v r =
     (case v of
        JArr vs \<Rightarrow> map_option (\<lambda>ss. upd (\<lambda>_. Some ss) r) (str_elems vs)
      | JNull \<Rightarrow> Some (upd (\<lambda>_. None) r)
      | _ \<Rightarrow> None)"

definition strs_json :: "string list option \<Rightarrow> jv" where
  "strs_json x = (case x of None \<Rightarrow> JNull | Some ss \<Rightarrow> JArr (map JStr ss))"

type_synonym strmap = "(string \<times> string) list"

fun map_put :: "string \<Rightarrow> string \<Rightarrow> strmap \<Rightarrow> strmap" where
  "map_put k v [] = [(k, v)]"
| "map_put k v ((k', v') # m) =
     (if k < k' then (k, v) # (k', v') # m
      else if k = k' then (k, v) # m
      else (k', v') # map_put k v m)"

fun put_members :: "(string \<times> jv) list \<Rightarrow> strmap \<Rightarrow> strmap option" where
  "put_members [] m = Some m"
| "put_members ((k, v) # ms) m =
     (case str_elem v of None \<Rightarrow> None | Some s \<Rightarrow> put_members ms (map_put k s m))"

definition strmap_field :: "(strmap option \<Rightarrow> 'r \<Rightarrow> 'r) \<Rightarrow> ('r \<Rightarrow> strmap option) \<Rightarrow> 'r field_setter" where
  "strmap_field upd get v r =
     (case v of
        JObj ms \<Rightarrow> map_option (\<lambda>m. upd (Some m) r) (put_members ms (case get r of None \<Rightarrow> [] | Some m \<Rightarrow> m))
      | JNull \<Rightarrow> Some (upd None r)
      | _ \<Rightarrow> None)"

definition strmap_json :: "strmap option \<Rightarrow> jv" where
  "strmap_json x = (case x of None \<Rightarrow> JNull | Some m \<Rightarrow> JObj (map (apsnd JStr) m))"

definition strmap_ok :: "strmap \<Rightarrow> bool" where
  "strmap_ok m \<longleftrightarrow> sorted_wrt (<) (map fst m)"

lemma map_put_last: "\<forall>k'\<in>fst ` set m. k' < k \<Longrightarrow> map_put k v m = m @ [(k, v)]"
  by (induction m) (auto simp: less_not_sym dest: less_imp_neq)

lemma put_members_append:
  "sorted_wrt (<) (map fst (m @ ms)) \<Longrightarrow> put_members (map (apsnd JStr) ms) m = Some (m @ ms)"
proof (induction ms arbitrary: m)
  case (Cons p ms)
  obtain k v where p: "p = (k, v)" by (cases p)
  have "\<forall>k'\<in>fst ` set m. k' < k" using Cons.prems p by (auto simp: sorted_wrt_append)
  then have "map_put k v m = m @ [(k, v)]" by (rule map_put_last)
  then show ?case using Cons.IH [of "m @ [(k, v)]"] Cons.prems p by simp
qed simp

lemma put_members_sorted: "strmap_ok m \<Longrightarrow> put_members (map (apsnd JStr) m) [] = Some m"
  using put_members_append [of "[]" m] by (simp add: strmap_ok_def)

text \<open>What \<open>Unmarshal\<close> does with a text that is not JSON, or whose members do not fit.\<close>

definition json_error :: error where
  "json_error = Errorf ''invalid JSON''"

definition unmarshal :: "(string \<times> 'r field_setter) list \<Rightarrow> 'r \<Rightarrow> bytes \<Rightarrow> 'r result" where
  "unmarshal fields zero b =
     (case parse (string_of b) of
        None \<Rightarrow> Inl json_error
      | Some v \<Rightarrow> (case decode_struct fields v zero of None \<Rightarrow> Inl json_error | Some r \<Rightarrow> Inr r))"

lemma is_digit_digit: "d < 10 \<Longrightarrow> is_digit (digit d)"
  by (simp add: is_digit_def of_char_digit)

lemma dec_nat_is_digit: "list_all is_digit (dec_nat n)"
  using dec_nat_digits [of _ n] is_digit_digit by (fastforce simp: list_all_iff)

lemma dec_nat_first: "0 < n \<Longrightarrow> hd (dec_nat n) \<noteq> CHR ''0''"
proof (induction n rule: dec_nat.induct)
  case (1 n)
  show ?case
  proof (cases "n < 10")
    case True
    then show ?thesis using 1(2) by (subst dec_nat.simps) (simp add: digit_eq_zero)
  next
    case False
    then have "hd (dec_nat (n div 10)) \<noteq> CHR ''0''" by (intro 1) simp_all
    then show ?thesis using False by (subst dec_nat.simps) simp
  qed
qed

lemma number_digits:
  assumes "list_all is_digit s" and "s \<noteq> []" and "hd s = CHR ''0'' \<Longrightarrow> s = ''0''"
  shows "number_ok s" and "number_ok (CHR ''-'' # s)"
proof -
  have "hd s \<noteq> CHR ''-''" using assms(1,2) by (cases s) (auto simp: is_digit_def)
  moreover have "dropWhile is_digit s = []" using assms(1) by (simp add: list_all_iff)
  moreover have "fraction_ok []" by (simp add: fraction_ok_def exponent_ok_def)
  moreover have "is_digit (hd s)" using assms(1,2) by (cases s) simp_all
  ultimately show "number_ok s" "number_ok (CHR ''-'' # s)"
    using assms(2,3) by (auto simp: number_ok_def simp del: dropWhile_eq_Nil_conv)
qed

lemma dec_nat_zero: "hd (dec_nat n) = CHR ''0'' \<Longrightarrow> dec_nat n = ''0''"
proof -
  assume "hd (dec_nat n) = CHR ''0''"
  then have "n = 0" using dec_nat_first [of n] by auto
  then show ?thesis by (subst dec_nat.simps) (simp add: digit_eq_zero)
qed

lemma number_dec_int: "number_ok (dec_int i) \<and> list_all num_char (dec_int i)"
proof -
  have "list_all num_char (dec_nat n)" for n
    using dec_nat_is_digit [of n] by (auto simp: list_all_iff num_char_def)
  then show ?thesis
    using number_digits [OF dec_nat_is_digit dec_nat_nonempty dec_nat_zero]
    by (auto simp: dec_int_def num_char_def)
qed

text \<open>The members of a written struct that its fields read back one by one.\<close>

lemma unmarshal_render:
  assumes "writable v" and "decode_struct fields v zero = Some r"
  shows "unmarshal fields zero (bytes_of (render v)) = Inr r"
  using assms by (simp add: unmarshal_def parse_render)

lemma set_member:
  assumes "find_field fields k = Some f" and "f v r = Some r'"
  shows "set_members fields ((k, v) # ms) r = set_members fields ms r'"
  using assms by simp

end
