(* ===== verification/SecureCrypto.thy ===== *)
theory SecureCrypto
  imports GoTime
begin

unbundle bit_operations_syntax

section \<open>Cryptographic operations (internal/securecrypto/securecrypto.go)\<close>

text \<open>
  The package wraps primitives that are not part of the repository: Argon2id, HKDF and
  XChaCha20-Poly1305 of \<open>golang.org/x/crypto\<close>, and the hash SHA-256. They are the fields of the
  record \<open>prims\<close>, an argument of every definition that uses them. \<open>prims_ok\<close> states the documented
  behaviour that the code relies on: keys of 32 bytes are accepted, a sealed text opens under the
  same key, nonce and associated data, and derived keys and hashes have their length. Nothing else
  is assumed about the hash: what depends on it is stated as "equal, or a collision". HMAC is modelled
  on top of the hash.
\<close>

record prims =
  p_sha256 :: "bytes \<Rightarrow> bytes"
  p_argon2 :: "bytes \<Rightarrow> bytes \<Rightarrow> 32 word \<Rightarrow> 32 word \<Rightarrow> 8 word \<Rightarrow> nat \<Rightarrow> bytes"
  p_hkdf :: "bytes \<Rightarrow> bytes \<Rightarrow> bytes \<Rightarrow> nat \<Rightarrow> bytes result"
  p_newx :: "bytes \<Rightarrow> error option"
  p_seal :: "bytes \<Rightarrow> bytes \<Rightarrow> bytes \<Rightarrow> bytes \<Rightarrow> bytes"
  p_open :: "bytes \<Rightarrow> bytes \<Rightarrow> bytes \<Rightarrow> bytes \<Rightarrow> bytes option"

definition KeySize :: nat where "KeySize = 32"

definition SaltSize :: nat where "SaltSize = 16"

definition NonceSize :: nat where "NonceSize = 24"

definition prims_ok :: "prims \<Rightarrow> bool" where
  "prims_ok P \<longleftrightarrow>
     (\<forall>m. length (p_sha256 P m) = 32)
   \<and> (\<forall>key. length key = KeySize \<longrightarrow> p_newx P key = None)
   \<and> (\<forall>key nonce pt ad. length key = KeySize \<and> length nonce = NonceSize \<longrightarrow>
        p_open P key nonce (p_seal P key nonce pt ad) ad = Some pt)
   \<and> (\<forall>pw salt t m p n. length (p_argon2 P pw salt t m p n) = n)
   \<and> (\<forall>key salt info n. n \<le> 8160 \<longrightarrow> (\<exists>out. p_hkdf P key salt info n = Inr out \<and> length out = n))"

lemma prims_okD:
  assumes "prims_ok P"
  shows "length key = KeySize \<Longrightarrow> p_newx P key = None"
    and "length key = KeySize \<Longrightarrow> length nonce = NonceSize \<Longrightarrow> p_open P key nonce (p_seal P key nonce pt ad) ad = Some pt"
    and "length (p_argon2 P pw salt t m p n) = n"
    and "n \<le> 8160 \<Longrightarrow> \<exists>out. p_hkdf P k salt info n = Inr out \<and> length out = n"
    and "length (p_sha256 P msg) = 32"
  using assms by (simp_all add: prims_ok_def)

subsection \<open>Key derivation\<close>

record KDFParams =
  MemoryKiB :: "32 word"
  Iterations :: "32 word"
  Parallelism :: "8 word"

definition DefaultKDFParams :: KDFParams where
  "DefaultKDFParams = \<lparr>MemoryKiB = 64 * 1024, Iterations = 3, Parallelism = 1\<rparr>"

definition ValidateKDFParams :: "KDFParams \<Rightarrow> error option" where
  "ValidateKDFParams p =
     (if MemoryKiB p < 19 * 1024 then Some (Errorf ''argon2id memory must be at least 19 MiB'')
      else if Iterations p < 2 then Some (Errorf ''argon2id iterations must be at least 2'')
      else if Parallelism p = 0 then Some (Errorf ''argon2id parallelism must be positive'')
      else None)"

definition RandomBytes :: "nat \<Rightarrow> bytes \<Rightarrow> bytes result \<times> bytes" where
  "RandomBytes n tape =
     (case rand_read n tape of
        (Inl err, tape') \<Rightarrow> (Inl (Wrap ''generate random bytes: '' err), tape')
      | (Inr val, tape') \<Rightarrow> (Inr val, tape'))"

definition DeriveKEK :: "prims \<Rightarrow> bytes \<Rightarrow> bytes \<Rightarrow> KDFParams \<Rightarrow> bytes result" where
  "DeriveKEK P password salt params =
     (if length password = 0 then Inl (Errorf ''master password is empty'')
      else if length password > 4096 then Inl (Errorf ''master password exceeds 4096 bytes'')
      else if length salt < SaltSize then Inl (Errorf ''argon2id salt is too short'')
      else case ValidateKDFParams params of
             Some err \<Rightarrow> Inl err
           | None \<Rightarrow> Inr (p_argon2 P password salt (Iterations params) (MemoryKiB params)
                            (Parallelism params) KeySize))"

definition ExpandKey :: "prims \<Rightarrow> bytes \<Rightarrow> string \<Rightarrow> bytes result" where
  "ExpandKey P key purpose =
     (case p_hkdf P key [] (bytes_of (''vcsm:v2:'' @ purpose)) KeySize of
        Inl err \<Rightarrow> Inl (Wrap (''derive '' @ purpose @ '' key: '') err)
      | Inr out \<Rightarrow> Inr out)"

subsection \<open>Authenticated encryption\<close>

definition Seal :: "prims \<Rightarrow> bytes \<Rightarrow> bytes \<Rightarrow> bytes \<Rightarrow> bytes \<Rightarrow> (bytes \<times> bytes) result \<times> bytes" where
  "Seal P key plaintext associatedData tape =
     (case p_newx P key of
        Some err \<Rightarrow> (Inl (Wrap ''initialize encryption: '' err), tape)
      | None \<Rightarrow>
          (case RandomBytes NonceSize tape of
             (Inl err, tape') \<Rightarrow> (Inl err, tape')
           | (Inr nonce, tape') \<Rightarrow> (Inr (nonce, p_seal P key nonce plaintext associatedData), tape')))"

definition Open :: "prims \<Rightarrow> bytes \<Rightarrow> bytes \<Rightarrow> bytes \<Rightarrow> bytes \<Rightarrow> bytes result" where
  "Open P key nonce ciphertext associatedData =
     (case p_newx P key of
        Some err \<Rightarrow> Inl (Wrap ''initialize decryption: '' err)
      | None \<Rightarrow>
          if length nonce \<noteq> NonceSize then Inl (Errorf ''invalid nonce length'')
          else case p_open P key nonce ciphertext associatedData of
                 None \<Rightarrow> Inl (Errorf ''authentication failed'')
               | Some plaintext \<Rightarrow> Inr plaintext)"

subsection \<open>HMAC and lookup tokens\<close>

text \<open>\<open>hmac.New(sha256.New, key)\<close>, the message written, \<open>Sum(nil)\<close>; the block size is 64 bytes.\<close>

definition hmac :: "prims \<Rightarrow> bytes \<Rightarrow> bytes \<Rightarrow> bytes" where
  "hmac P key msg =
     (let key = (if length key > 64 then p_sha256 P key else key);
          block = key @ replicate (64 - length key) 0
      in p_sha256 P (map (\<lambda>b. b XOR 0x5c) block @ p_sha256 P (map (\<lambda>b. b XOR 0x36) block @ msg)))"

text \<open>What \<open>LookupToken\<close> writes into the MAC: each value after a zero byte.\<close>

primrec lookup_message :: "string list \<Rightarrow> bytes" where
  "lookup_message [] = []"
| "lookup_message (val # vals) = [0] @ bytes_of val @ lookup_message vals"

definition LookupToken :: "prims \<Rightarrow> bytes \<Rightarrow> string list \<Rightarrow> string" where
  "LookupToken P key vals = b64_encode (hmac P key (lookup_message vals))"

definition Zero :: "bytes \<Rightarrow> bytes" where
  "Zero val = map (\<lambda>_. 0) val"

subsection \<open>Facts on the operations\<close>

lemma Seal_Inr:
  "Seal P key pt ad tape = (Inr (nonce, ct), tape') \<longleftrightarrow>
     p_newx P key = None \<and> NonceSize \<le> length tape \<and> nonce = take NonceSize tape
     \<and> tape' = drop NonceSize tape \<and> ct = p_seal P key nonce pt ad"
  by (auto simp: Seal_def RandomBytes_def rand_read_def split: option.splits if_splits)

lemma Open_Seal:
  assumes "prims_ok P" and "length key = KeySize" and "Seal P key pt ad tape = (Inr (nonce, ct), tape')"
  shows "Open P key nonce ct ad = Inr pt"
  using assms by (auto simp: Open_def Seal_Inr prims_okD(2) NonceSize_def)

lemma ExpandKey_ok: "prims_ok P \<Longrightarrow> \<exists>out. ExpandKey P key purpose = Inr out \<and> length out = KeySize"
  using prims_okD(4) [of P KeySize key "[]" "bytes_of (''vcsm:v2:'' @ purpose)"]
  by (auto simp: ExpandKey_def KeySize_def)

lemma DeriveKEK_Inr:
  "DeriveKEK P pw salt params = Inr kek \<longleftrightarrow>
     0 < length pw \<and> length pw \<le> 4096 \<and> SaltSize \<le> length salt \<and> ValidateKDFParams params = None
     \<and> kek = p_argon2 P pw salt (Iterations params) (MemoryKiB params) (Parallelism params) KeySize"
  by (auto simp: DeriveKEK_def split: option.splits)

lemma LookupToken_eq_iff:
  "LookupToken P key xs = LookupToken P key ys \<longleftrightarrow>
     hmac P key (lookup_message xs) = hmac P key (lookup_message ys)"
  by (simp add: LookupToken_def b64.enc_inject)

lemma length_hmac: "prims_ok P \<Longrightarrow> length (hmac P key msg) = 32"
  by (simp add: hmac_def Let_def prims_okD(5))

text \<open>
  Names without a zero byte: the message then determines the names, even against an arbitrary list of
  the same length, because the separators of the first are its only zero bytes.
\<close>

definition nul_free :: "string \<Rightarrow> bool" where
  "nul_free s \<longleftrightarrow> CHR 0x00 \<notin> set s"

lemma byte_of_eq_0: "byte_of c = 0 \<longleftrightarrow> c = CHR 0x00"
proof
  assume "byte_of c = 0"
  then have "char_of_byte (byte_of c) = char_of_byte 0" by (rule arg_cong)
  moreover have "char_of_byte 0 = CHR 0x00" by code_simp
  ultimately show "c = CHR 0x00" by simp
qed (simp add: byte_of_def)

lemma count_zero_lookup_message:
  "length vals \<le> length (filter (\<lambda>b. b = 0) (lookup_message vals))"
  by (induction vals) auto

lemma filter_zero_bytes_of: "nul_free s \<Longrightarrow> filter (\<lambda>b. b = 0) (bytes_of s) = []"
  by (auto simp: filter_empty_conv bytes_of_def byte_of_eq_0 nul_free_def)

lemma count_zero_nul_free:
  "list_all nul_free vals \<Longrightarrow> length (filter (\<lambda>b. b = 0) (lookup_message vals)) = length vals"
  by (induction vals) (simp_all add: filter_zero_bytes_of)

lemma lookup_message_inject:
  assumes "length xs = length ys" and "list_all nul_free xs"
    and "lookup_message xs = lookup_message ys"
  shows "xs = ys"
proof -
  have "length (filter (\<lambda>b. b = 0) (lookup_message ys)) = length ys"
    using count_zero_nul_free [OF assms(2)] assms(1,3) by simp
  then have "list_all nul_free ys"
  proof (induction ys)
    case (Cons y ys)
    have "length (filter (\<lambda>b. b = 0) (bytes_of y)) + length (filter (\<lambda>b. b = 0) (lookup_message ys)) = length ys"
      using Cons.prems by simp
    then have "length (filter (\<lambda>b. b = 0) (bytes_of y)) = 0"
      "length (filter (\<lambda>b. b = 0) (lookup_message ys)) = length ys"
      using count_zero_lookup_message [of ys] by linarith+
    with Cons.IH show ?case
      by (auto simp: filter_empty_conv bytes_of_def byte_of_eq_0 nul_free_def)
  qed simp
  from assms(1) assms(2) this assms(3) show ?thesis
  proof (induction xs ys rule: list_induct2)
    case (Cons x xs y ys)
    have msg: "lookup_message vals = [] \<or> hd (lookup_message vals) = 0" for vals
      by (cases vals) simp_all
    have tw: "takeWhile (\<lambda>b. b \<noteq> 0) (bytes_of s @ lookup_message vals) = bytes_of s" if "nul_free s" for s vals
    proof -
      have "\<forall>b\<in>set (bytes_of s). b \<noteq> 0" using that by (auto simp: bytes_of_def byte_of_eq_0 nul_free_def)
      then show ?thesis using msg [of vals] by (cases "lookup_message vals") (auto simp: takeWhile_append)
    qed
    from Cons.prems have eq: "bytes_of x @ lookup_message xs = bytes_of y @ lookup_message ys" by simp
    then have "bytes_of x = bytes_of y" using tw Cons.prems by (metis list.pred_inject(2))
    with eq Cons show ?case by simp
  qed simp
qed

subsection \<open>A concrete instance of the primitives\<close>

text \<open>
  The instance on which the witnesses of the development evaluate. It satisfies \<open>prims_ok\<close> and is
  not meant to be secure: a checksum for the hash, and sealing that writes the key, the nonce and
  the associated data in front of the text.
\<close>

definition demo_prims :: prims where
  "demo_prims = \<lparr>
     p_sha256 = (\<lambda>m. [fold (\<lambda>b h. 31 * h + b) m 7, fold (\<lambda>b h. 17 * h + b) m 3, of_nat (length m)] @ replicate 29 0),
     p_argon2 = (\<lambda>pw salt t m p n. take n (pw @ salt @ replicate n 0)),
     p_hkdf = (\<lambda>key salt info n. Inr (take n (info @ key @ replicate n 0))),
     p_newx = (\<lambda>key. if length key = 32 then None else Some (Errorf ''chacha20poly1305: bad key length'')),
     p_seal = (\<lambda>key nonce pt ad. key @ nonce @ ad @ pt),
     p_open = (\<lambda>key nonce ct ad. if prefix (key @ nonce @ ad) ct
        then Some (drop (length (key @ nonce @ ad)) ct) else None)\<rparr>"

lemma demo_prims_ok: "prims_ok demo_prims"
  by (auto simp: prims_ok_def demo_prims_def KeySize_def min_def)

subsection \<open>Properties\<close>

text \<open>
  What \<open>Seal\<close> returns opens again, under the same key and associated data, to the same text;
  with a key of 32 bytes \<open>Seal\<close> fails only when the random source does.
\<close>

theorem Seal_Open_roundtrip:
  assumes "prims_ok P" and "length key = KeySize" and "NonceSize \<le> length tape"
  shows "\<exists>nonce ct. Seal P key pt ad tape = (Inr (nonce, ct), drop NonceSize tape)
    \<and> Open P key nonce ct ad = Inr pt"
proof -
  have s: "Seal P key pt ad tape = (Inr (take NonceSize tape, p_seal P key (take NonceSize tape) pt ad),
      drop NonceSize tape)"
    using assms by (simp add: Seal_Inr prims_okD(1))
  with Open_Seal [OF assms(1,2) s] show ?thesis by blast
qed

theorem Seal_Open_roundtrip_witness:
  "\<exists>nonce ct. Seal demo_prims (replicate 32 9) [1, 2] [3] (replicate 30 4) = (Inr (nonce, ct), replicate 6 4)
    \<and> Open demo_prims (replicate 32 9) nonce ct [3] = Inr [1, 2]"
  using Seal_Open_roundtrip [OF demo_prims_ok, of "replicate 32 9" "replicate 30 4" "[1, 2]" "[3]"]
  by (simp add: KeySize_def NonceSize_def)

text \<open>
  C32: \<open>DeriveKEK\<close> rejects exactly the empty and the over-long passwords, short salts and parameters
  below 19 MiB, two iterations or one lane; otherwise it returns a key of 32 bytes.
\<close>

theorem DeriveKEK_guards:
  assumes "prims_ok P"
  shows "(\<exists>kek. DeriveKEK P pw salt params = Inr kek \<and> length kek = KeySize) \<longleftrightarrow>
    1 \<le> length pw \<and> length pw \<le> 4096 \<and> 16 \<le> length salt \<and> 19456 \<le> MemoryKiB params
    \<and> 2 \<le> Iterations params \<and> Parallelism params \<noteq> 0"
  using prims_okD(3) [OF assms]
  by (auto simp: DeriveKEK_Inr ValidateKDFParams_def SaltSize_def not_less Suc_le_eq split: if_splits)

theorem DeriveKEK_guards_witness:
  "\<exists>kek. DeriveKEK demo_prims [1] (replicate 16 0) DefaultKDFParams = Inr kek \<and> length kek = KeySize"
  unfolding DeriveKEK_guards [OF demo_prims_ok] by (simp add: DefaultKDFParams_def)

text \<open>
  Different names give different MAC inputs, so two lookup tokens agree only by a collision of
  the MAC: names without a zero byte cannot be confused with any other list of names of the same
  length, whatever bytes that one contains, and base64 loses nothing of the MAC.
\<close>

theorem LookupToken_unambiguous:
  assumes "length xs = length ys" and "list_all nul_free xs" and "xs \<noteq> ys"
  shows "lookup_message xs \<noteq> lookup_message ys
    \<and> (LookupToken P key xs = LookupToken P key ys \<longleftrightarrow>
        hmac P key (lookup_message xs) = hmac P key (lookup_message ys))"
  using assms(3) lookup_message_inject [OF assms(1,2)] by (auto simp: LookupToken_eq_iff)

theorem LookupToken_unambiguous_witness:
  "lookup_message [''secret'', ''a'', ''b'', ''c''] \<noteq> lookup_message [''secret'', ''a'' @ [CHR 0x00] @ ''b'', ''c'', '''']"
  by (rule conjunct1 [OF LookupToken_unambiguous]) (simp_all add: nul_free_def)

end
