(* ===== verification/Model.thy ===== *)
theory Model
  imports Json SecureCrypto
begin

section \<open>The data of the vault (internal/model/model.go)\<close>

text \<open>
  The records that the vault encrypts and the broker returns, and their JSON texts. \<open>Marshal\<close> of
  such a record fails only for a year beyond 9999; the main lemmas are that a marshalled record is
  unmarshalled to itself (interpretations of \<open>encoding\<close>), for strings of valid UTF-8, calendar times
  and numbers of 64 bits.
\<close>

record Scope =
  sc_project :: string
  sc_environment :: string

definition Scope_Key :: "Scope \<Rightarrow> string" where
  "Scope_Key s = sc_project s @ [CHR 0x00] @ sc_environment s"

record SecretMetadata =
  sm_id :: string
  sm_project :: string
  sm_environment :: string
  sm_name :: string
  sm_profile :: string
  sm_strength_bits :: int
  sm_version :: int
  sm_state :: string
  sm_created_at :: gotime
  sm_updated_at :: gotime

text \<open>\<open>SecretStatus\<close> embeds the metadata.\<close>

record SecretStatus = SecretMetadata +
  ss_available :: bool

record Action =
  ac_id :: string
  ac_project :: string
  ac_environment :: string
  ac_name :: string
  ac_executable :: string
  ac_arguments :: "string list option"
  ac_directory :: string
  ac_secrets :: "strmap option"
  ac_output_policy :: string
  ac_created_at :: gotime
  ac_updated_at :: gotime

record AuditEvent =
  ae_id :: string
  ae_timestamp :: gotime
  ae_actor :: string
  ae_operation :: string
  ae_object_id :: string
  ae_outcome :: string
  ae_detail :: string

subsection \<open>Zero values\<close>

definition zero_SecretMetadata :: SecretMetadata where
  "zero_SecretMetadata = \<lparr>sm_id = [], sm_project = [], sm_environment = [], sm_name = [], sm_profile = [],
     sm_strength_bits = 0, sm_version = 0, sm_state = [], sm_created_at = zero_time, sm_updated_at = zero_time\<rparr>"

definition zero_Action :: Action where
  "zero_Action = \<lparr>ac_id = [], ac_project = [], ac_environment = [], ac_name = [], ac_executable = [],
     ac_arguments = None, ac_directory = [], ac_secrets = None, ac_output_policy = [],
     ac_created_at = zero_time, ac_updated_at = zero_time\<rparr>"

definition zero_AuditEvent :: AuditEvent where
  "zero_AuditEvent = \<lparr>ae_id = [], ae_timestamp = zero_time, ae_actor = [], ae_operation = [],
     ae_object_id = [], ae_outcome = [], ae_detail = []\<rparr>"

subsection \<open>JSON\<close>

definition jint :: "int \<Rightarrow> jv" where
  "jint i = JNum (dec_int i)"

definition jtime :: "gotime \<Rightarrow> jv" where
  "jtime t = JStr (stamp t)"

definition year_error :: error where
  "year_error = Errorf ''json: error calling MarshalJSON for type time.Time: Time.MarshalJSON: year outside of range [0,9999]''"

definition secret_json :: "SecretMetadata \<Rightarrow> jv" where
  "secret_json m = JObj
    [(''id'', JStr (sm_id m)), (''project'', JStr (sm_project m)), (''environment'', JStr (sm_environment m)),
     (''name'', JStr (sm_name m)), (''profile'', JStr (sm_profile m)), (''strength_bits'', jint (sm_strength_bits m)),
     (''version'', jint (sm_version m)), (''state'', JStr (sm_state m)),
     (''created_at'', jtime (sm_created_at m)), (''updated_at'', jtime (sm_updated_at m))]"

definition secret_fields :: "(string \<times> SecretMetadata field_setter) list" where
  "secret_fields =
    [(''id'', str_field sm_id_update), (''project'', str_field sm_project_update),
     (''environment'', str_field sm_environment_update), (''name'', str_field sm_name_update),
     (''profile'', str_field sm_profile_update), (''strength_bits'', int64_field sm_strength_bits_update),
     (''version'', int64_field sm_version_update), (''state'', str_field sm_state_update),
     (''created_at'', time_field sm_created_at_update), (''updated_at'', time_field sm_updated_at_update)]"

definition marshal_secret :: "SecretMetadata \<Rightarrow> bytes result" where
  "marshal_secret m =
     (if t_year (sm_created_at m) < 10000 \<and> t_year (sm_updated_at m) < 10000
      then Inr (bytes_of (render (secret_json m))) else Inl year_error)"

definition unmarshal_secret :: "bytes \<Rightarrow> SecretMetadata result" where
  "unmarshal_secret b = unmarshal secret_fields zero_SecretMetadata b"

definition action_json :: "Action \<Rightarrow> jv" where
  "action_json a = JObj
    [(''id'', JStr (ac_id a)), (''project'', JStr (ac_project a)), (''environment'', JStr (ac_environment a)),
     (''name'', JStr (ac_name a)), (''executable'', JStr (ac_executable a)),
     (''arguments'', strs_json (ac_arguments a)), (''directory'', JStr (ac_directory a)),
     (''secrets'', strmap_json (ac_secrets a)), (''output_policy'', JStr (ac_output_policy a)),
     (''created_at'', jtime (ac_created_at a)), (''updated_at'', jtime (ac_updated_at a))]"

definition action_fields :: "(string \<times> Action field_setter) list" where
  "action_fields =
    [(''id'', str_field ac_id_update), (''project'', str_field ac_project_update),
     (''environment'', str_field ac_environment_update), (''name'', str_field ac_name_update),
     (''executable'', str_field ac_executable_update), (''arguments'', strs_field ac_arguments_update),
     (''directory'', str_field ac_directory_update),
     (''secrets'', strmap_field (\<lambda>x. ac_secrets_update (\<lambda>_. x)) ac_secrets),
     (''output_policy'', str_field ac_output_policy_update),
     (''created_at'', time_field ac_created_at_update), (''updated_at'', time_field ac_updated_at_update)]"

definition marshal_action :: "Action \<Rightarrow> bytes result" where
  "marshal_action a =
     (if t_year (ac_created_at a) < 10000 \<and> t_year (ac_updated_at a) < 10000
      then Inr (bytes_of (render (action_json a))) else Inl year_error)"

definition unmarshal_action :: "bytes \<Rightarrow> Action result" where
  "unmarshal_action b = unmarshal action_fields zero_Action b"

text \<open>The fields \<open>object_id\<close> and \<open>detail\<close> of an event are left out when they are empty.\<close>

definition omitempty :: "string \<Rightarrow> string \<Rightarrow> (string \<times> jv) list" where
  "omitempty k s = (if s = [] then [] else [(k, JStr s)])"

definition audit_json :: "AuditEvent \<Rightarrow> jv" where
  "audit_json e = JObj
    ([(''id'', JStr (ae_id e)), (''timestamp'', jtime (ae_timestamp e)), (''actor'', JStr (ae_actor e)),
      (''operation'', JStr (ae_operation e))] @ omitempty ''object_id'' (ae_object_id e)
     @ [(''outcome'', JStr (ae_outcome e))] @ omitempty ''detail'' (ae_detail e))"

definition audit_fields :: "(string \<times> AuditEvent field_setter) list" where
  "audit_fields =
    [(''id'', str_field ae_id_update), (''timestamp'', time_field ae_timestamp_update),
     (''actor'', str_field ae_actor_update), (''operation'', str_field ae_operation_update),
     (''object_id'', str_field ae_object_id_update), (''outcome'', str_field ae_outcome_update),
     (''detail'', str_field ae_detail_update)]"

definition marshal_audit :: "AuditEvent \<Rightarrow> bytes result" where
  "marshal_audit e =
     (if t_year (ae_timestamp e) < 10000 then Inr (bytes_of (render (audit_json e))) else Inl year_error)"

definition unmarshal_audit :: "bytes \<Rightarrow> AuditEvent result" where
  "unmarshal_audit b = unmarshal audit_fields zero_AuditEvent b"

subsection \<open>What is marshalled is unmarshalled\<close>

definition secret_ok :: "SecretMetadata \<Rightarrow> bool" where
  "secret_ok m \<longleftrightarrow> list_all valid_utf8 [sm_id m, sm_project m, sm_environment m, sm_name m, sm_profile m, sm_state m]
     \<and> int64 (sm_strength_bits m) \<and> int64 (sm_version m) \<and> valid_time (sm_created_at m) \<and> valid_time (sm_updated_at m)"

definition action_ok :: "Action \<Rightarrow> bool" where
  "action_ok a \<longleftrightarrow> list_all valid_utf8 [ac_id a, ac_project a, ac_environment a, ac_name a, ac_executable a,
       ac_directory a, ac_output_policy a]
     \<and> (\<forall>ss. ac_arguments a = Some ss \<longrightarrow> list_all valid_utf8 ss)
     \<and> (\<forall>m. ac_secrets a = Some m \<longrightarrow> strmap_ok m \<and> list_all (\<lambda>(k, v). valid_utf8 k \<and> valid_utf8 v) m)
     \<and> valid_time (ac_created_at a) \<and> valid_time (ac_updated_at a)"

definition audit_ok :: "AuditEvent \<Rightarrow> bool" where
  "audit_ok e \<longleftrightarrow> list_all valid_utf8 [ae_id e, ae_actor e, ae_operation e, ae_object_id e, ae_outcome e, ae_detail e]
     \<and> valid_time (ae_timestamp e)"

definition ascii :: "string \<Rightarrow> bool" where
  "ascii s \<longleftrightarrow> list_all (\<lambda>c. code c < 128) s"

lemma ascii_append [simp]: "ascii (s @ t) \<longleftrightarrow> ascii s \<and> ascii t"
  by (simp add: ascii_def)

lemma ascii_valid_utf8: "ascii s \<Longrightarrow> valid_utf8 s"
  by (simp add: ascii_def valid_utf8_ascii)

lemma ascii_pad: "ascii (pad k n)"
  using pad_digits [of _ k n] by (fastforce simp: ascii_def list_all_iff of_char_digit)

lemma ascii_stamp: "ascii (stamp t)"
proof -
  have "ascii (strip_zeros (pad 9 n))" for n
    using ascii_pad [of 9 n] strip_zeros_digits [of "pad 9 n"] by (auto simp: ascii_def list_all_iff)
  then have "ascii (fraction n)" for n by (auto simp: fraction_def Let_def ascii_def)
  moreover have "ascii ''-''" "ascii ''T''" "ascii '':''" "ascii ''Z''" by (simp_all add: ascii_def)
  ultimately show ?thesis by (simp add: stamp_def stamp_seconds_def ascii_pad del: append_Cons append_Nil)
qed

lemma valid_utf8_stamp [simp]: "valid_utf8 (stamp t)"
  by (rule ascii_valid_utf8 [OF ascii_stamp])

lemma member_names [simp]:
  "valid_utf8 ''id''" "valid_utf8 ''project''" "valid_utf8 ''environment''" "valid_utf8 ''name''"
  "valid_utf8 ''profile''" "valid_utf8 ''strength_bits''" "valid_utf8 ''version''" "valid_utf8 ''state''"
  "valid_utf8 ''created_at''" "valid_utf8 ''updated_at''" "valid_utf8 ''executable''" "valid_utf8 ''arguments''"
  "valid_utf8 ''directory''" "valid_utf8 ''secrets''" "valid_utf8 ''output_policy''" "valid_utf8 ''timestamp''"
  "valid_utf8 ''actor''" "valid_utf8 ''operation''" "valid_utf8 ''object_id''" "valid_utf8 ''outcome''"
  "valid_utf8 ''detail''" "valid_utf8 ''memory_kib''" "valid_utf8 ''iterations''" "valid_utf8 ''parallelism''"
  by (rule ascii_valid_utf8, simp add: ascii_def)+

lemma writable_jint [simp]: "writable (jint i)"
  using number_dec_int [of i] by (simp add: jint_def)

lemma writable_jtime [simp]: "writable (jtime t)"
  by (simp add: jtime_def)

text \<open>The members of a struct, one setter at a time.\<close>

lemma read_str [simp]: "str_field upd (JStr s) r = Some (upd (\<lambda>_. s) r)"
  by (simp add: str_field_def)

lemma read_int [simp]: "int64 i \<Longrightarrow> int64_field upd (jint i) r = Some (upd (\<lambda>_. i) r)"
  by (simp add: int_field_def jint_def undec_dec_int int64_def)

lemma read_time [simp]: "valid_time t \<Longrightarrow> time_field upd (jtime t) r = Some (upd (\<lambda>_. t) r)"
  by (simp add: time_field_def jtime_def unstamp_stamp)

lemma read_strs [simp]: "strs_field upd (strs_json x) r = Some (upd (\<lambda>_. x) r)"
  by (cases x) (simp_all add: strs_field_def strs_json_def str_elems_map)

lemma read_strmap [simp]:
  "get r = None \<Longrightarrow> (\<forall>m. x = Some m \<longrightarrow> strmap_ok m) \<Longrightarrow> strmap_field upd get (strmap_json x) r = Some (upd x r)"
  by (cases x) (simp_all add: strmap_field_def strmap_json_def put_members_sorted)

lemma writable_strs: "(\<forall>ss. x = Some ss \<longrightarrow> list_all valid_utf8 ss) \<Longrightarrow> writable (strs_json x)"
  by (cases x) (auto simp: strs_json_def list_all_iff)

lemma writable_strmap:
  "(\<forall>m. x = Some m \<longrightarrow> strmap_ok m \<and> list_all (\<lambda>(k, v). valid_utf8 k \<and> valid_utf8 v) m) \<Longrightarrow> writable (strmap_json x)"
  by (cases x) (auto simp: strmap_json_def list_all_iff)

lemma secret_field_names:
  "find_field secret_fields ''id'' = Some (str_field sm_id_update)"
  "find_field secret_fields ''project'' = Some (str_field sm_project_update)"
  "find_field secret_fields ''environment'' = Some (str_field sm_environment_update)"
  "find_field secret_fields ''name'' = Some (str_field sm_name_update)"
  "find_field secret_fields ''profile'' = Some (str_field sm_profile_update)"
  "find_field secret_fields ''strength_bits'' = Some (int64_field sm_strength_bits_update)"
  "find_field secret_fields ''version'' = Some (int64_field sm_version_update)"
  "find_field secret_fields ''state'' = Some (str_field sm_state_update)"
  "find_field secret_fields ''created_at'' = Some (time_field sm_created_at_update)"
  "find_field secret_fields ''updated_at'' = Some (time_field sm_updated_at_update)"
  by (simp_all add: find_field_def secret_fields_def)

lemma action_field_names:
  "find_field action_fields ''id'' = Some (str_field ac_id_update)"
  "find_field action_fields ''project'' = Some (str_field ac_project_update)"
  "find_field action_fields ''environment'' = Some (str_field ac_environment_update)"
  "find_field action_fields ''name'' = Some (str_field ac_name_update)"
  "find_field action_fields ''executable'' = Some (str_field ac_executable_update)"
  "find_field action_fields ''arguments'' = Some (strs_field ac_arguments_update)"
  "find_field action_fields ''directory'' = Some (str_field ac_directory_update)"
  "find_field action_fields ''secrets'' = Some (strmap_field (\<lambda>x. ac_secrets_update (\<lambda>_. x)) ac_secrets)"
  "find_field action_fields ''output_policy'' = Some (str_field ac_output_policy_update)"
  "find_field action_fields ''created_at'' = Some (time_field ac_created_at_update)"
  "find_field action_fields ''updated_at'' = Some (time_field ac_updated_at_update)"
  by (simp_all add: find_field_def action_fields_def)

lemma audit_field_names:
  "find_field audit_fields ''id'' = Some (str_field ae_id_update)"
  "find_field audit_fields ''timestamp'' = Some (time_field ae_timestamp_update)"
  "find_field audit_fields ''actor'' = Some (str_field ae_actor_update)"
  "find_field audit_fields ''operation'' = Some (str_field ae_operation_update)"
  "find_field audit_fields ''object_id'' = Some (str_field ae_object_id_update)"
  "find_field audit_fields ''outcome'' = Some (str_field ae_outcome_update)"
  "find_field audit_fields ''detail'' = Some (str_field ae_detail_update)"
  by (simp_all add: find_field_def audit_fields_def)

lemma unmarshal_marshal_secret:
  assumes "secret_ok m" and "marshal_secret m = Inr b"
  shows "unmarshal_secret b = Inr m"
proof -
  have "decode_struct secret_fields (secret_json m) zero_SecretMetadata = Some m"
    using assms(1) by (simp add: decode_struct_def secret_json_def secret_ok_def secret_field_names zero_SecretMetadata_def)
  moreover have "writable (secret_json m)" using assms(1) by (simp add: secret_json_def secret_ok_def)
  ultimately show ?thesis using assms(2)
    by (auto simp: marshal_secret_def unmarshal_secret_def intro!: unmarshal_render split: if_splits)
qed

lemma unmarshal_marshal_action:
  assumes "action_ok a" and "marshal_action a = Inr b"
  shows "unmarshal_action b = Inr a"
proof -
  have "decode_struct action_fields (action_json a) zero_Action = Some a"
    using assms(1) by (simp add: decode_struct_def action_json_def action_ok_def action_field_names zero_Action_def)
  moreover have "writable (action_json a)"
    using assms(1) by (simp add: action_json_def action_ok_def writable_strs writable_strmap)
  ultimately show ?thesis using assms(2)
    by (auto simp: marshal_action_def unmarshal_action_def intro!: unmarshal_render split: if_splits)
qed

lemma unmarshal_marshal_audit:
  assumes "audit_ok e" and "marshal_audit e = Inr b"
  shows "unmarshal_audit b = Inr e"
proof -
  have "decode_struct audit_fields (audit_json e) zero_AuditEvent = Some e"
    using assms(1)
    by (simp add: decode_struct_def audit_json_def audit_ok_def audit_field_names zero_AuditEvent_def omitempty_def)
  moreover have "writable (audit_json e)" using assms(1) by (simp add: audit_json_def audit_ok_def omitempty_def)
  ultimately show ?thesis using assms(2)
    by (auto simp: marshal_audit_def unmarshal_audit_def intro!: unmarshal_render split: if_splits)
qed

subsection \<open>The parameters of the password wrapper\<close>

definition KDFParams_json :: "KDFParams \<Rightarrow> jv" where
  "KDFParams_json p = JObj [(''memory_kib'', jint (uint (MemoryKiB p))),
     (''iterations'', jint (uint (Iterations p))), (''parallelism'', jint (uint (Parallelism p)))]"

definition word_field :: "(('a::len word \<Rightarrow> 'a word) \<Rightarrow> 'r \<Rightarrow> 'r) \<Rightarrow> 'r field_setter" where
  "word_field upd = int_field 0 (2 ^ LENGTH('a) - 1) (\<lambda>f. upd (\<lambda>w. of_int (f (uint w))))"

definition KDFParams_fields :: "(string \<times> KDFParams field_setter) list" where
  "KDFParams_fields = [(''memory_kib'', word_field MemoryKiB_update),
     (''iterations'', word_field Iterations_update), (''parallelism'', word_field Parallelism_update)]"

definition marshal_KDFParams :: "KDFParams \<Rightarrow> bytes" where
  "marshal_KDFParams p = bytes_of (render (KDFParams_json p))"

definition unmarshal_KDFParams :: "bytes \<Rightarrow> KDFParams result" where
  "unmarshal_KDFParams b = unmarshal KDFParams_fields \<lparr>MemoryKiB = 0, Iterations = 0, Parallelism = 0\<rparr> b"

lemma read_word [simp]:
  "word_field upd (jint (uint (w :: 'a::len word))) r = Some (upd (\<lambda>_. w) r)"
  using unsigned_less [where 'a = int and w = w]
  by (simp add: word_field_def int_field_def jint_def undec_dec_int)

lemma KDFParams_field_names:
  "find_field KDFParams_fields ''memory_kib'' = Some (word_field MemoryKiB_update)"
  "find_field KDFParams_fields ''iterations'' = Some (word_field Iterations_update)"
  "find_field KDFParams_fields ''parallelism'' = Some (word_field Parallelism_update)"
  by (simp_all add: find_field_def KDFParams_fields_def)

lemma unmarshal_marshal_KDFParams: "unmarshal_KDFParams (marshal_KDFParams p) = Inr p"
  unfolding unmarshal_KDFParams_def marshal_KDFParams_def
  by (rule unmarshal_render)
    (simp_all add: KDFParams_json_def decode_struct_def KDFParams_field_names)

subsection \<open>The records as encodings\<close>

definition result_option :: "'a result \<Rightarrow> 'a option" where
  "result_option r = (case r of Inr x \<Rightarrow> Some x | Inl _ \<Rightarrow> None)"

lemma year_ok: "valid_time t \<Longrightarrow> t_year t < 10000"
  by (simp add: valid_time_def)

lemma marshal_ok:
  "secret_ok m \<Longrightarrow> marshal_secret m = Inr (bytes_of (render (secret_json m)))"
  "action_ok a \<Longrightarrow> marshal_action a = Inr (bytes_of (render (action_json a)))"
  "audit_ok e \<Longrightarrow> marshal_audit e = Inr (bytes_of (render (audit_json e)))"
  by (simp_all add: marshal_secret_def secret_ok_def marshal_action_def action_ok_def marshal_audit_def
      audit_ok_def year_ok)

interpretation secret: encoding "\<lambda>m. bytes_of (render (secret_json m))" "\<lambda>b. result_option (unmarshal_secret b)" secret_ok
  by unfold_locales (simp add: unmarshal_marshal_secret marshal_ok result_option_def)

interpretation action: encoding "\<lambda>a. bytes_of (render (action_json a))" "\<lambda>b. result_option (unmarshal_action b)" action_ok
  by unfold_locales (simp add: unmarshal_marshal_action marshal_ok result_option_def)

interpretation audit: encoding "\<lambda>e. bytes_of (render (audit_json e))" "\<lambda>b. result_option (unmarshal_audit b)" audit_ok
  by unfold_locales (simp add: unmarshal_marshal_audit marshal_ok result_option_def)

interpretation kdf: encoding marshal_KDFParams "\<lambda>b. result_option (unmarshal_KDFParams b)" "\<lambda>_. True"
  by unfold_locales (simp add: unmarshal_marshal_KDFParams result_option_def)

end
