(* ===== verification/Api.thy ===== *)
theory Api
  imports Model
begin

section \<open>Wire types (internal/api/api.go)\<close>

text \<open>
  The requests and responses that the client and the broker exchange. A \<open>json.RawMessage\<close> is a JSON
  value that is decoded later: the model keeps the value instead of its text (\<open>None\<close> is the nil
  message; what \<open>Unmarshal\<close> does with the text of a value depends on the value only). A \<open>[]byte\<close> field
  is base64 with padding, \<open>null\<close> when it is nil.
\<close>

subsection \<open>Standard base64\<close>

definition std_char :: "char \<Rightarrow> char" where
  "std_char c = (if c = CHR ''-'' then CHR ''+'' else if c = CHR ''_'' then CHR ''/'' else c)"

definition url_char :: "char \<Rightarrow> char option" where
  "url_char c =
     (if c = CHR ''+'' then Some (CHR ''-'') else if c = CHR ''/'' then Some (CHR ''_'')
      else if c = CHR ''-'' \<or> c = CHR ''_'' then None else Some c)"

definition std_encode :: "bytes \<Rightarrow> string" where
  "std_encode bs = map std_char (b64_encode bs) @ replicate ((3 - length bs mod 3) mod 3) (CHR ''='')"

fun sequence :: "'a option list \<Rightarrow> 'a list option" where
  "sequence [] = Some []"
| "sequence (None # xs) = None"
| "sequence (Some x # xs) = map_option ((#) x) (sequence xs)"

definition unpad :: "string \<Rightarrow> string" where
  "unpad s =
     (if drop (length s - 2) s = ''=='' then take (length s - 2) s
      else if drop (length s - 1) s = ''='' then take (length s - 1) s
      else s)"

text \<open>Line ends are skipped by the decoder, and the length must be a multiple of four.\<close>

definition std_decode :: "string \<Rightarrow> bytes option" where
  "std_decode t =
     (let s = filter (\<lambda>c. c \<noteq> CHR 0x0A \<and> c \<noteq> CHR 0x0D) t
      in if length s mod 4 \<noteq> 0 then None
         else (case sequence (map url_char (unpad s)) of None \<Rightarrow> None | Some u \<Rightarrow> b64_decode u))"

lemma length_b64_encode: "length (b64_encode bs) = (length bs * 4 + 2) div 3"
  by (induction bs rule: b64_encode.induct) (simp_all add: Let_def)

lemma b64_char_in: "i < 64 \<Longrightarrow> b64_char i \<in> set b64_alphabet"
  by (simp add: b64_char_def b64_alphabet_length)

lemma b64_encode_chars: "c \<in> set (b64_encode bs) \<Longrightarrow> c \<in> set b64_alphabet"
proof (induction bs rule: b64_encode.induct)
  case (1 a b c bs)
  have "(unat a * 65536 + unat b * 256 + unat c) div 262144 < 64"
    by (rule byte_digits(4)) (rule unat_byte_bound)+
  with 1 show ?case by (auto simp: Let_def b64_char_in)
next
  case (2 a b)
  have "(unat a * 65536 + unat b * 256) div 262144 < 64"
    using byte_digits(4) [OF unat_byte_bound [of a] unat_byte_bound [of b], of 0] by simp
  with 2 show ?case by (auto simp: Let_def b64_char_in)
next
  case (3 a)
  have "unat a * 65536 div 262144 < 64" using byte_digits(4) [OF unat_byte_bound [of a], of 0 0] by simp
  with 3 show ?case by (auto simp: Let_def b64_char_in)
qed simp

lemma alphabet_std: "list_all (\<lambda>c. url_char (std_char c) = Some c \<and> std_char c \<noteq> CHR ''='' \<and> std_char c \<noteq> CHR 0x0A
    \<and> std_char c \<noteq> CHR 0x0D) b64_alphabet"
  by code_simp

lemma std_char_ok:
  assumes "c \<in> set (b64_encode bs)"
  shows "url_char (std_char c) = Some c" "std_char c \<noteq> CHR ''=''" "std_char c \<noteq> CHR 0x0A" "std_char c \<noteq> CHR 0x0D"
  using alphabet_std b64_encode_chars [OF assms] by (auto simp: list_all_iff)

lemma sequence_map: "(\<And>x. x \<in> set xs \<Longrightarrow> f (g x) = Some x) \<Longrightarrow> sequence (map f (map g xs)) = Some xs"
  by (induction xs) simp_all

lemma unpad_padded:
  assumes "CHR ''='' \<notin> set u" and "p \<le> 2"
  shows "unpad (u @ replicate p (CHR ''='')) = u"
proof -
  have last: "drop (length u - 1) u \<noteq> ''=''" using assms(1) by (metis in_set_dropD list.set_intros(1))
  have two: "drop (length u - 2) u \<noteq> ''==''" using assms(1) by (metis in_set_dropD list.set_intros(1))
  from assms(2) consider "p = 0" | "p = 1" | "p = 2" by linarith
  then show ?thesis
  proof cases
    case 1
    then show ?thesis using last two by (simp add: unpad_def)
  next
    case 2
    then show ?thesis using assms(1) by (cases u rule: rev_cases) (auto simp: unpad_def)
  next
    case 3
    then show ?thesis by (simp add: unpad_def numeral_2_eq_2)
  qed
qed

lemma std_decode_encode: "std_decode (std_encode bs) = Some bs"
proof -
  let ?u = "map std_char (b64_encode bs)" and ?p = "(3 - length bs mod 3) mod 3"
  have ok: "\<forall>c\<in>set (std_encode bs). c \<noteq> CHR 0x0A \<and> c \<noteq> CHR 0x0D"
    using std_char_ok by (auto simp: std_encode_def)
  then have "filter (\<lambda>c. c \<noteq> CHR 0x0A \<and> c \<noteq> CHR 0x0D) (std_encode bs) = std_encode bs" by (simp add: filter_id_conv)
  moreover have "length (std_encode bs) mod 4 = 0"
  proof -
    have "((n * 4 + 2) div 3 + (3 - n mod 3) mod 3) mod 4 = 0" for n :: nat
    proof -
      obtain q r where n: "n = 3 * q + r" "r < 3" by (metis mod_less_divisor mult_div_mod_eq zero_less_numeral)
      from n(2) consider "r = 0" | "r = 1" | "r = 2" by linarith
      then have "(n * 4 + 2) div 3 + (3 - n mod 3) mod 3 = 4 * (q + (if r = 0 then 0 else 1))"
        unfolding n(1) using div_nat_eqI [of 3 "4 * q + 3" "10 + 12 * q"] by cases (simp_all add: mod_Suc)
      then show ?thesis by simp
    qed
    then show ?thesis by (simp add: std_encode_def length_b64_encode)
  qed
  moreover have "unpad (std_encode bs) = ?u"
    unfolding std_encode_def by (rule unpad_padded) (use std_char_ok(2) in \<open>fastforce+\<close>)
  moreover have "sequence (map url_char ?u) = Some (b64_encode bs)"
    by (rule sequence_map) (rule std_char_ok(1))
  ultimately show ?thesis by (simp add: std_decode_def Let_def b64_decode_encode)
qed

interpretation std64: encoding std_encode std_decode "\<lambda>_. True"
  by unfold_locales (rule std_decode_encode)

subsection \<open>Records\<close>

record Request =
  rq_id :: string
  rq_operation :: string
  rq_payload :: "jv option"

record Response =
  rs_id :: string
  rs_ok :: bool
  rs_event :: string
  rs_data :: "jv option"
  rs_error :: string
  rs_final :: bool

record Status =
  su_initialized :: bool
  su_unlocked :: bool
  su_vault_id :: string
  su_started_at :: gotime
  su_unlock_mode :: string
  su_power_hold :: bool

record UnlockRequest =
  ur_password :: "bytes option"

record SecretRequest =
  sr_scope :: Scope
  sr_name :: string
  sr_profile :: string

record ScopeRequest =
  sq_scope :: Scope

record ActionRequest =
  aq_scope :: Scope
  aq_name :: string

record ConfigureActionRequest =
  cq_action :: Action
  cq_master_password :: "bytes option"

record AuditRequest =
  lq_limit :: int

record RunResult =
  rr_action :: string
  rr_exit_code :: int

subsection \<open>Zero values\<close>

definition zero_Scope :: Scope where
  "zero_Scope = \<lparr>sc_project = [], sc_environment = []\<rparr>"

definition zero_Request :: Request where
  "zero_Request = \<lparr>rq_id = [], rq_operation = [], rq_payload = None\<rparr>"

definition zero_Response :: Response where
  "zero_Response = \<lparr>rs_id = [], rs_ok = False, rs_event = [], rs_data = None, rs_error = [], rs_final = False\<rparr>"

definition zero_SecretRequest :: SecretRequest where
  "zero_SecretRequest = \<lparr>sr_scope = zero_Scope, sr_name = [], sr_profile = []\<rparr>"

definition zero_ActionRequest :: ActionRequest where
  "zero_ActionRequest = \<lparr>aq_scope = zero_Scope, aq_name = []\<rparr>"

subsection \<open>JSON\<close>

definition raw_field :: "((jv option \<Rightarrow> jv option) \<Rightarrow> 'r \<Rightarrow> 'r) \<Rightarrow> 'r field_setter" where
  "raw_field upd v r = Some (upd (\<lambda>_. Some v) r)"

definition bytes_field :: "((bytes option \<Rightarrow> bytes option) \<Rightarrow> 'r \<Rightarrow> 'r) \<Rightarrow> 'r field_setter" where
  "bytes_field upd v r =
     (case v of
        JStr s \<Rightarrow> map_option (\<lambda>b. upd (\<lambda>_. Some b) r) (std_decode s)
      | JNull \<Rightarrow> Some (upd (\<lambda>_. None) r)
      | _ \<Rightarrow> None)"

definition bytes_json :: "bytes option \<Rightarrow> jv" where
  "bytes_json x = (case x of None \<Rightarrow> JNull | Some b \<Rightarrow> JStr (std_encode b))"

text \<open>A struct within a struct is read into the fields that are there.\<close>

definition struct_field :: "(string \<times> 's field_setter) list \<Rightarrow> ('r \<Rightarrow> 's) \<Rightarrow> (('s \<Rightarrow> 's) \<Rightarrow> 'r \<Rightarrow> 'r) \<Rightarrow> 'r field_setter" where
  "struct_field fs get upd v r = map_option (\<lambda>s. upd (\<lambda>_. s) r) (decode_struct fs v (get r))"

definition omit_raw :: "string \<Rightarrow> jv option \<Rightarrow> (string \<times> jv) list" where
  "omit_raw k v = (case v of None \<Rightarrow> [] | Some x \<Rightarrow> [(k, x)])"

definition omit_false :: "string \<Rightarrow> bool \<Rightarrow> (string \<times> jv) list" where
  "omit_false k b = (if b then [(k, JBool True)] else [])"

definition request_json :: "Request \<Rightarrow> jv" where
  "request_json r = JObj ([(''id'', JStr (rq_id r)), (''operation'', JStr (rq_operation r))] @ omit_raw ''payload'' (rq_payload r))"

definition request_fields :: "(string \<times> Request field_setter) list" where
  "request_fields = [(''id'', str_field rq_id_update), (''operation'', str_field rq_operation_update),
     (''payload'', raw_field rq_payload_update)]"

definition response_json :: "Response \<Rightarrow> jv" where
  "response_json r = JObj
    ([(''id'', JStr (rs_id r)), (''ok'', JBool (rs_ok r))] @ omitempty ''event'' (rs_event r)
     @ omit_raw ''data'' (rs_data r) @ omitempty ''error'' (rs_error r) @ omit_false ''final'' (rs_final r))"

definition response_fields :: "(string \<times> Response field_setter) list" where
  "response_fields = [(''id'', str_field rs_id_update), (''ok'', bool_field rs_ok_update),
     (''event'', str_field rs_event_update), (''data'', raw_field rs_data_update),
     (''error'', str_field rs_error_update), (''final'', bool_field rs_final_update)]"

definition status_json :: "Status \<Rightarrow> jv" where
  "status_json s = JObj
    ([(''initialized'', JBool (su_initialized s)), (''unlocked'', JBool (su_unlocked s))]
     @ omitempty ''vault_id'' (su_vault_id s)
     @ [(''started_at'', jtime (su_started_at s)), (''unlock_mode'', JStr (su_unlock_mode s)),
        (''power_hold'', JBool (su_power_hold s))])"

definition scope_json :: "Scope \<Rightarrow> jv" where
  "scope_json s = JObj [(''project'', JStr (sc_project s)), (''environment'', JStr (sc_environment s))]"

definition scope_fields :: "(string \<times> Scope field_setter) list" where
  "scope_fields = [(''project'', str_field sc_project_update), (''environment'', str_field sc_environment_update)]"

definition unlock_json :: "UnlockRequest \<Rightarrow> jv" where
  "unlock_json u = JObj [(''password'', bytes_json (ur_password u))]"

definition unlock_fields :: "(string \<times> UnlockRequest field_setter) list" where
  "unlock_fields = [(''password'', bytes_field ur_password_update)]"

definition secret_request_json :: "SecretRequest \<Rightarrow> jv" where
  "secret_request_json r = JObj
    ([(''scope'', scope_json (sr_scope r)), (''name'', JStr (sr_name r))] @ omitempty ''profile'' (sr_profile r))"

definition secret_request_fields :: "(string \<times> SecretRequest field_setter) list" where
  "secret_request_fields = [(''scope'', struct_field scope_fields sr_scope sr_scope_update),
     (''name'', str_field sr_name_update), (''profile'', str_field sr_profile_update)]"

definition scope_request_json :: "ScopeRequest \<Rightarrow> jv" where
  "scope_request_json r = JObj [(''scope'', scope_json (sq_scope r))]"

definition scope_request_fields :: "(string \<times> ScopeRequest field_setter) list" where
  "scope_request_fields = [(''scope'', struct_field scope_fields sq_scope sq_scope_update)]"

definition action_request_json :: "ActionRequest \<Rightarrow> jv" where
  "action_request_json r = JObj [(''scope'', scope_json (aq_scope r)), (''name'', JStr (aq_name r))]"

definition action_request_fields :: "(string \<times> ActionRequest field_setter) list" where
  "action_request_fields = [(''scope'', struct_field scope_fields aq_scope aq_scope_update), (''name'', str_field aq_name_update)]"

definition configure_json :: "ConfigureActionRequest \<Rightarrow> jv" where
  "configure_json r = JObj [(''action'', action_json (cq_action r)), (''master_password'', bytes_json (cq_master_password r))]"

definition configure_fields :: "(string \<times> ConfigureActionRequest field_setter) list" where
  "configure_fields = [(''action'', struct_field action_fields cq_action cq_action_update),
     (''master_password'', bytes_field cq_master_password_update)]"

definition audit_request_json :: "AuditRequest \<Rightarrow> jv" where
  "audit_request_json r = JObj [(''limit'', jint (lq_limit r))]"

definition audit_request_fields :: "(string \<times> AuditRequest field_setter) list" where
  "audit_request_fields = [(''limit'', int64_field lq_limit_update)]"

definition run_result_json :: "RunResult \<Rightarrow> jv" where
  "run_result_json r = JObj [(''action'', JStr (rr_action r)), (''exit_code'', jint (rr_exit_code r))]"

definition run_result_fields :: "(string \<times> RunResult field_setter) list" where
  "run_result_fields = [(''action'', str_field rr_action_update), (''exit_code'', int64_field rr_exit_code_update)]"

text \<open>\<open>json.Unmarshal\<close> of a raw message into a struct; the nil message is not JSON.\<close>

definition unmarshal_raw :: "(string \<times> 'r field_setter) list \<Rightarrow> 'r \<Rightarrow> jv option \<Rightarrow> 'r result" where
  "unmarshal_raw fs zero raw =
     (case raw of
        None \<Rightarrow> Inl json_error
      | Some v \<Rightarrow> (case decode_struct fs v zero of None \<Rightarrow> Inl json_error | Some r \<Rightarrow> Inr r))"

subsection \<open>What is sent is received\<close>

lemma wire_names [simp]:
  "valid_utf8 ''operation''" "valid_utf8 ''payload''" "valid_utf8 ''ok''" "valid_utf8 ''event''" "valid_utf8 ''data''"
  "valid_utf8 ''error''" "valid_utf8 ''final''" "valid_utf8 ''scope''" "valid_utf8 ''password''" "valid_utf8 ''action''"
  "valid_utf8 ''master_password''" "valid_utf8 ''limit''" "valid_utf8 ''exit_code''" "valid_utf8 ''initialized''"
  "valid_utf8 ''unlocked''" "valid_utf8 ''vault_id''" "valid_utf8 ''started_at''" "valid_utf8 ''unlock_mode''"
  "valid_utf8 ''power_hold''"
  by (rule ascii_valid_utf8, simp add: ascii_def)+

lemma read_raw [simp]: "raw_field upd v r = Some (upd (\<lambda>_. Some v) r)"
  by (simp add: raw_field_def)

lemma read_bool [simp]: "bool_field upd (JBool b) r = Some (upd (\<lambda>_. b) r)"
  by (simp add: bool_field_def)

lemma read_bytes [simp]: "bytes_field upd (bytes_json x) r = Some (upd (\<lambda>_. x) r)"
  by (cases x) (simp_all add: bytes_field_def bytes_json_def std_decode_encode)

lemma ascii_std: "ascii (std_encode bs)"
proof -
  have "list_all (\<lambda>c. code (std_char c) < 128) b64_alphabet" by code_simp
  then have "c \<in> set (b64_encode bs) \<Longrightarrow> code (std_char c) < 128" for c
    using b64_encode_chars by (auto simp: list_all_iff)
  then show ?thesis by (auto simp: ascii_def std_encode_def list_all_iff)
qed

lemma writable_bytes [simp]: "writable (bytes_json x)"
  by (cases x) (simp_all add: bytes_json_def ascii_valid_utf8 ascii_std)

lemma request_field_names:
  "find_field request_fields ''id'' = Some (str_field rq_id_update)"
  "find_field request_fields ''operation'' = Some (str_field rq_operation_update)"
  "find_field request_fields ''payload'' = Some (raw_field rq_payload_update)"
  by (simp_all add: find_field_def request_fields_def)

lemma response_field_names:
  "find_field response_fields ''id'' = Some (str_field rs_id_update)"
  "find_field response_fields ''ok'' = Some (bool_field rs_ok_update)"
  "find_field response_fields ''event'' = Some (str_field rs_event_update)"
  "find_field response_fields ''data'' = Some (raw_field rs_data_update)"
  "find_field response_fields ''error'' = Some (str_field rs_error_update)"
  "find_field response_fields ''final'' = Some (bool_field rs_final_update)"
  by (simp_all add: find_field_def response_fields_def)

definition request_ok :: "Request \<Rightarrow> bool" where
  "request_ok r \<longleftrightarrow> valid_utf8 (rq_id r) \<and> valid_utf8 (rq_operation r) \<and> (\<forall>v. rq_payload r = Some v \<longrightarrow> writable v)"

definition response_ok :: "Response \<Rightarrow> bool" where
  "response_ok r \<longleftrightarrow> valid_utf8 (rs_id r) \<and> valid_utf8 (rs_event r) \<and> valid_utf8 (rs_error r)
     \<and> (\<forall>v. rs_data r = Some v \<longrightarrow> writable v)"

lemma decode_request: "decode_struct request_fields (request_json r) zero_Request = Some r"
  by (cases "rq_payload r")
    (simp_all add: decode_struct_def request_json_def omit_raw_def request_field_names zero_Request_def)

lemma decode_response: "decode_struct response_fields (response_json r) zero_Response = Some r"
  by (cases "rs_data r"; cases "rs_final r"; cases "rs_event r = []"; cases "rs_error r = []")
    (simp_all add: decode_struct_def response_json_def omit_raw_def omitempty_def omit_false_def response_field_names
      zero_Response_def)

lemma writable_wire: "request_ok q \<Longrightarrow> writable (request_json q)" "response_ok r \<Longrightarrow> writable (response_json r)"
  by (auto simp: request_ok_def request_json_def response_ok_def response_json_def omit_raw_def omitempty_def
      omit_false_def split: option.split)

text \<open>What is received, when texts need not be valid: every string as it is read.\<close>

definition received_request :: "Request \<Rightarrow> Request" where
  "received_request r = r\<lparr>rq_id := to_valid (rq_id r), rq_operation := to_valid (rq_operation r),
     rq_payload := map_option as_read (rq_payload r)\<rparr>"

definition received :: "Response \<Rightarrow> Response" where
  "received r = r\<lparr>rs_id := to_valid (rs_id r), rs_event := to_valid (rs_event r), rs_error := to_valid (rs_error r),
     rs_data := map_option as_read (rs_data r)\<rparr>"

definition request_numbers :: "Request \<Rightarrow> bool" where
  "request_numbers r \<longleftrightarrow> (\<forall>v. rq_payload r = Some v \<longrightarrow> numbers_ok v)"

definition response_numbers :: "Response \<Rightarrow> bool" where
  "response_numbers r \<longleftrightarrow> (\<forall>v. rs_data r = Some v \<longrightarrow> numbers_ok v)"

lemma numbers_wire: "request_numbers q \<Longrightarrow> numbers_ok (request_json q)" "response_numbers r \<Longrightarrow> numbers_ok (response_json r)"
  by (auto simp: request_numbers_def request_json_def response_numbers_def response_json_def omit_raw_def omitempty_def
      omit_false_def split: option.split)

lemma as_read_wire: "as_read (request_json q) = request_json (received_request q)" "as_read (response_json r) = response_json (received r)"
  by (auto simp: received_request_def request_json_def received_def response_json_def omit_raw_def omitempty_def
      omit_false_def to_valid_same split: option.split)

lemma received_same: "request_ok q \<Longrightarrow> received_request q = q" "response_ok r \<Longrightarrow> received r = r"
proof -
  show "request_ok q \<Longrightarrow> received_request q = q"
    by (cases "rq_payload q") (simp_all add: request_ok_def received_request_def to_valid_same as_read_same)
  show "response_ok r \<Longrightarrow> received r = r"
    by (cases "rs_data r") (simp_all add: response_ok_def received_def to_valid_same as_read_same)
qed

lemma numbers_of_ok: "request_ok q \<Longrightarrow> request_numbers q" "response_ok r \<Longrightarrow> response_numbers r"
  by (simp_all add: request_ok_def request_numbers_def response_ok_def response_numbers_def writable_numbers)

lemma received_simps [simp]: "rs_final (received r) = rs_final r" "rs_ok (received r) = rs_ok r"
  by (simp_all add: received_def)

end
