(* ===== verification/BrokerRun.thy ===== *)
theory BrokerRun
  imports Redaction Runner Api
begin

section \<open>Running an approved action: the child and its output (internal/broker/broker.go)\<close>

text \<open>
  The part of \<open>runAction\<close> around the child process: the writers that carry its output as events to the
  client, the environment it gets and the process itself. The child is an argument: for an invocation
  it gives the writes to its two streams in the order in which the copying goroutines of \<open>os/exec\<close>
  deliver them, and the way it ended. The connection holds the responses that were sent and, for each
  call of \<open>send\<close>, the error it returns, if any.
\<close>

subsection \<open>The connection\<close>

record conn =
  cn_sent :: "Response list"
  cn_faults :: "error option list"

definition send_response :: "Response \<Rightarrow> conn \<Rightarrow> error option \<times> conn" where
  "send_response r c =
     (case cn_faults c of
        [] \<Rightarrow> (None, c\<lparr>cn_sent := cn_sent c @ [r]\<rparr>)
      | None # fs \<Rightarrow> (None, c\<lparr>cn_sent := cn_sent c @ [r], cn_faults := fs\<rparr>)
      | Some e # fs \<Rightarrow> (Some e, c\<lparr>cn_faults := fs\<rparr>))"

subsection \<open>Event writers\<close>

definition eventWriter_Write :: "string \<Rightarrow> conn \<Rightarrow> bytes \<Rightarrow> error option \<times> conn" where
  "eventWriter_Write event c p =
     send_response (zero_Response\<lparr>rs_ok := True, rs_event := event, rs_data := Some (JStr (string_of p))\<rparr>) c"

definition discard_Write :: "conn \<Rightarrow> bytes \<Rightarrow> error option \<times> conn" where
  "discard_Write c p = (None, c)"

text \<open>The targets of the two streams: event writers only when the output policy is \<open>redacted\<close>.\<close>

definition stream_target :: "string \<Rightarrow> string \<Rightarrow> conn \<Rightarrow> bytes \<Rightarrow> error option \<times> conn" where
  "stream_target policy event = (if policy = ''redacted'' then eventWriter_Write event else discard_Write)"

subsection \<open>The environment of the child\<close>

definition allowed_names :: "string list" where
  "allowed_names = [''PATH'', ''HOME'', ''USER'', ''LOGNAME'', ''TMPDIR'', ''TMP'', ''TEMP'', ''LANG'', ''LC_ALL'',
     ''SystemRoot'', ''ComSpec'', ''PATHEXT'']"

text \<open>\<open>strings.Cut(entry, "=")\<close>: the part before the first equals sign.\<close>

definition entry_key :: "string \<Rightarrow> string" where
  "entry_key entry = takeWhile (\<lambda>c. c \<noteq> CHR ''='') entry"

definition baseEnvironment :: "string list \<Rightarrow> string list" where
  "baseEnvironment environ = filter (\<lambda>entry. entry_key entry \<in> set allowed_names) environ"

definition secret_entry :: "string \<times> bytes \<Rightarrow> string" where
  "secret_entry kv = fst kv @ ''='' @ string_of (snd kv)"

text \<open>The mapped values in the order of the sorted environment names.\<close>

definition child_environment :: "string list \<Rightarrow> (string \<times> bytes) list \<Rightarrow> string list" where
  "child_environment environ vals = baseEnvironment environ @ map secret_entry (sort_key fst vals)"

subsection \<open>The child process\<close>

text \<open>
  A write is on standard error (\<open>True\<close>) or standard output. A stream whose writer has reported an error
  is not copied any more; that error is the error of \<open>cmd.Run\<close> when the process itself succeeds.
\<close>

record child =
  ch_writes :: "(bool \<times> bytes) list"
  ch_end :: "cmd_error option"

record pumps =
  pm_out :: "conn writer"
  pm_err :: "conn writer"
  pm_failed :: "(bool \<times> error) list"

definition write_to :: "(conn \<Rightarrow> bytes \<Rightarrow> error option \<times> conn) \<Rightarrow> conn writer \<Rightarrow> bytes \<Rightarrow> conn
    \<Rightarrow> (error option \<times> conn writer) \<times> conn" where
  "write_to target w p c = (case Write target (w\<lparr>w_dst := c\<rparr>) p of ((_, e), w') \<Rightarrow> ((e, w'), w_dst w'))"

definition close_to :: "(conn \<Rightarrow> bytes \<Rightarrow> error option \<times> conn) \<Rightarrow> conn writer \<Rightarrow> conn \<Rightarrow> conn" where
  "close_to target w c = w_dst (snd (Close target (w\<lparr>w_dst := c\<rparr>)))"

definition pump :: "string \<Rightarrow> bool \<times> bytes \<Rightarrow> pumps \<times> conn \<Rightarrow> pumps \<times> conn" where
  "pump policy chunk st =
     (case (chunk, st) of ((is_err, p), (pm, c)) \<Rightarrow>
        if is_err \<in> fst ` set (pm_failed pm) then (pm, c)
        else if is_err then
          (case write_to (stream_target policy ''stderr'') (pm_err pm) p c of ((e, w), c') \<Rightarrow>
             (pm\<lparr>pm_err := w, pm_failed := pm_failed pm @ (case e of None \<Rightarrow> [] | Some err \<Rightarrow> [(True, err)])\<rparr>, c'))
        else
          (case write_to (stream_target policy ''stdout'') (pm_out pm) p c of ((e, w), c') \<Rightarrow>
             (pm\<lparr>pm_out := w, pm_failed := pm_failed pm @ (case e of None \<Rightarrow> [] | Some err \<Rightarrow> [(False, err)])\<rparr>, c')))"

text \<open>\<open>cmd.Run\<close> of the child.\<close>

definition child_run :: "string \<Rightarrow> (Invocation \<Rightarrow> child) \<Rightarrow> Invocation \<Rightarrow> pumps \<times> conn \<Rightarrow> cmd_error option \<times> (pumps \<times> conn)" where
  "child_run policy proc call st =
     (let st' = fold (pump policy) (ch_writes (proc call)) st
      in (case ch_end (proc call) of
            Some e \<Rightarrow> (Some e, st')
          | None \<Rightarrow> (case pm_failed (fst st') of
                      [] \<Rightarrow> (None, st')
                    | (_, err) # _ \<Rightarrow> (Some (OtherError err False), st'))))"

text \<open>The writers, \<open>runner.Run\<close> and the closing of both writers.\<close>

definition run_child :: "string \<Rightarrow> (Invocation \<Rightarrow> child) \<Rightarrow> error option \<Rightarrow> Invocation \<Rightarrow> bytes list \<Rightarrow> conn
    \<Rightarrow> (int \<times> error option) \<times> conn" where
  "run_child policy proc ctx_err call vals c =
     (let pm = \<lparr>pm_out = NewWriter c vals, pm_err = NewWriter c vals, pm_failed = []\<rparr>
      in (case Run (child_run policy proc) ctx_err call (pm, c) of
            (res, (pm, c)) \<Rightarrow>
              (let c = close_to (stream_target policy ''stdout'') (pm_out pm) c;
                   c = close_to (stream_target policy ''stderr'') (pm_err pm) c
               in (res, c))))"

end
