(* ===== verification/Effects.thy ===== *)
theory Effects
  imports GoTime
begin

section \<open>Operations on the world\<close>

text \<open>
  A method of the vault reads the random source and the clock and talks to the database through
  \<open>database/sql\<close>. Its model is a function from the world to a result and the new world. The world
  holds what the environment supplies: the entropy tape, the clock (the time of each reading), the
  faults of the driver (for each call on the database, the error it returns, if any; no entry is no
  fault; such an error is never \<open>sql.ErrNoRows\<close>) and the database itself, whose type is a parameter.

  A transaction works on the database of the world and, when its body returns an error or the commit
  fails, puts the database of its beginning back, as \<open>defer tx.Rollback()\<close> does. The program opens one
  connection only (\<open>SetMaxOpenConns(1)\<close>), so a transaction is not interrupted by another statement.

  \<open>keeps\<close> and \<open>atomic\<close> are the two judgements of the development on such operations: the database is
  unchanged in every case, and unchanged whenever an error is returned. Their rules are syntax
  directed and collected in \<open>effect_intros\<close>.
\<close>

record 'db world =
  w_tape :: bytes
  w_clock :: "nat \<Rightarrow> gotime"
  w_ticks :: nat
  w_faults :: "string option list"
  w_db :: 'db

type_synonym ('db, 'a) eff = "'db world \<Rightarrow> 'a result \<times> 'db world"

named_theorems effect_intros \<open>rules for the judgements on effects\<close>
named_theorems effect_inr \<open>what a successful effect did\<close>

subsection \<open>Combinators\<close>

definition ret :: "'a \<Rightarrow> ('db, 'a) eff" where
  "ret x w = (Inr x, w)"

definition fail :: "error \<Rightarrow> ('db, 'a) eff" where
  "fail e w = (Inl e, w)"

definition lift :: "'a result \<Rightarrow> ('db, 'a) eff" where
  "lift r w = (r, w)"

definition bnd :: "('db, 'a) eff \<Rightarrow> ('a \<Rightarrow> ('db, 'b) eff) \<Rightarrow> ('db, 'b) eff" where
  "bnd m f w = (case m w of (Inl e, w') \<Rightarrow> (Inl e, w') | (Inr x, w') \<Rightarrow> f x w')"

definition on_error :: "('db, 'a) eff \<Rightarrow> (error \<Rightarrow> ('db, 'a) eff) \<Rightarrow> ('db, 'a) eff" where
  "on_error m h w = (case m w of (Inl e, w') \<Rightarrow> h e w' | (Inr x, w') \<Rightarrow> (Inr x, w'))"

definition random :: "(bytes \<Rightarrow> 'a result \<times> bytes) \<Rightarrow> ('db, 'a) eff" where
  "random f w = (case f (w_tape w) of (r, tape) \<Rightarrow> (r, w\<lparr>w_tape := tape\<rparr>))"

definition time_now :: "('db, gotime) eff" where
  "time_now w = (Inr (w_clock w (w_ticks w)), w\<lparr>w_ticks := Suc (w_ticks w)\<rparr>)"

definition driver :: "('db, unit) eff" where
  "driver w =
     (case w_faults w of
        [] \<Rightarrow> (Inr (), w)
      | None # fs \<Rightarrow> (Inr (), w\<lparr>w_faults := fs\<rparr>)
      | Some e # fs \<Rightarrow> (Inl (Errorf e), w\<lparr>w_faults := fs\<rparr>))"

definition query :: "('db \<Rightarrow> 'a result) \<Rightarrow> ('db, 'a) eff" where
  "query f = bnd driver (\<lambda>_ w. (f (w_db w), w))"

definition exec :: "('db \<Rightarrow> ('a \<times> 'db) result) \<Rightarrow> ('db, 'a) eff" where
  "exec f = bnd driver (\<lambda>_ w.
     (case f (w_db w) of Inl e \<Rightarrow> (Inl e, w) | Inr (x, d) \<Rightarrow> (Inr x, w\<lparr>w_db := d\<rparr>)))"

text \<open>The same world around another state.\<close>

definition with_db :: "'a world \<Rightarrow> 'b \<Rightarrow> 'b world" where
  "with_db w d = \<lparr>w_tape = w_tape w, w_clock = w_clock w, w_ticks = w_ticks w, w_faults = w_faults w, w_db = d\<rparr>"

lemma with_db_simps [simp]:
  "w_tape (with_db w d) = w_tape w" "w_clock (with_db w d) = w_clock w" "w_ticks (with_db w d) = w_ticks w"
  "w_faults (with_db w d) = w_faults w" "w_db (with_db w d) = d" "with_db (with_db w d) d' = with_db w d'"
  by (simp_all add: with_db_def)

lemma with_db_same [simp]: "w_db w = d \<Longrightarrow> with_db w d = w"
  by (simp add: with_db_def)

text \<open>\<open>fmt.Errorf("\<dots>: %w", err)\<close> around a failed call.\<close>

definition wrap_error :: "string \<Rightarrow> ('db, 'a) eff \<Rightarrow> ('db, 'a) eff" where
  "wrap_error s m = on_error m (\<lambda>e. fail (Wrap s e))"

text \<open>\<open>BeginTx\<close>, the body, \<open>Commit\<close>; \<open>Rollback\<close> on every error.\<close>

definition committed :: "('db, 'a) eff \<Rightarrow> ('db, 'a) eff" where
  "committed body = bnd body (\<lambda>x. bnd driver (\<lambda>_. ret x))"

definition transaction :: "('db, 'a) eff \<Rightarrow> ('db, 'a) eff" where
  "transaction body = bnd driver (\<lambda>_ w.
     (case committed body w of
        (Inl e, w') \<Rightarrow> (Inl e, w'\<lparr>w_db := w_db w\<rparr>)
      | (Inr x, w') \<Rightarrow> (Inr x, w')))"

subsection \<open>Successful effects\<close>

lemma ret_Inr [effect_inr]: "ret x w = (Inr y, w') \<longleftrightarrow> y = x \<and> w' = w"
  by (auto simp: ret_def)

lemma fail_Inr [effect_inr]: "fail e w = (Inr y, w') \<longleftrightarrow> False"
  by (simp add: fail_def)

lemma lift_Inr [effect_inr]: "lift r w = (Inr y, w') \<longleftrightarrow> r = Inr y \<and> w' = w"
  by (auto simp: lift_def)

lemma bnd_Inr [effect_inr]:
  "bnd m f w = (Inr y, w') \<longleftrightarrow> (\<exists>x v. m w = (Inr x, v) \<and> f x v = (Inr y, w'))"
  by (auto simp: bnd_def split: prod.splits sum.splits)

lemma random_Inr [effect_inr]:
  "random f w = (Inr y, w') \<longleftrightarrow> (\<exists>tape. f (w_tape w) = (Inr y, tape) \<and> w' = w\<lparr>w_tape := tape\<rparr>)"
  by (auto simp: random_def split: prod.splits)

lemma on_error_Inr:
  "on_error m h w = (Inr y, w') \<longleftrightarrow> m w = (Inr y, w') \<or> (\<exists>e v. m w = (Inl e, v) \<and> h e v = (Inr y, w'))"
  by (cases "m w"; cases "fst (m w)") (auto simp: on_error_def)

lemma driver_Inl: "driver w = (Inl e, w') \<Longrightarrow> \<exists>t. e = Errorf t"
  by (auto simp: driver_def split: list.splits option.splits)

lemma query_Inl:
  assumes "query f w = (Inl e, w')"
  shows "(\<exists>t. e = Errorf t) \<or> f (w_db w) = Inl e"
proof (cases "driver w")
  case (Pair r u)
  show ?thesis
  proof (cases r)
    case (Inl e')
    then show ?thesis using assms Pair driver_Inl [of w e' u] by (auto simp: query_def bnd_def)
  next
    case (Inr x)
    then have "w_db u = w_db w" using Pair by (auto simp: driver_def split: list.splits option.splits)
    then show ?thesis using assms Pair Inr by (simp add: query_def bnd_def)
  qed
qed

lemma wrap_error_Inr [effect_inr]: "wrap_error s m w = (Inr y, w') \<longleftrightarrow> m w = (Inr y, w')"
  by (auto simp: wrap_error_def on_error_def fail_def split: prod.splits sum.splits)

lemma time_now_Inr [effect_inr]:
  "time_now w = (Inr t, w') \<longleftrightarrow> t = w_clock w (w_ticks w) \<and> w' = w\<lparr>w_ticks := Suc (w_ticks w)\<rparr>"
  by (auto simp: time_now_def)

lemma driver_Inr [effect_inr]:
  "driver w = (Inr u, w') \<longleftrightarrow> (w_faults w = [] \<or> hd (w_faults w) = None) \<and> w' = w\<lparr>w_faults := tl (w_faults w)\<rparr>"
  by (auto simp: driver_def split: list.splits option.splits)

lemma query_Inr [effect_inr]:
  "query f w = (Inr y, w') \<longleftrightarrow> driver w = (Inr (), w') \<and> f (w_db w) = Inr y"
  by (auto simp: query_def effect_inr)

lemma exec_Inr [effect_inr]:
  "exec f w = (Inr y, w') \<longleftrightarrow>
     (\<exists>v d. driver w = (Inr (), v) \<and> f (w_db w) = Inr (y, d) \<and> w' = v\<lparr>w_db := d\<rparr>)"
  by (auto simp: exec_def effect_inr split: sum.splits prod.splits)

lemma transaction_Inr [effect_inr]:
  "transaction body w = (Inr y, w') \<longleftrightarrow>
     (\<exists>u v. driver w = (Inr (), u) \<and> body u = (Inr y, v) \<and> driver v = (Inr (), w'))"
proof -
  have commit: "committed body u = (Inr y, w') \<longleftrightarrow> (\<exists>v. body u = (Inr y, v) \<and> driver v = (Inr (), w'))" for u
    by (auto simp: committed_def bnd_Inr ret_Inr)
  have "(case m of (Inl e, w') \<Rightarrow> (Inl e, g w') | (Inr x, w') \<Rightarrow> (Inr x, w')) = (Inr y, w') \<longleftrightarrow> m = (Inr y, w')"
    for m :: "'a result \<times> 'b world" and g
    by (cases m; cases "fst m") auto
  then show ?thesis by (auto simp: transaction_def bnd_Inr commit)
qed

lemma driver_same:
  "driver w = (r, w') \<Longrightarrow> w_db w' = w_db w \<and> w_clock w' = w_clock w \<and> w_ticks w' = w_ticks w \<and> w_tape w' = w_tape w"
  by (auto simp: driver_def split: list.splits option.splits)

lemma driver_clean: "w_faults w = [] \<Longrightarrow> driver w = (Inr (), w)"
  by (simp add: driver_def)

lemma transaction_db:
  assumes "transaction body w = (Inr y, w')"
  obtains u v where "w_db u = w_db w" "w_clock u = w_clock w" "w_ticks u = w_ticks w" "w_tape u = w_tape w"
    "body u = (Inr y, v)" "w_db w' = w_db v"
proof -
  obtain u v where "driver w = (Inr (), u)" "body u = (Inr y, v)" "driver v = (Inr (), w')"
    using assms by (auto simp only: transaction_Inr)
  then show thesis using that [of u v] driver_same [of w "Inr ()" u] driver_same [of v "Inr ()" w'] by simp
qed

text \<open>Running an effect step by step.\<close>

lemma bnd_run: "m w = (Inr x, w') \<Longrightarrow> bnd m f w = f x w'"
  by (simp add: bnd_def)

lemma bnd_stop: "m w = (Inl e, w') \<Longrightarrow> bnd m f w = (Inl e, w')"
  by (simp add: bnd_def)

lemma query_clean: "w_faults w = [] \<Longrightarrow> query f w = (f (w_db w), w)"
  by (simp add: query_def bnd_def driver_clean)

lemma exec_clean:
  "w_faults w = [] \<Longrightarrow> f (w_db w) = Inr (x, d) \<Longrightarrow> exec f w = (Inr x, w\<lparr>w_db := d\<rparr>)"
  by (simp add: exec_def bnd_def driver_clean)

lemmas run = bnd_run query_clean exec_clean driver_clean ret_def lift_def fail_def random_def time_now_def

subsection \<open>Effects that keep the database\<close>

definition keeps :: "('db, 'a) eff \<Rightarrow> bool" where
  "keeps m \<longleftrightarrow> (\<forall>w. w_db (snd (m w)) = w_db w)"

definition atomic :: "('db, 'a) eff \<Rightarrow> bool" where
  "atomic m \<longleftrightarrow> (\<forall>w e w'. m w = (Inl e, w') \<longrightarrow> w_db w' = w_db w)"

lemma keepsD: "keeps m \<Longrightarrow> m w = (r, w') \<Longrightarrow> w_db w' = w_db w"
  unfolding keeps_def by (metis snd_conv)

lemma atomicD: "atomic m \<Longrightarrow> m w = (Inl e, w') \<Longrightarrow> w_db w' = w_db w"
  unfolding atomic_def by blast

lemma keeps_atomic: "keeps m \<Longrightarrow> atomic m"
  by (auto simp: atomic_def dest: keepsD)

lemma keeps_base [effect_intros]:
  "keeps (ret x)" "keeps (fail e)" "keeps (lift r)" "keeps (random f)" "keeps time_now" "keeps driver"
  by (simp_all add: keeps_def ret_def fail_def lift_def random_def time_now_def driver_def
      split: prod.splits list.splits option.splits)

lemma keeps_bnd [effect_intros]:
  assumes "keeps m" and "\<And>x. keeps (f x)"
  shows "keeps (bnd m f)"
  unfolding keeps_def bnd_def
proof
  fix w
  obtain r v where m: "m w = (r, v)" by (cases "m w")
  then show "w_db (snd (case m w of (Inl e, w') \<Rightarrow> (Inl e, w') | (Inr x, w') \<Rightarrow> f x w')) = w_db w"
    using assms keepsD [OF assms(1) m] by (cases r) (simp_all add: keeps_def)
qed

lemma keeps_on_error [effect_intros]:
  assumes "keeps m" and "\<And>e. keeps (h e)"
  shows "keeps (on_error m h)"
  unfolding keeps_def on_error_def
proof
  fix w
  obtain r v where m: "m w = (r, v)" by (cases "m w")
  then show "w_db (snd (case m w of (Inl e, w') \<Rightarrow> h e w' | (Inr x, w') \<Rightarrow> (Inr x, w'))) = w_db w"
    using assms keepsD [OF assms(1) m] by (cases r) (simp_all add: keeps_def)
qed

lemma keeps_wrap_error [effect_intros]: "keeps m \<Longrightarrow> keeps (wrap_error s m)"
  unfolding wrap_error_def by (intro effect_intros)

lemma keeps_query [effect_intros]: "keeps (query f)"
  unfolding query_def by (rule keeps_bnd [OF keeps_base(6)]) (simp add: keeps_def)

lemma keeps_if [effect_intros]: "keeps m \<Longrightarrow> keeps n \<Longrightarrow> keeps (if b then m else n)"
  by simp

lemma keeps_option [effect_intros]:
  "keeps m \<Longrightarrow> (\<And>x. keeps (f x)) \<Longrightarrow> keeps (case v of None \<Rightarrow> m | Some x \<Rightarrow> f x)"
  by (cases v) simp_all

lemma keeps_prod [effect_intros]: "(\<And>x y. keeps (f x y)) \<Longrightarrow> keeps (case p of (x, y) \<Rightarrow> f x y)"
  by (cases p) simp

lemma keeps_let [effect_intros]: "(\<And>x. keeps (f x)) \<Longrightarrow> keeps (let x = v in f x)"
  by simp

lemma atomic_bnd [effect_intros]:
  assumes "keeps m" and "\<And>x. atomic (f x)"
  shows "atomic (bnd m f)"
  unfolding atomic_def bnd_def
proof (intro allI impI)
  fix w e w'
  assume run: "(case m w of (Inl e, w') \<Rightarrow> (Inl e, w') | (Inr x, w') \<Rightarrow> f x w') = (Inl e, w')"
  obtain r v where m: "m w = (r, v)" by (cases "m w")
  have "w_db v = w_db w" by (rule keepsD [OF assms(1) m])
  then show "w_db w' = w_db w"
    using run m atomicD [OF assms(2)] by (cases r) auto
qed

text \<open>An atomic effect followed by pure steps that cannot fail.\<close>

lemma atomic_bnd_ret [effect_intros]: "atomic m \<Longrightarrow> atomic (bnd m (\<lambda>x. ret (f x)))"
  by (auto simp: atomic_def bnd_def ret_def split: prod.splits sum.splits)

lemma atomic_transaction [effect_intros]: "atomic (transaction body)"
  unfolding atomic_def
proof (intro allI impI)
  fix w e w'
  assume run: "transaction body w = (Inl e, w')"
  obtain r v where d: "driver w = (r, v)" by (cases "driver w")
  have v: "w_db v = w_db w" by (rule keepsD [OF keeps_base(6) d])
  show "w_db w' = w_db w"
  proof (cases r)
    case (Inl e)
    then show ?thesis using run d v by (auto simp: transaction_def bnd_def)
  next
    case (Inr u)
    obtain r2 v2 where b: "committed body v = (r2, v2)" by (cases "committed body v")
    have "transaction body w = (case (r2, v2) of (Inl e, w') \<Rightarrow> (Inl e, w'\<lparr>w_db := w_db v\<rparr>) | (Inr x, w') \<Rightarrow> (Inr x, w'))"
      unfolding transaction_def bnd_def [of driver] d Inr using b by simp
    with run v show ?thesis by (cases r2) auto
  qed
qed

lemma atomic_on_error [effect_intros]:
  "keeps m \<Longrightarrow> (\<And>e. atomic (h e)) \<Longrightarrow> atomic (on_error m h)"
  unfolding atomic_def on_error_def
  by (auto split: prod.splits sum.splits dest!: keepsD)

lemma atomic_base [effect_intros]:
  "atomic (ret x)" "atomic (fail e)" "atomic (lift r)" "atomic (query f)"
  by (simp_all add: keeps_atomic keeps_base keeps_query)

lemma atomic_if [effect_intros]: "atomic m \<Longrightarrow> atomic n \<Longrightarrow> atomic (if b then m else n)"
  by simp

lemma atomic_option [effect_intros]:
  "atomic m \<Longrightarrow> (\<And>x. atomic (f x)) \<Longrightarrow> atomic (case v of None \<Rightarrow> m | Some x \<Rightarrow> f x)"
  by (cases v) simp_all

lemma atomic_prod [effect_intros]: "(\<And>x y. atomic (f x y)) \<Longrightarrow> atomic (case p of (x, y) \<Rightarrow> f x y)"
  by (cases p) simp

lemma atomic_let [effect_intros]: "(\<And>x. atomic (f x)) \<Longrightarrow> atomic (let x = v in f x)"
  by simp

end
