(* ===== verification/Tables.thy ===== *)
theory Tables
  imports Effects
begin

section \<open>The tables of the vault\<close>

text \<open>
  The five tables that \<open>createSchema\<close> declares, as lists of rows in the order of insertion, and each
  SQL statement of internal/vault/store.go as a function on them. PRIMARY KEY and UNIQUE constraints
  are a relation \<open>clash\<close> between rows of a table; the locale \<open>keyed\<close> proves once that insertion and
  updates that do not touch the keys keep a table free of clashes, and is interpreted for every table.

  Where SQL leaves an order open (rows with equal keys in ORDER BY), the model takes the order of
  insertion; the properties that depend on an order assume distinct keys.
\<close>

definition ErrNoRows :: error where
  "ErrNoRows = Sentinel ''sql: no rows in result set''"

record WrapperRow =
  kw_id :: string
  kw_type :: string
  kw_params :: bytes
  kw_salt :: bytes
  kw_nonce :: bytes
  kw_ciphertext :: bytes
  kw_active :: int
  kw_created_at :: string

record ObjectRow =
  ob_id :: string
  ob_type :: string
  ob_lookup :: string
  ob_nonce :: bytes
  ob_ciphertext :: bytes
  ob_revision :: int
  ob_created_at :: string
  ob_updated_at :: string

record VersionRow =
  vr_id :: string
  vr_secret :: string
  vr_number :: int
  vr_state :: string
  vr_nonce :: bytes
  vr_ciphertext :: bytes
  vr_created_at :: string
  vr_activated_at :: "string option"
  vr_retired_at :: "string option"

record AuditRow =
  ar_id :: string
  ar_json :: bytes
  ar_previous :: "bytes option"
  ar_hmac :: bytes
  ar_created_at :: string

record database =
  db_tables :: "string list"
  db_metadata :: "(string \<times> string) list"
  db_wrappers :: "WrapperRow list"
  db_objects :: "ObjectRow list"
  db_versions :: "VersionRow list"
  db_audit :: "AuditRow list"

definition empty_db :: database where
  "empty_db = \<lparr>db_tables = [], db_metadata = [], db_wrappers = [], db_objects = [], db_versions = [], db_audit = []\<rparr>"

subsection \<open>Constraints\<close>

definition unique_error :: "string \<Rightarrow> error" where
  "unique_error tbl = Errorf (''constraint failed: UNIQUE constraint failed: '' @ tbl)"

definition insert_row :: "('r \<Rightarrow> 'r \<Rightarrow> bool) \<Rightarrow> string \<Rightarrow> 'r \<Rightarrow> 'r list \<Rightarrow> 'r list result" where
  "insert_row clash tbl r rows =
     (if list_ex (clash r) rows then Inl (unique_error tbl) else Inr (rows @ [r]))"

definition update_where :: "('r \<Rightarrow> bool) \<Rightarrow> ('r \<Rightarrow> 'r) \<Rightarrow> 'r list \<Rightarrow> 'r list" where
  "update_where P f rows = map (\<lambda>r. if P r then f r else r) rows"

definition consistent :: "('r \<Rightarrow> 'r \<Rightarrow> bool) \<Rightarrow> 'r list \<Rightarrow> bool" where
  "consistent clash rows \<longleftrightarrow> sorted_wrt (\<lambda>a b. \<not> clash a b) rows"

lemma insert_row_Inr:
  "insert_row clash tbl r rows = Inr rows' \<longleftrightarrow> (\<forall>x\<in>set rows. \<not> clash r x) \<and> rows' = rows @ [r]"
  by (auto simp: insert_row_def list_ex_iff)

lemma filter_head: "filter P xs = y # ys \<Longrightarrow> y \<in> set xs \<and> P y"
  by (induction xs) (auto split: if_splits)

lemma filter_update_where:
  "(\<And>r. P (f r) = P r) \<Longrightarrow> filter P (update_where Q f rows) = update_where Q f (filter P rows)"
  by (induction rows) (auto simp: update_where_def)

lemma filter_update_other:
  "(\<And>r. r \<in> set rows \<Longrightarrow> Q r \<Longrightarrow> \<not> P r \<and> \<not> P (f r)) \<Longrightarrow> filter P (update_where Q f rows) = filter P rows"
  by (induction rows) (auto simp: update_where_def)

lemma update_where_append [simp]: "update_where Q f (xs @ ys) = update_where Q f xs @ update_where Q f ys"
  by (simp add: update_where_def)

lemma update_where_simps [simp]:
  "update_where Q f [] = []" "update_where Q f (x # xs) = (if Q x then f x else x) # update_where Q f xs"
  "length (update_where Q f xs) = length xs" "update_where Q f xs = [] \<longleftrightarrow> xs = []"
  by (simp_all add: update_where_def)

lemma update_where_none: "(\<And>r. r \<in> set rows \<Longrightarrow> \<not> Q r) \<Longrightarrow> update_where Q f rows = rows"
  by (induction rows) simp_all

lemma map_update_where: "(\<And>r. g (f r) = g r) \<Longrightarrow> map g (update_where Q f rows) = map g rows"
  by (induction rows) simp_all

lemma set_update_where: "set (update_where Q f rows) = (\<lambda>r. if Q r then f r else r) ` set rows"
  by (simp add: update_where_def)

locale keyed =
  fixes clash :: "'r \<Rightarrow> 'r \<Rightarrow> bool"
  assumes clash_sym: "clash a b \<Longrightarrow> clash b a"
    and clash_refl: "clash a a"
begin

lemma consistent_Nil: "consistent clash []"
  by (simp add: consistent_def)

lemma insert_consistent:
  "insert_row clash tbl r rows = Inr rows' \<Longrightarrow> consistent clash rows \<Longrightarrow> consistent clash rows'"
  using clash_sym by (auto simp: insert_row_Inr consistent_def sorted_wrt_append)

lemma update_consistent:
  assumes "\<And>a b. clash (f a) (f b) = clash a b" and "\<And>a b. clash (f a) b = clash a b"
    and "\<And>a b. clash a (f b) = clash a b" and "consistent clash rows"
  shows "consistent clash (update_where P f rows)"
  using assms(4) unfolding consistent_def update_where_def sorted_wrt_map
  by (rule sorted_wrt_mono_rel [rotated]) (auto simp: assms(1-3))

lemma consistent_unique:
  "consistent clash rows \<Longrightarrow> a \<in> set rows \<Longrightarrow> b \<in> set rows \<Longrightarrow> clash a b \<Longrightarrow> a = b"
  using clash_sym by (induction rows) (auto simp: consistent_def)

text \<open>A condition that only one row can meet selects at most that row.\<close>

lemma filter_unique:
  assumes "consistent clash rows" and "r \<in> set rows" and "P r" and "\<And>x. P x \<Longrightarrow> clash r x"
  shows "filter P rows = [r]"
  using assms(1,2)
proof (induction rows)
  case (Cons x rows)
  show ?case
  proof (cases "r = x")
    case True
    then have "\<forall>y\<in>set rows. \<not> P y"
      using Cons.prems assms(4) by (auto simp: consistent_def)
    then have "filter P rows = []" by (simp add: filter_empty_conv)
    then show ?thesis using True assms(3) by simp
  next
    case False
    then have "r \<in> set rows" using Cons.prems by simp
    moreover from this have "\<not> P x"
      using Cons.prems assms(4) clash_sym by (auto simp: consistent_def)
    ultimately show ?thesis using Cons by (simp add: consistent_def)
  qed
qed simp

end

definition metadata_clash :: "string \<times> string \<Rightarrow> string \<times> string \<Rightarrow> bool" where
  "metadata_clash a b \<longleftrightarrow> fst a = fst b"

definition wrapper_clash :: "WrapperRow \<Rightarrow> WrapperRow \<Rightarrow> bool" where
  "wrapper_clash a b \<longleftrightarrow> kw_id a = kw_id b"

definition object_clash :: "ObjectRow \<Rightarrow> ObjectRow \<Rightarrow> bool" where
  "object_clash a b \<longleftrightarrow> ob_id a = ob_id b \<or> ob_type a = ob_type b \<and> ob_lookup a = ob_lookup b"

definition version_clash :: "VersionRow \<Rightarrow> VersionRow \<Rightarrow> bool" where
  "version_clash a b \<longleftrightarrow> vr_id a = vr_id b \<or> vr_secret a = vr_secret b \<and> vr_number a = vr_number b"

definition audit_clash :: "AuditRow \<Rightarrow> AuditRow \<Rightarrow> bool" where
  "audit_clash a b \<longleftrightarrow> ar_id a = ar_id b"

interpretation metadata_table: keyed metadata_clash
  by unfold_locales (auto simp: metadata_clash_def)

interpretation wrapper_table: keyed wrapper_clash
  by unfold_locales (auto simp: wrapper_clash_def)

interpretation object_table: keyed object_clash
  by unfold_locales (auto simp: object_clash_def)

interpretation version_table: keyed version_clash
  by unfold_locales (auto simp: version_clash_def)

interpretation audit_table: keyed audit_clash
  by unfold_locales (auto simp: audit_clash_def)

subsection \<open>Statements\<close>

definition on_table :: "string \<Rightarrow> database \<Rightarrow> 'a result \<Rightarrow> 'a result" where
  "on_table tbl d r = (if tbl \<in> set (db_tables d) then r else Inl (Errorf (''no such table: '' @ tbl)))"

definition first_row :: "'r list \<Rightarrow> 'r result" where
  "first_row rows = (case rows of [] \<Rightarrow> Inl ErrNoRows | r # _ \<Rightarrow> Inr r)"

text \<open>ORDER BY a key DESC LIMIT 1: the first of the rows with the greatest key.\<close>

definition latest :: "('r \<Rightarrow> 'k::linorder) \<Rightarrow> 'r list \<Rightarrow> 'r result" where
  "latest key rows =
     (case rows of
        [] \<Rightarrow> Inl ErrNoRows
      | r # rs \<Rightarrow> Inr (foldl (\<lambda>best x. if key best < key x then x else best) r rs))"

definition create_table :: "string \<Rightarrow> database \<Rightarrow> (unit \<times> database) result" where
  "create_table tbl d =
     (if tbl \<in> set (db_tables d) then Inl (Errorf (''table '' @ tbl @ '' already exists''))
      else Inr ((), d\<lparr>db_tables := db_tables d @ [tbl]\<rparr>))"

definition insert_metadata :: "string \<Rightarrow> string \<Rightarrow> database \<Rightarrow> (unit \<times> database) result" where
  "insert_metadata k v d = on_table ''vault_metadata'' d
     (and_then (insert_row metadata_clash ''vault_metadata'' (k, v) (db_metadata d))
        (\<lambda>rows. Inr ((), d\<lparr>db_metadata := rows\<rparr>)))"

definition insert_wrapper :: "WrapperRow \<Rightarrow> database \<Rightarrow> (unit \<times> database) result" where
  "insert_wrapper r d = on_table ''key_wrappers'' d
     (and_then (insert_row wrapper_clash ''key_wrappers'' r (db_wrappers d))
        (\<lambda>rows. Inr ((), d\<lparr>db_wrappers := rows\<rparr>)))"

definition insert_object :: "ObjectRow \<Rightarrow> database \<Rightarrow> (unit \<times> database) result" where
  "insert_object r d = on_table ''encrypted_objects'' d
     (and_then (insert_row object_clash ''encrypted_objects'' r (db_objects d))
        (\<lambda>rows. Inr ((), d\<lparr>db_objects := rows\<rparr>)))"

text \<open>The column \<open>secret_id\<close> references \<open>encrypted_objects\<close>, and \<open>foreign_keys\<close> is on.\<close>

definition insert_version :: "VersionRow \<Rightarrow> database \<Rightarrow> (unit \<times> database) result" where
  "insert_version r d = on_table ''secret_versions'' d
     (and_then (insert_row version_clash ''secret_versions'' r (db_versions d))
        (\<lambda>rows. if vr_secret r \<in> ob_id ` set (db_objects d)
           then Inr ((), d\<lparr>db_versions := rows\<rparr>) else Inl (Errorf ''constraint failed: FOREIGN KEY constraint failed'')))"

definition insert_audit :: "AuditRow \<Rightarrow> database \<Rightarrow> (unit \<times> database) result" where
  "insert_audit r d = on_table ''audit_events'' d
     (and_then (insert_row audit_clash ''audit_events'' r (db_audit d))
        (\<lambda>rows. Inr ((), d\<lparr>db_audit := rows\<rparr>)))"

definition select_metadata :: "string \<Rightarrow> database \<Rightarrow> string result" where
  "select_metadata k d = on_table ''vault_metadata'' d
     (and_then (first_row (filter (\<lambda>p. fst p = k) (db_metadata d))) (\<lambda>p. Inr (snd p)))"

definition select_wrapper :: "database \<Rightarrow> WrapperRow result" where
  "select_wrapper d = on_table ''key_wrappers'' d
     (latest kw_created_at (filter (\<lambda>r. kw_type r = ''password-argon2id'' \<and> kw_active r = 1) (db_wrappers d)))"

definition select_object :: "string \<Rightarrow> string \<Rightarrow> database \<Rightarrow> ObjectRow result" where
  "select_object ty tok d = on_table ''encrypted_objects'' d
     (first_row (filter (\<lambda>r. ob_type r = ty \<and> ob_lookup r = tok) (db_objects d)))"

definition select_object_id :: "string \<Rightarrow> database \<Rightarrow> ObjectRow result" where
  "select_object_id i d = on_table ''encrypted_objects'' d
     (first_row (filter (\<lambda>r. ob_id r = i) (db_objects d)))"

definition select_objects :: "string \<Rightarrow> database \<Rightarrow> ObjectRow list result" where
  "select_objects ty d = on_table ''encrypted_objects'' d
     (Inr (filter (\<lambda>r. ob_type r = ty) (db_objects d)))"

definition select_active :: "string \<Rightarrow> database \<Rightarrow> VersionRow result" where
  "select_active i d = on_table ''secret_versions'' d
     (latest vr_number (filter (\<lambda>r. vr_secret r = i \<and> vr_state r = ''active'') (db_versions d)))"

text \<open>\<open>UPDATE secret_versions SET state=?, retired_at=? WHERE secret_id=? AND state='active'\<close>.\<close>

definition update_retire :: "string \<Rightarrow> string \<Rightarrow> string \<Rightarrow> database \<Rightarrow> (unit \<times> database) result" where
  "update_retire st at i d = on_table ''secret_versions'' d
     (Inr ((), d\<lparr>db_versions := update_where (\<lambda>r. vr_secret r = i \<and> vr_state r = ''active'')
        (\<lambda>r. r\<lparr>vr_state := st, vr_retired_at := Some at\<rparr>) (db_versions d)\<rparr>))"

definition update_activate :: "string \<Rightarrow> string \<Rightarrow> database \<Rightarrow> (unit \<times> database) result" where
  "update_activate at vid d = on_table ''secret_versions'' d
     (Inr ((), d\<lparr>db_versions := update_where (\<lambda>r. vr_id r = vid)
        (\<lambda>r. r\<lparr>vr_state := ''active'', vr_activated_at := Some at\<rparr>) (db_versions d)\<rparr>))"

text \<open>The update of an object, with the rows it affects counted.\<close>

definition update_object :: "(ObjectRow \<Rightarrow> bool) \<Rightarrow> bytes \<Rightarrow> bytes \<Rightarrow> int \<Rightarrow> string \<Rightarrow> database \<Rightarrow> (nat \<times> database) result" where
  "update_object P nonce ct newrev at d = on_table ''encrypted_objects'' d
     (Inr (length (filter P (db_objects d)), d\<lparr>db_objects := update_where P
        (\<lambda>r. r\<lparr>ob_nonce := nonce, ob_ciphertext := ct, ob_revision := newrev, ob_updated_at := at\<rparr>) (db_objects d)\<rparr>))"

definition select_last_hmac :: "database \<Rightarrow> bytes result" where
  "select_last_hmac d = on_table ''audit_events'' d
     (and_then (latest ar_created_at (db_audit d)) (\<lambda>r. Inr (ar_hmac r)))"

definition select_audit :: "database \<Rightarrow> AuditRow list result" where
  "select_audit d = on_table ''audit_events'' d (Inr (sort_key ar_created_at (db_audit d)))"

end
