(* ===== verification/VaultKeys.thy ===== *)
theory VaultKeys
  imports Model Tables
begin

unbundle bit_operations_syntax

section \<open>Keys and life cycle of the vault (internal/vault/store.go)\<close>

text \<open>
  A vault is a database file whose data key (DEK) is sealed under a key derived from the master
  password. This theory models the store and its keys: \<open>Initialize\<close>, \<open>Open\<close>, \<open>Unlock\<close>, \<open>Lock\<close>,
  \<open>VerifyPassword\<close>, the associated data that binds every sealed text to its place, and the
  identifiers. A \<open>Store\<close> is the Go struct without its mutex and its connection: methods take it as an
  argument, and the ones that assign to its fields return the new one.
\<close>

definition schemaVersion :: string where
  "schemaVersion = ''2''"

definition ErrLocked :: error where
  "ErrLocked = Sentinel ''vault is locked''"

definition ErrAlreadyExists :: error where
  "ErrAlreadyExists = Sentinel ''object already exists''"

definition ErrNotFound :: error where
  "ErrNotFound = Sentinel ''object not found''"

definition ErrInvalidPassword :: error where
  "ErrInvalidPassword = Sentinel ''master password is incorrect or vault wrapper is damaged''"

record keySet =
  ks_dek :: bytes
  ks_metadata :: bytes
  ks_lookup :: bytes
  ks_audit :: bytes

record Store =
  st_path :: string
  st_vaultID :: string
  st_keys :: "keySet option"

type_synonym 'a vault = "(database, 'a) eff"

subsection \<open>Associated data, lookups and identifiers\<close>

definition wrapperAAD :: "string \<Rightarrow> bytes" where
  "wrapperAAD vaultID = bytes_of (''vcsm:dek:v1:'' @ vaultID)"

definition objectAAD :: "string \<Rightarrow> string \<Rightarrow> int \<Rightarrow> bytes" where
  "objectAAD kind i revision = bytes_of (''vcsm:object:v1:'' @ kind @ '':'' @ i @ '':'' @ dec_int revision)"

definition secretAAD :: "string \<Rightarrow> int \<Rightarrow> bytes" where
  "secretAAD i version = bytes_of (''vcsm:secret:v1:'' @ i @ '':'' @ dec_int version)"

definition secretLookup :: "prims \<Rightarrow> bytes \<Rightarrow> string \<Rightarrow> string \<Rightarrow> string \<Rightarrow> string" where
  "secretLookup P key project environment name = LookupToken P key [''secret'', project, environment, name]"

definition actionLookup :: "prims \<Rightarrow> bytes \<Rightarrow> string \<Rightarrow> string \<Rightarrow> string \<Rightarrow> string" where
  "actionLookup P key project environment name = LookupToken P key [''action'', project, environment, name]"

definition id_bits :: "bytes \<Rightarrow> bytes" where
  "id_bits val =
     (let val = val[6 := (val ! 6 AND 0x0f) OR 0x40]
      in val[8 := (val ! 8 AND 0x3f) OR 0x80])"

definition format_id :: "bytes \<Rightarrow> string" where
  "format_id val =
     (let h = hex_encode (id_bits val)
      in take 8 h @ ''-'' @ take 4 (drop 8 h) @ ''-'' @ take 4 (drop 12 h) @ ''-''
         @ take 4 (drop 16 h) @ ''-'' @ drop 20 h)"

definition randomID :: "bytes \<Rightarrow> string result \<times> bytes" where
  "randomID tape =
     (case rand_read 16 tape of
        (Inl err, tape') \<Rightarrow> (Inl err, tape')
      | (Inr val, tape') \<Rightarrow> (Inr (format_id val), tape'))"

lemma randomID_Inr:
  "randomID tape = (Inr i, tape') \<longleftrightarrow> 16 \<le> length tape \<and> i = format_id (take 16 tape) \<and> tape' = drop 16 tape"
  by (auto simp: randomID_def rand_read_def)

lemma RandomBytes_Inr:
  "RandomBytes n tape = (Inr b, tape') \<longleftrightarrow> n \<le> length tape \<and> b = take n tape \<and> tape' = drop n tape"
  by (auto simp: RandomBytes_def rand_read_def)

subsection \<open>Locking and unlocking\<close>

definition expand_keys :: "prims \<Rightarrow> bytes \<Rightarrow> keySet result" where
  "expand_keys P dek =
     and_then (ExpandKey P dek ''metadata'') (\<lambda>metadata.
     and_then (ExpandKey P dek ''lookup'') (\<lambda>lookup.
     and_then (ExpandKey P dek ''audit'') (\<lambda>audit.
     Inr \<lparr>ks_dek = dek, ks_metadata = metadata, ks_lookup = lookup, ks_audit = audit\<rparr>)))"

definition installKeysLocked :: "prims \<Rightarrow> bytes \<Rightarrow> Store \<Rightarrow> Store result" where
  "installKeysLocked P dek s =
     and_then (expand_keys P dek) (\<lambda>keys. Inr (s\<lparr>st_keys := Some keys\<rparr>))"

definition unwrapDEK :: "prims \<Rightarrow> Store \<Rightarrow> bytes \<Rightarrow> bytes vault" where
  "unwrapDEK P s password =
     bnd (wrap_error ''read password wrapper: '' (query select_wrapper)) (\<lambda>wrapper.
     bnd (wrap_error ''parse password wrapper: '' (lift (unmarshal_KDFParams (kw_params wrapper)))) (\<lambda>params.
     bnd (lift (DeriveKEK P password (kw_salt wrapper) params)) (\<lambda>kek.
     bnd (lift (ExpandKey P kek ''password-wrapper'')) (\<lambda>wrapKey.
     on_error (lift (Open P wrapKey (kw_nonce wrapper) (kw_ciphertext wrapper) (wrapperAAD (st_vaultID s))))
       (\<lambda>_. fail ErrInvalidPassword)))))"

definition Unlock :: "prims \<Rightarrow> Store \<Rightarrow> bytes \<Rightarrow> Store vault" where
  "Unlock P s password =
     (if st_keys s \<noteq> None then ret s
      else bnd (unwrapDEK P s password) (\<lambda>dek. lift (installKeysLocked P dek s)))"

definition VerifyPassword :: "prims \<Rightarrow> Store \<Rightarrow> bytes \<Rightarrow> unit vault" where
  "VerifyPassword P s password = bnd (unwrapDEK P s password) (\<lambda>_. ret ())"

definition keySet_zero :: "keySet \<Rightarrow> keySet" where
  "keySet_zero k = \<lparr>ks_dek = Zero (ks_dek k), ks_metadata = Zero (ks_metadata k),
     ks_lookup = Zero (ks_lookup k), ks_audit = Zero (ks_audit k)\<rparr>"

text \<open>\<open>Lock\<close>: what is left in the buffers of the keys, and the store.\<close>

definition Lock :: "Store \<Rightarrow> keySet option \<times> Store" where
  "Lock s =
     (case st_keys s of
        None \<Rightarrow> (None, s)
      | Some keys \<Rightarrow> (Some (keySet_zero keys), s\<lparr>st_keys := None\<rparr>))"

definition IsUnlocked :: "Store \<Rightarrow> bool" where
  "IsUnlocked s \<longleftrightarrow> st_keys s \<noteq> None"

definition Close :: "Store \<Rightarrow> Store" where
  "Close s = snd (Lock s)"

definition copyKeys :: "Store \<Rightarrow> keySet result" where
  "copyKeys s = (case st_keys s of None \<Rightarrow> Inl ErrLocked | Some keys \<Rightarrow> Inr keys)"

subsection \<open>Creating and opening a vault\<close>

text \<open>The file of the vault: absent, or a database.\<close>

type_synonym disk = "database option"

text \<open>Statements on the database of the file.\<close>

definition on_file :: "(database, 'a) eff \<Rightarrow> (disk, 'a) eff" where
  "on_file m w =
     (case w_db w of
        None \<Rightarrow> (Inl (Errorf ''unable to open database file''), w)
      | Some d \<Rightarrow>
          (case m \<lparr>w_tape = w_tape w, w_clock = w_clock w, w_ticks = w_ticks w, w_faults = w_faults w, w_db = d\<rparr> of
             (r, w') \<Rightarrow> (r, \<lparr>w_tape = w_tape w', w_clock = w_clock w', w_ticks = w_ticks w',
                           w_faults = w_faults w', w_db = Some (w_db w')\<rparr>)))"

definition os_Stat :: "(disk, bool) eff" where
  "os_Stat = query (\<lambda>d. Inr (d \<noteq> None))"

definition os_Remove :: "(disk, unit) eff" where
  "os_Remove = exec (\<lambda>_. Inr ((), None))"

text \<open>\<open>sql.Open\<close> only prepares the connection; \<open>Ping\<close> makes it, and creates the file.\<close>

definition openDatabase :: "string \<Rightarrow> (disk, Store) eff" where
  "openDatabase path =
     bnd (wrap_error ''open sqlite vault: '' driver) (\<lambda>_.
     bnd (wrap_error ''initialize sqlite vault: ''
            (exec (\<lambda>d. Inr ((), case d of None \<Rightarrow> Some empty_db | Some _ \<Rightarrow> d)))) (\<lambda>_.
     ret \<lparr>st_path = path, st_vaultID = [], st_keys = None\<rparr>))"

primrec create_tables :: "string list \<Rightarrow> unit vault" where
  "create_tables [] = ret ()"
| "create_tables (t # ts) =
     bnd (wrap_error ''create vault schema: '' (exec (create_table t))) (\<lambda>_. create_tables ts)"

definition schema :: "string list" where
  "schema = [''vault_metadata'', ''key_wrappers'', ''encrypted_objects'', ''secret_versions'', ''audit_events'']"

definition createSchema :: "unit vault" where
  "createSchema = transaction (create_tables schema)"

primrec insert_all_metadata :: "(string \<times> string) list \<Rightarrow> unit vault" where
  "insert_all_metadata [] = ret ()"
| "insert_all_metadata (p # ps) =
     bnd (exec (insert_metadata (fst p) (snd p))) (\<lambda>_. insert_all_metadata ps)"

definition write_wrapper :: "string \<Rightarrow> KDFParams \<Rightarrow> bytes \<Rightarrow> bytes \<Rightarrow> bytes \<Rightarrow> unit vault" where
  "write_wrapper vaultID params salt nonce ciphertext =
     transaction (
       bnd time_now (\<lambda>created.
       bnd (insert_all_metadata [(''schema_version'', schemaVersion), (''vault_id'', vaultID),
              (''created_at'', stamp created)]) (\<lambda>_.
       bnd time_now (\<lambda>now.
       exec (insert_wrapper \<lparr>kw_id = ''password-primary'', kw_type = ''password-argon2id'',
         kw_params = marshal_KDFParams params, kw_salt = salt, kw_nonce = nonce,
         kw_ciphertext = ciphertext, kw_active = 1, kw_created_at = stamp now\<rparr>)))))"

definition initialize_store :: "prims \<Rightarrow> bytes \<Rightarrow> KDFParams \<Rightarrow> Store \<Rightarrow> (disk, Store) eff" where
  "initialize_store P password params store =
     bnd (on_file createSchema) (\<lambda>_.
     bnd (random randomID) (\<lambda>vaultID.
     bnd (random (RandomBytes KeySize)) (\<lambda>dek.
     bnd (random (RandomBytes SaltSize)) (\<lambda>salt.
     bnd (lift (DeriveKEK P password salt params)) (\<lambda>kek.
     bnd (lift (ExpandKey P kek ''password-wrapper'')) (\<lambda>wrapKey.
     bnd (random (Seal P wrapKey dek (wrapperAAD vaultID))) (\<lambda>(nonce, ciphertext).
     bnd (on_file (write_wrapper vaultID params salt nonce ciphertext)) (\<lambda>_.
     bnd (wrap_error ''secure vault permissions: '' driver) (\<lambda>_.
     lift (installKeysLocked P dek (store\<lparr>st_vaultID := vaultID\<rparr>)))))))))))"

definition Initialize :: "prims \<Rightarrow> string \<Rightarrow> bytes \<Rightarrow> KDFParams \<Rightarrow> (disk, Store) eff" where
  "Initialize P path password params =
     (case ValidateKDFParams params of
        Some err \<Rightarrow> fail err
      | None \<Rightarrow>
          bnd os_Stat (\<lambda>exists.
          if exists then fail (Errorf (''vault already exists at '' @ path))
          else bnd (wrap_error ''create vault directory: '' driver) (\<lambda>_.
          bnd (openDatabase path) (\<lambda>store.
          on_error (initialize_store P password params store)
            (\<lambda>err. on_error (bnd os_Remove (\<lambda>_. fail err)) (\<lambda>_. fail err))))))"

definition OpenVault :: "string \<Rightarrow> (disk, Store) eff" where
  "OpenVault path =
     bnd (wrap_error ''open vault: '' os_Stat) (\<lambda>exists.
     if \<not> exists then fail (Wrap ''open vault: '' (Sentinel ''file does not exist''))
     else bnd (openDatabase path) (\<lambda>store.
     bnd (wrap_error ''read vault schema: '' (on_file (query (select_metadata ''schema_version'')))) (\<lambda>version.
     if version \<noteq> schemaVersion
     then fail (Errorf (''unsupported vault schema '' @ go_quote version))
     else bnd (wrap_error ''read vault id: '' (on_file (query (select_metadata ''vault_id'')))) (\<lambda>vaultID.
     ret (store\<lparr>st_vaultID := vaultID\<rparr>)))))"

subsection \<open>Identifiers\<close>

lemma fresh_or_given:
  assumes "(if x = [] then random randomID else ret x) w = (Inr i, w')"
  shows "x = [] \<Longrightarrow> \<exists>b. length b = 16 \<and> i = format_id b" and "x \<noteq> [] \<Longrightarrow> i = x"
    and "w_db w' = w_db w \<and> w_clock w' = w_clock w \<and> w_ticks w' = w_ticks w \<and> w_faults w' = w_faults w"
proof -
  show "\<exists>b. length b = 16 \<and> i = format_id b" if "x = []"
  proof -
    have "16 \<le> length (w_tape w)" "i = format_id (take 16 (w_tape w))"
      using assms that by (auto simp: effect_inr randomID_Inr)
    then show ?thesis by (intro exI [of _ "take 16 (w_tape w)"]) simp
  qed
  show "i = x" if "x \<noteq> []" using assms that by (simp add: effect_inr)
  show "w_db w' = w_db w \<and> w_clock w' = w_clock w \<and> w_ticks w' = w_ticks w \<and> w_faults w' = w_faults w"
    using assms by (cases "x = []") (auto simp: effect_inr)
qed

lemma length_id_bits [simp]: "length (id_bits b) = length b"
  by (simp add: id_bits_def)

lemma ascii_hex_encode: "ascii (hex_encode bs)"
  using hex_encode_digits [of _ bs] by (fastforce simp: ascii_def list_all_iff of_char_hex_digit)

lemma ascii_take_drop: "ascii s \<Longrightarrow> ascii (take n s)" "ascii s \<Longrightarrow> ascii (drop n s)"
  by (auto simp: ascii_def list_all_iff dest: in_set_takeD in_set_dropD)

lemma ascii_format_id: "ascii (format_id b)"
proof -
  have "ascii ''-''" by (simp add: ascii_def)
  then show ?thesis
    by (simp add: format_id_def Let_def ascii_hex_encode ascii_take_drop del: append_Cons append_Nil)
qed

lemma format_id_utf8 [simp]: "valid_utf8 (format_id b)"
  by (rule ascii_valid_utf8 [OF ascii_format_id])

lemma length_format_id: "length b = 16 \<Longrightarrow> length (format_id b) = 36"
  by (simp add: format_id_def Let_def)

lemma format_id_nonempty: "length b = 16 \<Longrightarrow> format_id b \<noteq> []"
  using length_format_id by fastforce

text \<open>An identifier determines the bits it is made of.\<close>

lemma format_id_inject:
  assumes "length a = 16" and "length b = 16"
  shows "format_id a = format_id b \<longleftrightarrow> id_bits a = id_bits b"
proof
  assume eq: "format_id a = format_id b"
  have h: "hex_encode (id_bits x) = take 8 (format_id x) @ take 4 (drop 9 (format_id x)) @ take 4 (drop 14 (format_id x))
      @ take 4 (drop 19 (format_id x)) @ drop 24 (format_id x)" if "length x = 16" for x
  proof -
    let ?h = "hex_encode (id_bits x)"
    have "length ?h = 32" using that by simp
    have cut: "drop n ?h = take k (drop n ?h) @ drop (n + k) ?h" for n k
      by (metis add.commute append_take_drop_id drop_drop)
    have "?h = take 8 ?h @ take 4 (drop 8 ?h) @ take 4 (drop 12 ?h) @ take 4 (drop 16 ?h) @ drop 20 ?h"
      using cut [of 0 8] cut [of 8 4] cut [of 12 4] cut [of 16 4] by simp
    then show ?thesis using \<open>length ?h = 32\<close> by (simp add: format_id_def Let_def)
  qed
  from h [OF assms(1)] h [OF assms(2)] eq show "id_bits a = id_bits b"
    by (metis hex.enc_inject)
qed (simp add: format_id_def)

lemma format_id_neq:
  assumes "length a = 16" and "length b = 16" and "a ! 0 \<noteq> b ! 0"
  shows "format_id a \<noteq> format_id b"
proof -
  have "id_bits x ! 0 = x ! 0" for x by (simp add: id_bits_def Let_def)
  with assms show ?thesis by (metis format_id_inject)
qed

end
