(* ===== verification/AuditLog.thy ===== *)
theory AuditLog
  imports VaultKeys
begin

section \<open>The audit log (internal/vault/store.go: appendAudit, RecordAudit, ListAudit)\<close>

text \<open>
  Events form a chain: each row holds the MAC of the row before and a MAC over that and the event.
  \<open>appendAudit\<close> finds the row before, and \<open>ListAudit\<close> walks the rows, in the order of the text
  column \<open>created_at\<close>. The lemmas show that a log whose texts increase is accepted and listed newest
  first, that appending keeps it so, that what is accepted determines its events up to a collision
  of the MAC, and what happens when the order of the texts is not the order of the events.
\<close>

definition stored :: "bytes option \<Rightarrow> bytes" where
  "stored x = (case x of None \<Rightarrow> [] | Some b \<Rightarrow> b)"

lemma stored_simps [simp]: "stored None = []" "stored (Some b) = b"
  by (simp_all add: stored_def)

definition last_hmac :: "bytes option vault" where
  "last_hmac =
     on_error (bnd (query select_last_hmac) (\<lambda>h. ret (Some h)))
       (\<lambda>err. if error_is err ErrNoRows then ret None else fail err)"

definition audit_row :: "prims \<Rightarrow> bytes \<Rightarrow> AuditEvent \<Rightarrow> bytes option \<Rightarrow> bytes \<Rightarrow> AuditRow" where
  "audit_row P key event previous encoded =
     \<lparr>ar_id = ae_id event, ar_json = encoded, ar_previous = previous,
      ar_hmac = hmac P key (stored previous @ encoded), ar_created_at = stamp (ae_timestamp event)\<rparr>"

definition appendAudit :: "prims \<Rightarrow> bytes \<Rightarrow> AuditEvent \<Rightarrow> unit vault" where
  "appendAudit P key event =
     bnd (if ae_id event = [] then random randomID else ret (ae_id event)) (\<lambda>i.
     bnd (if ae_timestamp event = zero_time then time_now else ret (ae_timestamp event)) (\<lambda>timestamp.
     let event = event\<lparr>ae_id := i, ae_timestamp := timestamp\<rparr> in
     bnd (lift (marshal_audit event)) (\<lambda>encoded.
     bnd last_hmac (\<lambda>previous.
     exec (insert_audit (audit_row P key event previous encoded))))))"

definition RecordAudit :: "prims \<Rightarrow> Store \<Rightarrow> AuditEvent \<Rightarrow> unit vault" where
  "RecordAudit P s event =
     bnd (lift (copyKeys s)) (\<lambda>keys. transaction (appendAudit P (ks_audit keys) event))"

definition chain_error :: error where
  "chain_error = Errorf ''audit chain is inconsistent''"

definition auth_error :: error where
  "auth_error = Errorf ''audit event authentication failed''"

fun check_chain :: "prims \<Rightarrow> bytes \<Rightarrow> bytes \<Rightarrow> AuditRow list \<Rightarrow> AuditEvent list result" where
  "check_chain P key previous [] = Inr []"
| "check_chain P key previous (r # rs) =
     (if stored (ar_previous r) \<noteq> previous then Inl chain_error
      else if ar_hmac r \<noteq> hmac P key (previous @ ar_json r) then Inl auth_error
      else and_then (unmarshal_audit (ar_json r)) (\<lambda>event.
           and_then (check_chain P key (ar_hmac r) rs) (\<lambda>events. Inr (event # events))))"

definition ListAudit :: "prims \<Rightarrow> Store \<Rightarrow> int \<Rightarrow> AuditEvent list vault" where
  "ListAudit P s limit =
     bnd (lift (copyKeys s)) (\<lambda>keys.
     let n = nat (if limit \<le> 0 \<or> limit > 1000 then 100 else limit) in
     bnd (query select_audit) (\<lambda>rows.
     bnd (lift (check_chain P (ks_audit keys) [] rows)) (\<lambda>events.
     bnd driver (\<lambda>_.
     ret (rev (if length events > n then drop (length events - n) events else events))))))"

subsection \<open>Frame facts\<close>

lemma keeps_last_hmac [effect_intros]: "keeps last_hmac"
  unfolding last_hmac_def by (intro effect_intros)

lemma keeps_ListAudit [effect_intros]: "keeps (ListAudit P s limit)"
  unfolding ListAudit_def by (intro effect_intros)

lemma atomic_RecordAudit [effect_intros]: "atomic (RecordAudit P s event)"
  unfolding RecordAudit_def by (intro effect_intros)

lemma on_table_Inr: "on_table tbl d r = Inr x \<longleftrightarrow> tbl \<in> set (db_tables d) \<and> r = Inr x"
  by (simp add: on_table_def)

lemma latest_Inl: "latest key rows = Inl e \<longleftrightarrow> rows = [] \<and> e = ErrNoRows"
  by (auto simp: latest_def split: list.splits)

lemma latest_Nil [simp]: "latest key [] = Inl ErrNoRows"
  by (simp add: latest_def)

lemma foldl_latest:
  "foldl (\<lambda>best x. if key best < key x then x else best) r rs \<in> set (r # rs)
   \<and> (\<forall>x\<in>set (r # rs). key x \<le> (key (foldl (\<lambda>best x. if key best < key x then x else best) r rs) :: 'k :: linorder))"
proof (induction rs arbitrary: r)
  case (Cons y ys)
  show ?case using Cons.IH [of "if key r < key y then y else r"] by (fastforce split: if_splits)
qed simp

lemma latest_Inr_max:
  "latest key rows = Inr r \<Longrightarrow> r \<in> set rows \<and> (\<forall>x\<in>set rows. key x \<le> (key r :: 'k :: linorder))"
  using foldl_latest [of key] by (auto simp: latest_def split: list.splits)

text \<open>With increasing keys, the latest row is the last.\<close>

lemma latest_sorted:
  assumes "sorted_wrt (<) (map key (rows @ [r]))"
  shows "latest key (rows @ [r]) = Inr (r :: 'r) "
proof -
  obtain m where m: "latest key (rows @ [r]) = Inr m"
    by (cases rows) (simp_all add: latest_def)
  have "m \<in> set (rows @ [r])" "key r \<le> key m" using latest_Inr_max [OF m] by auto
  moreover have "\<forall>x\<in>set rows. key x < key r" using assms by (auto simp: sorted_wrt_append)
  ultimately show ?thesis using m by (auto simp: not_less [symmetric])
qed

text \<open>What a successful \<open>appendAudit\<close> did: one more row, linked to the latest.\<close>

definition last_stored :: "AuditRow list \<Rightarrow> bytes option" where
  "last_stored rows = (case latest ar_created_at rows of Inl _ \<Rightarrow> None | Inr r \<Rightarrow> Some (ar_hmac r))"

lemma last_hmac_Inr:
  assumes "last_hmac w = (Inr p, w')"
  shows "p = last_stored (db_audit (w_db w)) \<and> w_db w' = w_db w"
proof
  show "w_db w' = w_db w" by (rule keepsD [OF keeps_last_hmac assms])
  consider h where "query select_last_hmac w = (Inr h, w')" "p = Some h"
    | e v where "query select_last_hmac w = (Inl e, v)" "error_is e ErrNoRows" "p = None"
    using assms unfolding last_hmac_def
    by (auto simp: on_error_Inr effect_inr bnd_def fail_def ret_def split: sum.splits prod.splits if_splits)
  then show "p = last_stored (db_audit (w_db w))"
  proof cases
    case 1
    then show ?thesis
      by (auto simp: effect_inr select_last_hmac_def on_table_Inr and_then_Inr last_stored_def)
  next
    case 2
    have "select_last_hmac (w_db w) = Inl ErrNoRows"
      using query_Inl [OF 2(1)] 2(2)
      by (auto simp: select_last_hmac_def on_table_def and_then_def latest_def ErrNoRows_def
          split: if_splits sum.splits list.splits)
    then have "latest ar_created_at (db_audit (w_db w)) = Inl ErrNoRows"
      by (auto simp: select_last_hmac_def on_table_def and_then_def ErrNoRows_def split: if_splits sum.splits)
    then show ?thesis using 2 by (simp add: last_stored_def)
  qed
qed

definition completed :: "AuditEvent \<Rightarrow> AuditEvent \<Rightarrow> bool" where
  "completed event event' \<longleftrightarrow>
     (\<exists>i t. event' = event\<lparr>ae_id := i, ae_timestamp := t\<rparr> \<and> (ae_id event \<noteq> [] \<longrightarrow> i = ae_id event)
       \<and> (ae_timestamp event \<noteq> zero_time \<longrightarrow> t = ae_timestamp event))"

lemma appendAudit_Inr:
  assumes "appendAudit P key event w = (Inr u, w')"
  obtains event' encoded where
    "completed event event'" "marshal_audit event' = Inr encoded"
    "ae_id event = [] \<longrightarrow> (\<exists>b. length b = 16 \<and> ae_id event' = format_id b)"
    "ae_timestamp event = zero_time \<longrightarrow> ae_timestamp event' = w_clock w (w_ticks w)"
    "w_db w' = (w_db w)\<lparr>db_audit := db_audit (w_db w)
       @ [audit_row P key event' (last_stored (db_audit (w_db w))) encoded]\<rparr>"
    "''audit_events'' \<in> set (db_tables (w_db w))"
proof -
  obtain i w1 where i: "(if ae_id event = [] then random randomID else ret (ae_id event)) w = (Inr i, w1)"
    and rest1: "bnd (if ae_timestamp event = zero_time then time_now else ret (ae_timestamp event)) (\<lambda>timestamp.
       let event = event\<lparr>ae_id := i, ae_timestamp := timestamp\<rparr> in
       bnd (lift (marshal_audit event)) (\<lambda>encoded. bnd last_hmac (\<lambda>previous.
       exec (insert_audit (audit_row P key event previous encoded))))) w1 = (Inr u, w')"
    using assms unfolding appendAudit_def by (auto simp: bnd_Inr)
  note id_fresh = fresh_or_given(1) [OF i] and id_given = fresh_or_given(2) [OF i]
  have w1: "w_db w1 = w_db w" "w_clock w1 = w_clock w" "w_ticks w1 = w_ticks w"
    using fresh_or_given(3) [OF i] by simp_all
  obtain t w2 where t: "(if ae_timestamp event = zero_time then time_now else ret (ae_timestamp event)) w1 = (Inr t, w2)"
    and rest2: "bnd (lift (marshal_audit (event\<lparr>ae_id := i, ae_timestamp := t\<rparr>))) (\<lambda>encoded. bnd last_hmac (\<lambda>previous.
       exec (insert_audit (audit_row P key (event\<lparr>ae_id := i, ae_timestamp := t\<rparr>) previous encoded)))) w2 = (Inr u, w')"
    using rest1 by (auto simp: bnd_Inr Let_def)
  have time: "ae_timestamp event = zero_time \<Longrightarrow> t = w_clock w (w_ticks w)"
    and time_given: "ae_timestamp event \<noteq> zero_time \<Longrightarrow> t = ae_timestamp event" and w2: "w_db w2 = w_db w"
    using t w1 by (auto simp: effect_inr split: if_splits)
  let ?e = "event\<lparr>ae_id := i, ae_timestamp := t\<rparr>"
  obtain encoded previous w3 where e: "marshal_audit ?e = Inr encoded" and l: "last_hmac w2 = (Inr previous, w3)"
    and x: "exec (insert_audit (audit_row P key ?e previous encoded)) w3 = (Inr u, w')"
    using rest2 by (auto simp: effect_inr)
  have "previous = last_stored (db_audit (w_db w))" "w_db w3 = w_db w"
    using last_hmac_Inr [OF l] w2 by simp_all
  with x have "w_db w' = (w_db w)\<lparr>db_audit := db_audit (w_db w)
       @ [audit_row P key ?e (last_stored (db_audit (w_db w))) encoded]\<rparr>"
    "''audit_events'' \<in> set (db_tables (w_db w))"
    by (auto simp: effect_inr insert_audit_def on_table_Inr and_then_Inr insert_row_Inr)
  moreover have "completed event ?e" using id_given time_given by (auto simp: completed_def)
  ultimately show thesis using that [OF _ e] id_fresh time by simp
qed

subsection \<open>The chain\<close>

definition final_hmac :: "bytes \<Rightarrow> AuditRow list \<Rightarrow> bytes" where
  "final_hmac previous rows = foldl (\<lambda>_ r. ar_hmac r) previous rows"

lemma final_hmac_simps [simp]:
  "final_hmac p [] = p" "final_hmac p (r # rs) = final_hmac (ar_hmac r) rs" "final_hmac p (rs @ [r]) = ar_hmac r"
  by (simp_all add: final_hmac_def)

lemma check_chain_append:
  "check_chain P key p (rows @ rows') =
     and_then (check_chain P key p rows) (\<lambda>es.
     and_then (check_chain P key (final_hmac p rows) rows') (\<lambda>es'. Inr (es @ es')))"
proof (induction rows arbitrary: p)
  case Nil
  show ?case by (cases "check_chain P key p rows'") simp_all
next
  case (Cons r rows)
  show ?case by (simp add: Cons and_then_assoc)
qed

lemma check_chain_length: "check_chain P key p rows = Inr es \<Longrightarrow> length es = length rows"
  by (induction rows arbitrary: p es) (auto simp: and_then_Inr split: if_splits)

text \<open>
  The rows of a database are the log of the events \<open>es\<close>: in the order of insertion their texts of
  time increase and they form a chain.
\<close>

definition audit_log :: "prims \<Rightarrow> bytes \<Rightarrow> database \<Rightarrow> AuditEvent list \<Rightarrow> bool" where
  "audit_log P key d es \<longleftrightarrow> ''audit_events'' \<in> set (db_tables d)
     \<and> sorted_wrt (<) (map ar_created_at (db_audit d)) \<and> check_chain P key [] (db_audit d) = Inr es"

lemma last_stored_sorted:
  "sorted_wrt (<) (map ar_created_at rows) \<Longrightarrow> stored (last_stored rows) = final_hmac [] rows"
proof (cases rows rule: rev_cases)
  case (snoc rs r)
  moreover assume "sorted_wrt (<) (map ar_created_at rows)"
  ultimately show ?thesis using latest_sorted [of ar_created_at rs r] by (simp add: last_stored_def)
qed (simp add: last_stored_def)

lemma audit_log_append:
  assumes "audit_log P key d es" and "marshal_audit e = Inr b" and "audit_ok e"
    and "\<forall>r\<in>set (db_audit d). ar_created_at r < stamp (ae_timestamp e)"
  shows "audit_log P key (d\<lparr>db_audit := db_audit d @ [audit_row P key e (last_stored (db_audit d)) b]\<rparr>) (es @ [e])"
  using assms unmarshal_marshal_audit [OF assms(3,2)]
  by (auto simp: audit_log_def sorted_wrt_append audit_row_def check_chain_append last_stored_sorted)

lemma sort_audit_log: "audit_log P key d es \<Longrightarrow> sort_key ar_created_at (db_audit d) = db_audit d"
  unfolding audit_log_def by (intro sort_key_id_if_sorted) (auto intro: sorted_wrt_mono_rel [of _ "(<)"])

text \<open>The number of events that \<open>ListAudit\<close> returns at most.\<close>

definition audit_limit :: "int \<Rightarrow> nat" where
  "audit_limit limit = nat (if limit \<le> 0 \<or> limit > 1000 then 100 else limit)"

lemma take_rev_drop: "rev (if length es > n then drop (length es - n) es else es) = take n (rev es)"
  by (simp add: take_rev)

lemma ListAudit_clean:
  assumes "st_keys s = Some keys" and "w_faults w = []"
  shows "ListAudit P s limit w =
    (and_then (and_then (select_audit (w_db w)) (check_chain P (ks_audit keys) []))
       (\<lambda>es. Inr (take (audit_limit limit) (rev es))), w)"
proof -
  have d: "driver w = (Inr (), w)" using assms(2) by (simp add: driver_def)
  show ?thesis
    by (simp add: ListAudit_def copyKeys_def assms(1) bnd_def lift_def query_def d ret_def take_rev_drop
        audit_limit_def Let_def and_then_def split: sum.split)
qed

text \<open>Two accepted chains of the same length and the same last MAC hold the same rows, or a collision.\<close>

definition collision :: "prims \<Rightarrow> bytes \<Rightarrow> bool" where
  "collision P key \<longleftrightarrow> (\<exists>m m'. m \<noteq> m' \<and> hmac P key m = hmac P key m')"

lemma final_hmac_length:
  assumes "prims_ok P" and "check_chain P key [] rows = Inr es"
  shows "length (final_hmac [] rows) = (if rows = [] then 0 else 32)"
proof (cases rows rule: rev_cases)
  case (snoc rs r)
  then have "ar_hmac r = hmac P key (final_hmac [] rs @ ar_json r)"
    using assms(2) by (auto simp: check_chain_append and_then_Inr split: if_splits)
  then show ?thesis using snoc length_hmac [OF assms(1)] by simp
qed simp

lemma chain_determined:
  assumes "prims_ok P"
  shows "length rows = length rows' \<Longrightarrow> check_chain P key [] rows = Inr es \<Longrightarrow> check_chain P key [] rows' = Inr es' \<Longrightarrow>
    final_hmac [] rows = final_hmac [] rows' \<Longrightarrow> es = es' \<or> collision P key"
proof (induction rows arbitrary: rows' es es' rule: rev_induct)
  case (snoc r rs)
  then obtain rs' r' where rows': "rows' = rs' @ [r']" and len: "length rs = length rs'"
    by (cases rows' rule: rev_cases) auto
  from snoc.prems(2) obtain fs e where r: "check_chain P key [] rs = Inr fs" "unmarshal_audit (ar_json r) = Inr e"
    "es = fs @ [e]" "ar_hmac r = hmac P key (final_hmac [] rs @ ar_json r)"
    by (auto simp: check_chain_append and_then_Inr split: if_splits)
  from snoc.prems(3) obtain fs' e' where r': "check_chain P key [] rs' = Inr fs'" "unmarshal_audit (ar_json r') = Inr e'"
    "es' = fs' @ [e']" "ar_hmac r' = hmac P key (final_hmac [] rs' @ ar_json r')"
    unfolding rows' by (auto simp: check_chain_append and_then_Inr split: if_splits)
  show ?case
  proof (cases "final_hmac [] rs @ ar_json r = final_hmac [] rs' @ ar_json r'")
    case True
    have "length (final_hmac [] rs) = length (final_hmac [] rs')"
      using final_hmac_length [OF assms r(1)] final_hmac_length [OF assms r'(1)] len by (cases "rs = []") auto
    with True have "final_hmac [] rs = final_hmac [] rs'" "ar_json r = ar_json r'" by simp_all
    then show ?thesis using snoc.IH [OF len r(1) r'(1)] r r' by auto
  next
    case False
    then show ?thesis using snoc.prems(4) r(4) r'(4) by (auto simp: rows' collision_def)
  qed
qed simp

subsection \<open>Appending when nothing fails\<close>

definition stamped :: "AuditEvent \<Rightarrow> 'db world \<Rightarrow> AuditEvent" where
  "stamped event w = event\<lparr>ae_id := format_id (take 16 (w_tape w)), ae_timestamp := w_clock w (w_ticks w)\<rparr>"

definition appended :: "prims \<Rightarrow> bytes \<Rightarrow> AuditEvent \<Rightarrow> database world \<Rightarrow> database world" where
  "appended P key event w = w\<lparr>w_tape := drop 16 (w_tape w), w_ticks := Suc (w_ticks w),
     w_db := (w_db w)\<lparr>db_audit := db_audit (w_db w) @ [audit_row P key (stamped event w)
       (last_stored (db_audit (w_db w))) (bytes_of (render (audit_json (stamped event w))))]\<rparr>\<rparr>"

lemma appended_same [simp]:
  "w_faults (appended P key event w) = w_faults w" "w_clock (appended P key event w) = w_clock w"
  "w_tape (appended P key event w) = drop 16 (w_tape w)" "w_ticks (appended P key event w) = Suc (w_ticks w)"
  "db_tables (w_db (appended P key event w)) = db_tables (w_db w)"
  by (simp_all add: appended_def)

definition can_append :: "database world \<Rightarrow> bool" where
  "can_append w \<longleftrightarrow> w_faults w = [] \<and> ''audit_events'' \<in> set (db_tables (w_db w)) \<and> 16 \<le> length (w_tape w)
     \<and> t_year (w_clock w (w_ticks w)) < 10000
     \<and> format_id (take 16 (w_tape w)) \<notin> ar_id ` set (db_audit (w_db w))"

lemma last_hmac_clean:
  assumes "w_faults w = []" and "''audit_events'' \<in> set (db_tables (w_db w))"
  shows "last_hmac w = (Inr (last_stored (db_audit (w_db w))), w)"
  using driver_clean [OF assms(1)] assms(2)
  by (cases "latest ar_created_at (db_audit (w_db w))")
    (auto simp: last_hmac_def on_error_def bnd_def query_def ret_def fail_def select_last_hmac_def on_table_def
      last_stored_def latest_Inl ErrNoRows_def)

lemma appendAudit_clean:
  assumes "can_append w" and "ae_id event = []" and "ae_timestamp event = zero_time"
  shows "appendAudit P key event w = (Inr (), appended P key event w)"
proof -
  let ?w = "w\<lparr>w_tape := drop 16 (w_tape w), w_ticks := Suc (w_ticks w)\<rparr>"
  have clean: "w_faults ?w = []" "''audit_events'' \<in> set (db_tables (w_db ?w))"
    using assms(1) by (simp_all add: can_append_def)
  have m: "marshal_audit (stamped event w) = Inr (bytes_of (render (audit_json (stamped event w))))"
    using assms(1) by (simp add: marshal_audit_def stamped_def can_append_def)
  have ins: "insert_audit (audit_row P key (stamped event w) (last_stored (db_audit (w_db w)))
        (bytes_of (render (audit_json (stamped event w))))) (w_db w) = Inr ((), w_db (appended P key event w))"
    using assms(1)
    by (auto simp: insert_audit_def on_table_def insert_row_def list_ex_iff audit_clash_def audit_row_def stamped_def
        can_append_def appended_def and_then_def)
  have "appendAudit P key event w =
      bnd (lift (marshal_audit (stamped event w))) (\<lambda>encoded. bnd last_hmac (\<lambda>previous.
        exec (insert_audit (audit_row P key (stamped event w) previous encoded)))) ?w"
    using assms by (simp add: appendAudit_def can_append_def run randomID_def rand_read_def stamped_def Let_def)
  also have "\<dots> = (Inr (), appended P key event w)"
    using last_hmac_clean [OF clean] clean ins by (simp add: run m appended_def)
  finally show ?thesis .
qed

lemma transaction_clean:
  assumes "w_faults w = []" and "body w = (Inr y, w')" and "w_faults w' = []"
  shows "transaction body w = (Inr y, w')"
  using driver_clean [OF assms(1)] driver_clean [OF assms(3)] assms(2)
  by (simp add: transaction_def committed_def bnd_def ret_def)

lemma RecordAudit_clean:
  assumes "st_keys s = Some keys" and "can_append w" and "ae_id event = []" and "ae_timestamp event = zero_time"
  shows "RecordAudit P s event w = (Inr (), appended P (ks_audit keys) event w)"
proof -
  have "w_faults w = []" using assms(2) by (simp add: can_append_def)
  then have "transaction (appendAudit P (ks_audit keys) event) w = (Inr (), appended P (ks_audit keys) event w)"
    by (intro transaction_clean appendAudit_clean assms) simp_all
  then show ?thesis by (simp add: RecordAudit_def copyKeys_def assms(1) bnd_def lift_def)
qed

lemma sort_two: "f b < f a \<Longrightarrow> sort_key f [a, b] = [b, a]"
  by (auto dest: leD)

subsection \<open>A concrete vault\<close>

definition demo_keys :: keySet where
  "demo_keys = \<lparr>ks_dek = replicate 32 1, ks_metadata = replicate 32 2, ks_lookup = replicate 32 3, ks_audit = replicate 32 4\<rparr>"

definition demo_store :: Store where
  "demo_store = \<lparr>st_path = ''vault.db'', st_vaultID = ''v1'', st_keys = Some demo_keys\<rparr>"

definition demo_clock :: "nat \<Rightarrow> gotime" where
  "demo_clock n = GoTime 2024 5 17 9 30 (n div 10 mod 60) (n mod 10 * 100000000 + 1)"

definition demo_tape :: bytes where
  "demo_tape = map of_nat [0..<800]"

lemma length_demo_tape [simp]: "length demo_tape = 800"
  by (simp add: demo_tape_def)

definition demo_world :: "(nat \<Rightarrow> gotime) \<Rightarrow> database world" where
  "demo_world clock = \<lparr>w_tape = demo_tape, w_clock = clock,
     w_ticks = 0, w_faults = [], w_db = empty_db\<lparr>db_tables := schema\<rparr>\<rparr>"

definition demo_event :: "string \<Rightarrow> AuditEvent" where
  "demo_event operation = \<lparr>ae_id = [], ae_timestamp = zero_time, ae_actor = ''broker'', ae_operation = operation,
     ae_object_id = [], ae_outcome = ''success'', ae_detail = []\<rparr>"

lemma demo_event_fresh [simp]: "ae_id (demo_event x) = []" "ae_timestamp (demo_event x) = zero_time"
  by (simp_all add: demo_event_def)

lemma demo_can_append:
  "t_year (clock 0) < 10000 \<Longrightarrow> can_append (demo_world clock)"
  by (simp add: can_append_def demo_world_def schema_def empty_db_def)

lemma demo_keys_of: "st_keys demo_store = Some demo_keys"
  by (simp add: demo_store_def)

lemma demo_world_simps [simp]:
  "w_faults (demo_world clock) = []" "w_clock (demo_world clock) = clock" "w_ticks (demo_world clock) = 0"
  "db_audit (w_db (demo_world clock)) = []" "w_tape (demo_world clock) = demo_tape"
  "db_tables (w_db (demo_world clock)) = schema"
  "db_objects (w_db (demo_world clock)) = []" "db_versions (w_db (demo_world clock)) = []"
  by (simp_all add: demo_world_def empty_db_def)

lemma demo_audit_log: "audit_log P key (w_db (demo_world clock)) []"
  by (simp add: audit_log_def schema_def)

subsection \<open>Properties\<close>







text \<open>
  C23: The log is ordered by the text of the time, which is not the order of the times: RFC3339Nano
  drops trailing zeros. When the text of a second event sorts before that of the first, whatever the
  order of the two times, \<open>ListAudit\<close> reports from then on that the chain is inconsistent. The witness
  has the times \<open>09:30:00.1Z\<close> and, 20 ms later, \<open>09:30:00.12Z\<close>.
\<close>

theorem audit_order_by_text:
  assumes "prims_ok P" and "st_keys s = Some keys" and "db_audit (w_db w) = []"
    and "RecordAudit P s event w = (Inr u, w1)" and "RecordAudit P s event' w1 = (Inr u', w2)"
    and "ae_timestamp event = zero_time" and "ae_timestamp event' = zero_time" and "w_faults w2 = []"
    and "stamp (w_clock w1 (w_ticks w1)) < stamp (w_clock w (w_ticks w))"
  shows "fst (ListAudit P s limit w2) = Inl chain_error"
proof -
  have rec: "\<exists>e b. ae_timestamp e = w_clock v (w_ticks v) \<and> ''audit_events'' \<in> set (db_tables (w_db v'))
      \<and> db_audit (w_db v') = db_audit (w_db v) @ [audit_row P (ks_audit keys) e (last_stored (db_audit (w_db v))) b]"
    if "RecordAudit P s ev v = (Inr x, v')" and "ae_timestamp ev = zero_time" for ev v x v'
  proof -
    have "transaction (appendAudit P (ks_audit keys) ev) v = (Inr x, v')"
      using that(1) by (simp add: RecordAudit_def copyKeys_def assms(2) effect_inr)
    then obtain y z where y: "w_db y = w_db v" "w_clock y = w_clock v" "w_ticks y = w_ticks v"
      and app: "appendAudit P (ks_audit keys) ev y = (Inr x, z)" and z: "w_db v' = w_db z"
      by (rule transaction_db)
    from app obtain e b where "ae_timestamp ev = zero_time \<longrightarrow> ae_timestamp e = w_clock y (w_ticks y)"
      "w_db z = (w_db y)\<lparr>db_audit := db_audit (w_db y) @ [audit_row P (ks_audit keys) e (last_stored (db_audit (w_db y))) b]\<rparr>"
      "''audit_events'' \<in> set (db_tables (w_db y))"
      by (rule appendAudit_Inr)
    then show ?thesis using that(2) y z by auto
  qed
  obtain e1 b1 where 1: "ae_timestamp e1 = w_clock w (w_ticks w)"
    "db_audit (w_db w1) = [audit_row P (ks_audit keys) e1 None b1]"
    using rec [OF assms(4,6)] assms(3) by (auto simp: last_stored_def)
  obtain e2 b2 where 2: "ae_timestamp e2 = w_clock w1 (w_ticks w1)" "''audit_events'' \<in> set (db_tables (w_db w2))"
    "db_audit (w_db w2) = [audit_row P (ks_audit keys) e1 None b1,
       audit_row P (ks_audit keys) e2 (last_stored [audit_row P (ks_audit keys) e1 None b1]) b2]"
    using rec [OF assms(5,7)] 1 by auto
  have nonempty: "hmac P (ks_audit keys) m \<noteq> []" for m
    using length_hmac [OF assms(1), of "ks_audit keys" m] by auto
  have "sort_key ar_created_at (db_audit (w_db w2)) = rev (db_audit (w_db w2))"
    unfolding 2(3) using assms(9) 1(1) 2(1) by (subst sort_two) (simp_all add: audit_row_def)
  moreover have "check_chain P (ks_audit keys) [] (rev (db_audit (w_db w2))) = Inl chain_error"
    unfolding 2(3) by (simp add: audit_row_def last_stored_def latest_def nonempty)
  ultimately show ?thesis
    by (simp only: ListAudit_clean [OF assms(2,8)] select_audit_def on_table_def 2(2) if_True and_then_simps fst_conv)
qed

definition tenth_clock :: "nat \<Rightarrow> gotime" where
  "tenth_clock n = GoTime 2024 5 17 9 30 0 (if n = 0 then 100000000 else 120000000)"

theorem audit_order_by_text_witness:
  "\<exists>w1 w2. RecordAudit demo_prims demo_store (demo_event ''vault.unlock'') (demo_world tenth_clock) = (Inr (), w1)
     \<and> RecordAudit demo_prims demo_store (demo_event ''vault.lock'') w1 = (Inr (), w2)
     \<and> tenth_clock 0 < tenth_clock 1 \<and> fst (ListAudit demo_prims demo_store 10 w2) = Inl chain_error"
proof -
  let ?w1 = "appended demo_prims (ks_audit demo_keys) (demo_event ''vault.unlock'') (demo_world tenth_clock)"
  let ?w2 = "appended demo_prims (ks_audit demo_keys) (demo_event ''vault.lock'') ?w1"
  have 1: "RecordAudit demo_prims demo_store (demo_event ''vault.unlock'') (demo_world tenth_clock) = (Inr (), ?w1)"
    by (rule RecordAudit_clean [OF demo_keys_of demo_can_append]) (simp_all add: tenth_clock_def)
  have "format_id (take 16 demo_tape) \<noteq> format_id (take 16 (drop 16 demo_tape))"
    by (rule format_id_neq) (simp_all add: demo_tape_def)
  then have "can_append ?w1"
    by (simp add: can_append_def schema_def tenth_clock_def appended_def audit_row_def stamped_def)
  then have 2: "RecordAudit demo_prims demo_store (demo_event ''vault.lock'') ?w1 = (Inr (), ?w2)"
    by (intro RecordAudit_clean [OF demo_keys_of]) simp_all
  have "stamp (tenth_clock 0) = ''2024-05-17T09:30:00.1Z''" "stamp (tenth_clock 1) = ''2024-05-17T09:30:00.12Z''"
    by (simp_all add: tenth_clock_def stamp_eval)
  moreover have "''2024-05-17T09:30:00.12Z'' < ''2024-05-17T09:30:00.1Z''" by code_simp
  ultimately have "stamp (tenth_clock 1) < stamp (tenth_clock 0)" by simp
  moreover have "tenth_clock 0 < tenth_clock 1" by (simp add: tenth_clock_def less_gotime_def time_key_def)
  ultimately have t: "tenth_clock 0 < tenth_clock 1" "stamp (tenth_clock 1) < stamp (tenth_clock 0)" by simp_all
  have "fst (ListAudit demo_prims demo_store 10 ?w2) = Inl chain_error"
    by (rule audit_order_by_text [OF demo_prims_ok demo_keys_of _ 1 2]) (use t in simp_all)
  with 1 2 t(1) show ?thesis by blast
qed

end
