(* ===== verification/Actions.thy ===== *)
theory Actions
  imports Secrets
begin

section \<open>Actions (internal/vault/store.go: PutAction, GetAction, ListActions)\<close>

text \<open>
  An action is one row of \<open>encrypted_objects\<close> of type \<open>action\<close>. \<open>PutAction\<close> reads the row of that name,
  if there is one, and then inserts or overwrites it in a transaction; as with secrets the two parts
  are separate definitions.
\<close>

definition getActionByID :: "prims \<Rightarrow> keySet \<Rightarrow> string \<Rightarrow> int \<Rightarrow> (Action \<times> int) vault" where
  "getActionByID P keys i revision =
     bnd (query (select_object_id i)) (\<lambda>r.
     bnd (lift (Open P (ks_metadata keys) (ob_nonce r) (ob_ciphertext r) (objectAAD ''action'' i revision))) (\<lambda>plaintext.
     bnd (lift (unmarshal_action plaintext)) (\<lambda>action.
     ret (action, revision))))"

text \<open>The action to write, its lookup, the revision found (0 for none) and the sealed metadata.\<close>

record put =
  pu_action :: Action
  pu_lookup :: string
  pu_revision :: int
  pu_sealed :: "bytes \<times> bytes"

text \<open>The row of that name, if there is one; every error but \<open>sql.ErrNoRows\<close> is returned.\<close>

definition find_action :: "prims \<Rightarrow> keySet \<Rightarrow> string \<Rightarrow> ObjectRow option vault" where
  "find_action P keys lookup =
     on_error (bnd (query (select_object ''action'' lookup)) (\<lambda>r. ret (Some r)))
       (\<lambda>err. if error_is err ErrNoRows then ret None else fail err)"

text \<open>The error of \<open>randomID\<close> is not checked: the identifier is empty then.\<close>

definition action_identity :: "prims \<Rightarrow> keySet \<Rightarrow> Action \<Rightarrow> gotime \<Rightarrow> ObjectRow option \<Rightarrow> (Action \<times> int) vault" where
  "action_identity P keys action now found =
     (case found of
        None \<Rightarrow>
          bnd (on_error (random randomID) (\<lambda>_. ret [])) (\<lambda>i.
          ret (action\<lparr>ac_id := i, ac_created_at := now\<rparr>, 0))
      | Some r \<Rightarrow>
          bnd (getActionByID P keys (ob_id r) (ob_revision r)) (\<lambda>(current, _).
          ret (action\<lparr>ac_id := ob_id r, ac_created_at := ac_created_at current\<rparr>, ob_revision r)))"

definition put_prepare :: "prims \<Rightarrow> keySet \<Rightarrow> Action \<Rightarrow> put vault" where
  "put_prepare P keys action =
     (if ac_project action = [] \<or> ac_environment action = [] \<or> ac_name action = [] \<or> ac_executable action = []
      then fail (Errorf ''project, environment, name, and executable are required'')
      else
        bnd time_now (\<lambda>now.
        let lookup = actionLookup P (ks_lookup keys) (ac_project action) (ac_environment action) (ac_name action) in
        bnd (find_action P keys lookup) (\<lambda>found.
        bnd (action_identity P keys action now found) (\<lambda>(action, revision).
        let action = action\<lparr>ac_updated_at := now\<rparr> in
        bnd (lift (marshal_action action)) (\<lambda>encoded.
        bnd (random (Seal P (ks_metadata keys) encoded (objectAAD ''action'' (ac_id action) (inc64 revision)))) (\<lambda>sealed.
        ret \<lparr>pu_action = action, pu_lookup = lookup, pu_revision = revision, pu_sealed = sealed\<rparr>))))))"

definition action_event :: "string \<Rightarrow> AuditEvent" where
  "action_event i = (secret_event ''action.configure'' i)\<lparr>ae_actor := ''user''\<rparr>"

definition put_commit :: "prims \<Rightarrow> keySet \<Rightarrow> put \<Rightarrow> Action vault" where
  "put_commit P keys p =
     (let action = pu_action p; at = stamp (ac_updated_at action) in
      transaction (
        bnd (if pu_revision p = 0
             then exec (insert_object (object_row (ac_id action) ''action'' (pu_lookup p) (pu_sealed p) at))
             else bnd (exec (update_object (\<lambda>r. ob_id r = ac_id action)
               (fst (pu_sealed p)) (snd (pu_sealed p)) (inc64 (pu_revision p)) at)) (\<lambda>_. ret ())) (\<lambda>_.
        bnd (appendAudit P (ks_audit keys) (action_event (ac_id action))) (\<lambda>_.
        ret action))))"

definition PutAction :: "prims \<Rightarrow> Store \<Rightarrow> Action \<Rightarrow> Action vault" where
  "PutAction P s action =
     bnd (lift (copyKeys s)) (\<lambda>keys.
     bnd (put_prepare P keys action) (\<lambda>p.
     put_commit P keys p))"

definition GetAction :: "prims \<Rightarrow> Store \<Rightarrow> Scope \<Rightarrow> string \<Rightarrow> Action vault" where
  "GetAction P s scope name =
     bnd (lift (copyKeys s)) (\<lambda>keys.
     bnd (on_error (query (select_object ''action''
             (actionLookup P (ks_lookup keys) (sc_project scope) (sc_environment scope) name)))
           (\<lambda>err. fail (not_found err))) (\<lambda>r.
     bnd (getActionByID P keys (ob_id r) (ob_revision r)) (\<lambda>(action, _).
     ret action)))"

definition read_action :: "prims \<Rightarrow> keySet \<Rightarrow> ObjectRow \<Rightarrow> Action result" where
  "read_action P keys r =
     and_then (Open P (ks_metadata keys) (ob_nonce r) (ob_ciphertext r) (objectAAD ''action'' (ob_id r) (ob_revision r)))
       unmarshal_action"

fun read_actions :: "prims \<Rightarrow> keySet \<Rightarrow> Scope \<Rightarrow> ObjectRow list \<Rightarrow> Action list result" where
  "read_actions P keys scope [] = Inr []"
| "read_actions P keys scope (r # rs) =
     and_then (read_action P keys r) (\<lambda>action.
     and_then (read_actions P keys scope rs) (\<lambda>result.
     Inr (if ac_project action = sc_project scope \<and> ac_environment action = sc_environment scope
          then action # result else result)))"

definition ListActions :: "prims \<Rightarrow> Store \<Rightarrow> Scope \<Rightarrow> Action list vault" where
  "ListActions P s scope =
     bnd (lift (copyKeys s)) (\<lambda>keys.
     bnd (query (select_objects ''action'')) (\<lambda>rows.
     bnd (lift (read_actions P keys scope rows)) (\<lambda>result.
     bnd driver (\<lambda>_.
     ret (sort_key ac_name result)))))"

subsection \<open>Judgements\<close>

lemma keeps_getActionByID [effect_intros]: "keeps (getActionByID P keys i revision)"
  unfolding getActionByID_def by (intro effect_intros)

lemma keeps_find_action [effect_intros]: "keeps (find_action P keys lookup)"
  unfolding find_action_def by (intro effect_intros)

lemma keeps_action_identity [effect_intros]: "keeps (action_identity P keys action now found)"
  unfolding action_identity_def by (intro effect_intros)

lemma keeps_put_prepare [effect_intros]: "keeps (put_prepare P keys action)"
  unfolding put_prepare_def by (intro effect_intros)

lemma keeps_GetAction [effect_intros]: "keeps (GetAction P s scope name)"
  unfolding GetAction_def by (intro effect_intros)

lemma keeps_ListActions [effect_intros]: "keeps (ListActions P s scope)"
  unfolding ListActions_def by (intro effect_intros)

lemma atomic_put_commit [effect_intros]: "atomic (put_commit P keys p)"
  unfolding put_commit_def by (intro effect_intros)

lemma atomic_PutAction [effect_intros]: "atomic (PutAction P s action)"
  unfolding PutAction_def by (intro effect_intros)

end
