(* ===== verification/VaultSpec.thy ===== *)
theory VaultSpec
  imports Actions
begin

section \<open>The specification of the vault\<close>

text \<open>
  What the tables mean and what the operations do to that meaning. The invariant says that the tables
  are consistent, that the metadata of every secret opens under the keys of the vault and names the
  last of its versions, that the versions of a secret are numbered from 1, that only the last can be
  active, and that every value opens. The abstract state is a finite map from lookup tokens to the
  current metadata of a secret and its active value. Every operation of the store, on success, keeps
  the invariant and is an update of this map; a failed operation changes nothing.
\<close>

subsection \<open>What a commit did\<close>

definition db_update :: "(ObjectRow \<Rightarrow> bool) \<Rightarrow> bytes \<times> bytes \<Rightarrow> int \<Rightarrow> string \<Rightarrow> database \<Rightarrow> database" where
  "db_update Q sealed newrev at d = d\<lparr>db_objects := update_where Q
     (\<lambda>r. r\<lparr>ob_nonce := fst sealed, ob_ciphertext := snd sealed, ob_revision := newrev, ob_updated_at := at\<rparr>) (db_objects d)\<rparr>"

definition db_insert :: "ObjectRow \<Rightarrow> database \<Rightarrow> database" where
  "db_insert obj d = d\<lparr>db_objects := db_objects d @ [obj]\<rparr>"

definition db_version :: "VersionRow \<Rightarrow> database \<Rightarrow> database" where
  "db_version ver d = d\<lparr>db_versions := db_versions d @ [ver]\<rparr>"

definition db_retire :: "string \<Rightarrow> string \<Rightarrow> string \<Rightarrow> database \<Rightarrow> database" where
  "db_retire st at i d = d\<lparr>db_versions := update_where (\<lambda>r. vr_secret r = i \<and> vr_state r = ''active'')
     (\<lambda>r. r\<lparr>vr_state := st, vr_retired_at := Some at\<rparr>) (db_versions d)\<rparr>"

definition db_activate :: "string \<Rightarrow> string \<Rightarrow> database \<Rightarrow> database" where
  "db_activate at vid d = d\<lparr>db_versions := update_where (\<lambda>r. vr_id r = vid)
     (\<lambda>r. r\<lparr>vr_state := ''active'', vr_activated_at := Some at\<rparr>) (db_versions d)\<rparr>"

lemma insert_object_Inr:
  "insert_object r d = Inr (u, d') \<longleftrightarrow> ''encrypted_objects'' \<in> set (db_tables d)
     \<and> (\<forall>x\<in>set (db_objects d). \<not> object_clash r x) \<and> d' = db_insert r d"
  by (auto simp: insert_object_def on_table_Inr and_then_Inr insert_row_Inr db_insert_def)

lemma insert_version_Inr:
  "insert_version r d = Inr (u, d') \<longleftrightarrow> ''secret_versions'' \<in> set (db_tables d)
     \<and> (\<forall>x\<in>set (db_versions d). \<not> version_clash r x) \<and> vr_secret r \<in> ob_id ` set (db_objects d) \<and> d' = db_version r d"
  by (auto simp: insert_version_def on_table_Inr and_then_Inr insert_row_Inr db_version_def split: if_splits)

lemma update_Inr:
  "update_retire st at i d = Inr (u, d') \<longleftrightarrow> ''secret_versions'' \<in> set (db_tables d) \<and> d' = db_retire st at i d"
  "update_activate at vid d = Inr (u, d') \<longleftrightarrow> ''secret_versions'' \<in> set (db_tables d) \<and> d' = db_activate at vid d"
  "update_object Q n c newrev at d = Inr (k, d') \<longleftrightarrow> ''encrypted_objects'' \<in> set (db_tables d)
     \<and> k = length (filter Q (db_objects d)) \<and> d' = db_update Q (n, c) newrev at d"
  by (auto simp: update_retire_def update_activate_def update_object_def on_table_Inr db_retire_def db_activate_def
      db_update_def)

lemma exec_db:
  assumes "exec f w = (Inr y, w')"
  shows "f (w_db w) = Inr (y, w_db w')"
  using assms by (auto simp: exec_Inr)

lemma appendAudit_db:
  assumes "appendAudit P key event w = (Inr u, w')"
  shows "\<exists>row. w_db w' = (w_db w)\<lparr>db_audit := db_audit (w_db w) @ [row]\<rparr>"
  using assms by (elim appendAudit_Inr) blast

lemma create_commit_Inr:
  assumes "create_commit P keys meta lookup sealedMeta vid sealedValue w = (Inr y, w')"
  obtains row where "y = meta"
    "\<forall>x\<in>set (db_objects (w_db w)). \<not> object_clash (object_row (sm_id meta) ''secret'' lookup sealedMeta (stamp (sm_created_at meta))) x"
    "\<forall>x\<in>set (db_versions (w_db w)). \<not> version_clash (version_row vid (sm_id meta) 1 ''active'' sealedValue
        (stamp (sm_created_at meta)) (Some (stamp (sm_created_at meta)))) x"
    "w_db w' = (db_version (version_row vid (sm_id meta) 1 ''active'' sealedValue
        (stamp (sm_created_at meta)) (Some (stamp (sm_created_at meta))))
      (db_insert (object_row (sm_id meta) ''secret'' lookup sealedMeta (stamp (sm_created_at meta))) (w_db w)))
      \<lparr>db_audit := db_audit (w_db w) @ [row]\<rparr>"
proof -
  let ?obj = "object_row (sm_id meta) ''secret'' lookup sealedMeta (stamp (sm_created_at meta))"
  let ?ver = "version_row vid (sm_id meta) 1 ''active'' sealedValue (stamp (sm_created_at meta)) (Some (stamp (sm_created_at meta)))"
  from assms [unfolded create_commit_def Let_def] obtain u v where u: "w_db u = w_db w"
    and v: "w_db w' = w_db v" and body: "bnd (on_error (exec (insert_object ?obj))
      (\<lambda>err. fail (if unique_violation err then ErrAlreadyExists else err))) (\<lambda>_.
       bnd (exec (insert_version ?ver)) (\<lambda>_.
       bnd (appendAudit P (ks_audit keys) (secret_event ''secret.create'' (sm_id meta))) (\<lambda>_. ret meta))) u = (Inr y, v)"
    by (rule transaction_db) blast
  from body obtain x1 u1 x2 u2 x3 u3 where "exec (insert_object ?obj) u = (Inr x1, u1)"
    "exec (insert_version ?ver) u1 = (Inr x2, u2)"
    "appendAudit P (ks_audit keys) (secret_event ''secret.create'' (sm_id meta)) u2 = (Inr x3, u3)" "y = meta" "v = u3"
    by (auto simp: bnd_Inr ret_Inr on_error_Inr fail_Inr)
  note steps = this
  have 1: "insert_object ?obj (w_db w) = Inr (x1, w_db u1)" using exec_db [OF steps(1)] u by simp
  have 2: "insert_version ?ver (w_db u1) = Inr (x2, w_db u2)" using exec_db [OF steps(2)] .
  obtain row where 3: "w_db u3 = (w_db u2)\<lparr>db_audit := db_audit (w_db u2) @ [row]\<rparr>"
    using appendAudit_db [OF steps(3)] by blast
  show thesis
    by (rule that [of row]) (use 1 2 3 steps(4,5) v in \<open>auto simp: insert_object_Inr insert_version_Inr db_insert_def db_version_def\<close>)
qed

definition db_rotate :: "change \<Rightarrow> database \<Rightarrow> database" where
  "db_rotate ch d =
     (let meta = ch_meta ch; at = stamp (sm_updated_at meta) in
      db_update (\<lambda>r. ob_id r = sm_id meta \<and> ob_revision r = ch_revision ch) (ch_sealed_meta ch) (inc64 (ch_revision ch)) at
        (db_activate at (ch_version_id ch)
          (db_retire ''retired'' at (sm_id meta)
            (db_version (version_row (ch_version_id ch) (sm_id meta) (sm_version meta) ''pending'' (ch_sealed_value ch) at None) d))))"

definition db_revoke :: "change \<Rightarrow> database \<Rightarrow> database" where
  "db_revoke ch d =
     (let meta = ch_meta ch; at = stamp (sm_updated_at meta) in
      db_update (\<lambda>r. ob_id r = sm_id meta) (ch_sealed_meta ch) (inc64 (ch_revision ch)) at
        (db_retire ''revoked'' at (sm_id meta) d))"

definition db_put :: "put \<Rightarrow> database \<Rightarrow> database" where
  "db_put p d =
     (let action = pu_action p; at = stamp (ac_updated_at action) in
      if pu_revision p = 0 then db_insert (object_row (ac_id action) ''action'' (pu_lookup p) (pu_sealed p) at) d
      else db_update (\<lambda>r. ob_id r = ac_id action) (pu_sealed p) (inc64 (pu_revision p)) at d)"

lemma db_simps [simp]:
  "db_objects (db_version v d) = db_objects d" "db_objects (db_retire st at i d) = db_objects d"
  "db_objects (db_activate at vid d) = db_objects d" "db_versions (db_update Q sl n at d) = db_versions d"
  "db_versions (db_insert r d) = db_versions d"
  "db_audit (db_version v d) = db_audit d" "db_audit (db_retire st at i d) = db_audit d"
  "db_audit (db_activate at vid d) = db_audit d" "db_audit (db_update Q sl n at d) = db_audit d"
  "db_audit (db_insert r d) = db_audit d"
  "db_tables (db_version v d) = db_tables d" "db_tables (db_retire st at i d) = db_tables d"
  "db_tables (db_activate at vid d) = db_tables d" "db_tables (db_update Q sl n at d) = db_tables d"
  "db_tables (db_insert r d) = db_tables d"
  "db_objects (db_insert r d) = db_objects d @ [r]" "db_versions (db_version v d) = db_versions d @ [v]"
  by (simp_all add: db_version_def db_retire_def db_activate_def db_update_def db_insert_def)

lemma rotate_commit_Inr:
  assumes "rotate_commit P keys ch w = (Inr y, w')"
  obtains row where "y = ch_meta ch"
    "\<forall>x\<in>set (db_versions (w_db w)). vr_id x \<noteq> ch_version_id ch"
    "length (filter (\<lambda>r. ob_id r = sm_id (ch_meta ch) \<and> ob_revision r = ch_revision ch) (db_objects (w_db w))) = 1"
    "w_db w' = (db_rotate ch (w_db w))\<lparr>db_audit := db_audit (w_db w) @ [row]\<rparr>"
proof -
  let ?m = "ch_meta ch" and ?at = "stamp (sm_updated_at (ch_meta ch))"
  let ?ver = "version_row (ch_version_id ch) (sm_id ?m) (sm_version ?m) ''pending'' (ch_sealed_value ch) ?at None"
  let ?Q = "\<lambda>r. ob_id r = sm_id ?m \<and> ob_revision r = ch_revision ch"
  from assms [unfolded rotate_commit_def Let_def] obtain u v where u: "w_db u = w_db w"
    and v: "w_db w' = w_db v" and body: "bnd (exec (insert_version ?ver)) (\<lambda>_.
       bnd (exec (update_retire ''retired'' ?at (sm_id ?m))) (\<lambda>_.
       bnd (exec (update_activate ?at (ch_version_id ch))) (\<lambda>_.
       bnd (exec (update_object ?Q (fst (ch_sealed_meta ch)) (snd (ch_sealed_meta ch)) (inc64 (ch_revision ch)) ?at)) (\<lambda>count.
       if count \<noteq> 1 then fail (Errorf ''secret changed concurrently'')
       else bnd (appendAudit P (ks_audit keys) (secret_event ''secret.rotate'' (sm_id ?m))) (\<lambda>_.
       ret ?m))))) u = (Inr y, v)"
    by (rule transaction_db) blast
  from body obtain x1 u1 x2 u2 x3 u3 n u4 x5 u5 where steps: "exec (insert_version ?ver) u = (Inr x1, u1)"
    "exec (update_retire ''retired'' ?at (sm_id ?m)) u1 = (Inr x2, u2)"
    "exec (update_activate ?at (ch_version_id ch)) u2 = (Inr x3, u3)"
    "exec (update_object ?Q (fst (ch_sealed_meta ch)) (snd (ch_sealed_meta ch)) (inc64 (ch_revision ch)) ?at) u3 = (Inr n, u4)"
    "n = 1" "appendAudit P (ks_audit keys) (secret_event ''secret.rotate'' (sm_id ?m)) u4 = (Inr x5, u5)" "y = ?m" "v = u5"
    by (auto simp: bnd_Inr ret_Inr fail_Inr split: if_splits)
  note 1 = exec_db [OF steps(1), unfolded u insert_version_Inr] and 2 = exec_db [OF steps(2), unfolded update_Inr]
    and 3 = exec_db [OF steps(3), unfolded update_Inr] and 4 = exec_db [OF steps(4), unfolded update_Inr]
  obtain row where 5: "w_db u5 = (w_db u4)\<lparr>db_audit := db_audit (w_db u4) @ [row]\<rparr>"
    using appendAudit_db [OF steps(6)] by blast
  have "w_db u4 = db_rotate ch (w_db w)" using 1 2 3 4 by (simp add: db_rotate_def Let_def)
  moreover have "db_audit (db_rotate ch (w_db w)) = db_audit (w_db w)" by (simp add: db_rotate_def Let_def)
  moreover have "\<forall>x\<in>set (db_versions (w_db w)). vr_id x \<noteq> ch_version_id ch"
    using 1 by (auto simp: version_clash_def version_row_def)
  moreover have "length (filter ?Q (db_objects (w_db w))) = 1" using 1 2 3 4 steps(5) by simp
  ultimately show thesis using that [of row] 5 steps(7,8) v by simp
qed

lemma revoke_commit_Inr:
  assumes "revoke_commit P keys ch w = (Inr y, w')"
  obtains row where "y = ch_meta ch"
    "w_db w' = (db_revoke ch (w_db w))\<lparr>db_audit := db_audit (w_db w) @ [row]\<rparr>"
proof -
  let ?m = "ch_meta ch" and ?at = "stamp (sm_updated_at (ch_meta ch))"
  from assms [unfolded revoke_commit_def Let_def] obtain u v where u: "w_db u = w_db w"
    and v: "w_db w' = w_db v" and body: "bnd (exec (update_retire ''revoked'' ?at (sm_id ?m))) (\<lambda>_.
       bnd (exec (update_object (\<lambda>r. ob_id r = sm_id ?m) (fst (ch_sealed_meta ch)) (snd (ch_sealed_meta ch))
         (inc64 (ch_revision ch)) ?at)) (\<lambda>_.
       bnd (appendAudit P (ks_audit keys) (secret_event ''secret.revoke'' (sm_id ?m))) (\<lambda>_.
       ret ?m))) u = (Inr y, v)"
    by (rule transaction_db) blast
  from body obtain x1 u1 n u2 x3 u3 where steps:
    "exec (update_retire ''revoked'' ?at (sm_id ?m)) u = (Inr x1, u1)"
    "exec (update_object (\<lambda>r. ob_id r = sm_id ?m) (fst (ch_sealed_meta ch)) (snd (ch_sealed_meta ch))
       (inc64 (ch_revision ch)) ?at) u1 = (Inr n, u2)"
    "appendAudit P (ks_audit keys) (secret_event ''secret.revoke'' (sm_id ?m)) u2 = (Inr x3, u3)" "y = ?m" "v = u3"
    by (auto simp: bnd_Inr ret_Inr)
  note 1 = exec_db [OF steps(1), unfolded u update_Inr] and 2 = exec_db [OF steps(2), unfolded update_Inr]
  obtain row where 3: "w_db u3 = (w_db u2)\<lparr>db_audit := db_audit (w_db u2) @ [row]\<rparr>"
    using appendAudit_db [OF steps(3)] by blast
  have "w_db u2 = db_revoke ch (w_db w)" using 1 2 by (simp add: db_revoke_def Let_def)
  moreover have "db_audit (db_revoke ch (w_db w)) = db_audit (w_db w)" by (simp add: db_revoke_def Let_def)
  ultimately show thesis using that [of row] 3 steps(4,5) v by simp
qed

lemma put_commit_Inr:
  assumes "put_commit P keys p w = (Inr y, w')"
  obtains row where "y = pu_action p"
    "pu_revision p = 0 \<longrightarrow> (\<forall>x\<in>set (db_objects (w_db w)). \<not> object_clash (object_row (ac_id (pu_action p)) ''action''
        (pu_lookup p) (pu_sealed p) (stamp (ac_updated_at (pu_action p)))) x)"
    "w_db w' = (db_put p (w_db w))\<lparr>db_audit := db_audit (w_db w) @ [row]\<rparr>"
proof -
  let ?a = "pu_action p" and ?at = "stamp (ac_updated_at (pu_action p))"
  let ?change = "if pu_revision p = 0 then exec (insert_object (object_row (ac_id ?a) ''action'' (pu_lookup p) (pu_sealed p) ?at))
     else bnd (exec (update_object (\<lambda>r. ob_id r = ac_id ?a) (fst (pu_sealed p)) (snd (pu_sealed p)) (inc64 (pu_revision p)) ?at))
       (\<lambda>_. ret ())"
  from assms [unfolded put_commit_def Let_def] obtain u v where u: "w_db u = w_db w"
    and v: "w_db w' = w_db v" and body: "bnd ?change (\<lambda>_.
       bnd (appendAudit P (ks_audit keys) (action_event (ac_id ?a))) (\<lambda>_. ret ?a)) u = (Inr y, v)"
    by (rule transaction_db) blast
  from body obtain x1 u1 x2 u2 where steps: "?change u = (Inr x1, u1)"
    "appendAudit P (ks_audit keys) (action_event (ac_id ?a)) u1 = (Inr x2, u2)" "y = ?a" "v = u2"
    by (auto simp only: bnd_Inr ret_Inr)
  have 1: "w_db u1 = db_put p (w_db w) \<and> (pu_revision p = 0 \<longrightarrow> (\<forall>x\<in>set (db_objects (w_db w)).
      \<not> object_clash (object_row (ac_id ?a) ''action'' (pu_lookup p) (pu_sealed p) ?at) x))"
  proof (cases "pu_revision p = 0")
    case True
    then have "exec (insert_object (object_row (ac_id ?a) ''action'' (pu_lookup p) (pu_sealed p) ?at)) u = (Inr x1, u1)"
      using steps(1) by simp
    from exec_db [OF this, unfolded u insert_object_Inr] True show ?thesis by (simp add: db_put_def Let_def)
  next
    case False
    then obtain n where "exec (update_object (\<lambda>r. ob_id r = ac_id ?a) (fst (pu_sealed p)) (snd (pu_sealed p))
        (inc64 (pu_revision p)) ?at) u = (Inr n, u1)"
      using steps(1) by (auto simp: bnd_Inr ret_Inr)
    from exec_db [OF this, unfolded u update_Inr] False show ?thesis by (simp add: db_put_def Let_def)
  qed
  obtain row where 2: "w_db u2 = (w_db u1)\<lparr>db_audit := db_audit (w_db u1) @ [row]\<rparr>"
    using appendAudit_db [OF steps(2)] by blast
  have "db_audit (db_put p (w_db w)) = db_audit (w_db w)" by (simp add: db_put_def Let_def)
  then show thesis using that [of row] 1 2 steps(3,4) v by simp
qed

end
