(* ===== verification/VaultRefine.thy ===== *)
theory VaultRefine
  imports VaultSpec
begin

section \<open>The invariant of the vault and its abstract state\<close>

text \<open>
  The invariant \<open>vault_inv\<close> of the tables, the abstract state \<open>secret_at\<close> (from lookup tokens to the
  metadata and the active value of a secret), and the proof that each operation of the store, when it
  succeeds, keeps the invariant and updates the abstract state as its name says.
\<close>

subsection \<open>Invariant\<close>

definition history :: "database \<Rightarrow> string \<Rightarrow> VersionRow list" where
  "history d i = filter (\<lambda>v. vr_secret v = i) (db_versions d)"

text \<open>The versions of a secret are numbered from 1, and only the last can be active.\<close>

definition history_ok :: "SecretMetadata \<Rightarrow> VersionRow list \<Rightarrow> bool" where
  "history_ok m h \<longleftrightarrow> h \<noteq> [] \<and> map vr_number h = map (\<lambda>n. int n + 1) [0..<length h]
     \<and> sm_version m = int (length h) \<and> (\<forall>v\<in>set (butlast h). vr_state v \<noteq> ''active'')
     \<and> vr_state (last h) = sm_state m \<and> sm_state m \<in> {''active'', ''revoked''}"

definition value_ok :: "prims \<Rightarrow> keySet \<Rightarrow> VersionRow \<Rightarrow> bool" where
  "value_ok P k v \<longleftrightarrow> (\<exists>val. Open P (ks_dek k) (vr_nonce v) (vr_ciphertext v) (secretAAD (vr_secret v) (vr_number v)) = Inr val)"

definition secret_token :: "prims \<Rightarrow> keySet \<Rightarrow> SecretMetadata \<Rightarrow> string" where
  "secret_token P k m = secretLookup P (ks_lookup k) (sm_project m) (sm_environment m) (sm_name m)"

definition action_token :: "prims \<Rightarrow> keySet \<Rightarrow> Action \<Rightarrow> string" where
  "action_token P k a = actionLookup P (ks_lookup k) (ac_project a) (ac_environment a) (ac_name a)"

definition secret_row_ok :: "prims \<Rightarrow> keySet \<Rightarrow> VersionRow list \<Rightarrow> ObjectRow \<Rightarrow> SecretMetadata \<Rightarrow> bool" where
  "secret_row_ok P k h r m \<longleftrightarrow> read_secret P k r = Inr m \<and> secret_ok m \<and> sm_id m = ob_id r
     \<and> ob_lookup r = secret_token P k m \<and> history_ok m h"

definition action_row_ok :: "prims \<Rightarrow> keySet \<Rightarrow> VersionRow list \<Rightarrow> ObjectRow \<Rightarrow> Action \<Rightarrow> bool" where
  "action_row_ok P k h r a \<longleftrightarrow> read_action P k r = Inr a \<and> action_ok a \<and> ac_id a = ob_id r
     \<and> ob_lookup r = action_token P k a \<and> 1 \<le> ob_revision r \<and> h = []"

definition object_ok :: "prims \<Rightarrow> keySet \<Rightarrow> VersionRow list \<Rightarrow> ObjectRow \<Rightarrow> bool" where
  "object_ok P k h r \<longleftrightarrow> ob_type r = ''secret'' \<and> (\<exists>m. secret_row_ok P k h r m)
     \<or> ob_type r = ''action'' \<and> (\<exists>a. action_row_ok P k h r a)"

definition vault_inv :: "prims \<Rightarrow> keySet \<Rightarrow> database \<Rightarrow> bool" where
  "vault_inv P k d \<longleftrightarrow> set schema \<subseteq> set (db_tables d)
     \<and> consistent object_clash (db_objects d) \<and> consistent version_clash (db_versions d)
     \<and> (\<forall>v\<in>set (db_versions d). value_ok P k v \<and> vr_secret v \<in> ob_id ` set (db_objects d))
     \<and> (\<forall>r\<in>set (db_objects d). object_ok P k (history d (ob_id r)) r)"

definition keys_ok :: "keySet \<Rightarrow> bool" where
  "keys_ok k \<longleftrightarrow> length (ks_dek k) = KeySize \<and> length (ks_metadata k) = KeySize \<and> length (ks_lookup k) = KeySize
     \<and> length (ks_audit k) = KeySize"

text \<open>Room for one more in the counters of 64 bits.\<close>

definition roomy :: "database \<Rightarrow> bool" where
  "roomy d \<longleftrightarrow> length (db_versions d) < 9223372036854775807 \<and> (\<forall>r\<in>set (db_objects d). ob_revision r < 9223372036854775807)"

lemma vault_inv_audit [simp]: "vault_inv P k (d\<lparr>db_audit := x\<rparr>) = vault_inv P k d"
  by (simp add: vault_inv_def history_def)

subsection \<open>Abstract state\<close>

definition active_rows :: "database \<Rightarrow> string \<Rightarrow> VersionRow list" where
  "active_rows d i = filter (\<lambda>v. vr_secret v = i \<and> vr_state v = ''active'') (db_versions d)"

definition open_value :: "prims \<Rightarrow> keySet \<Rightarrow> string \<Rightarrow> VersionRow \<Rightarrow> bytes result" where
  "open_value P k i v = Open P (ks_dek k) (vr_nonce v) (vr_ciphertext v) (secretAAD i (vr_number v))"

definition active_value :: "prims \<Rightarrow> keySet \<Rightarrow> database \<Rightarrow> string \<Rightarrow> bytes option" where
  "active_value P k d i = (case latest vr_number (active_rows d i) of
     Inl _ \<Rightarrow> None | Inr v \<Rightarrow> result_option (open_value P k i v))"

definition secret_rows :: "database \<Rightarrow> string \<Rightarrow> ObjectRow list" where
  "secret_rows d tok = filter (\<lambda>r. ob_type r = ''secret'' \<and> ob_lookup r = tok) (db_objects d)"

definition secret_at :: "prims \<Rightarrow> keySet \<Rightarrow> database \<Rightarrow> string \<Rightarrow> (SecretMetadata \<times> bytes option) option" where
  "secret_at P k d tok =
     (case secret_rows d tok of
        [] \<Rightarrow> None
      | r # _ \<Rightarrow> (case read_secret P k r of Inl _ \<Rightarrow> None | Inr m \<Rightarrow> Some (m, active_value P k d (ob_id r))))"

lemma active_value_audit [simp]: "active_value P k (d\<lparr>db_audit := x\<rparr>) i = active_value P k d i"
  by (simp add: active_value_def active_rows_def)

lemma secret_at_audit [simp]: "secret_at P k (d\<lparr>db_audit := x\<rparr>) = secret_at P k d"
  by (rule ext) (simp add: secret_at_def secret_rows_def split: list.split sum.split)

lemma secret_at_cong:
  assumes "secret_rows d' tok = secret_rows d tok"
    and "\<And>r. r \<in> set (secret_rows d tok) \<Longrightarrow> active_value P k d' (ob_id r) = active_value P k d (ob_id r)"
  shows "secret_at P k d' tok = secret_at P k d tok"
  using assms by (cases "secret_rows d tok") (simp_all add: secret_at_def split: sum.split)

lemma secret_rows_unique:
  assumes "consistent object_clash (db_objects d)" and "r \<in> set (db_objects d)" and "ob_type r = ''secret''"
  shows "secret_rows d (ob_lookup r) = [r]"
  unfolding secret_rows_def using assms
  by (intro object_table.filter_unique) (auto simp: object_clash_def)

lemma secret_at_row:
  assumes "vault_inv P k d" and "r \<in> set (db_objects d)" and "ob_type r = ''secret''"
    and "read_secret P k r = Inr m"
  shows "secret_at P k d (ob_lookup r) = Some (m, active_value P k d (ob_id r))"
  using assms secret_rows_unique [of d r] by (simp add: secret_at_def vault_inv_def)

lemma secret_row_inv:
  assumes "vault_inv P k d" and "r \<in> set (db_objects d)" and "ob_type r = ''secret''" and "read_secret P k r = Inr m"
  shows "secret_row_ok P k (history d (ob_id r)) r m"
  using assms by (fastforce simp: vault_inv_def object_ok_def secret_row_ok_def)

lemma active_rows_history: "active_rows d i = filter (\<lambda>v. vr_state v = ''active'') (history d i)"
  by (simp add: active_rows_def history_def filter_filter conj_commute)

lemma history_ok_active:
  assumes "history_ok m h"
  shows "filter (\<lambda>v. vr_state v = ''active'') h = (if sm_state m = ''active'' then [last h] else [])"
proof -
  have "h = butlast h @ [last h]" using assms by (simp add: history_ok_def)
  moreover have "filter (\<lambda>v. vr_state v = ''active'') (butlast h) = []"
    using assms by (simp add: history_ok_def filter_empty_conv)
  ultimately have "filter (\<lambda>v. vr_state v = ''active'') h = filter (\<lambda>v. vr_state v = ''active'') [last h]"
    by (metis append_self_conv2 filter_append)
  then show ?thesis using assms by (simp add: history_ok_def)
qed

text \<open>What was sealed under a key opens under it.\<close>

definition sealed :: "prims \<Rightarrow> bytes \<Rightarrow> bytes \<Rightarrow> bytes \<Rightarrow> bytes \<times> bytes \<Rightarrow> bool" where
  "sealed P key pt ad s \<longleftrightarrow> (\<exists>tape tape'. Seal P key pt ad tape = (Inr s, tape'))"

lemma sealed_open:
  assumes "prims_ok P" and "length key = KeySize" and "sealed P key pt ad s"
  shows "Open P key (fst s) (snd s) ad = Inr pt"
  using assms Open_Seal [OF assms(1,2)] unfolding sealed_def by (metis surjective_pairing)

subsection \<open>Creating a secret\<close>

lemma active_value_version_other [simp]:
  "vr_secret v \<noteq> i \<Longrightarrow> active_value P k (db_version v d) i = active_value P k d i"
  by (simp add: active_value_def active_rows_def db_version_def)

lemma active_value_objects [simp]:
  "active_value P k (db_insert r d) i = active_value P k d i" "active_value P k (db_update Q sl n at d) i = active_value P k d i"
  by (simp_all add: active_value_def active_rows_def)

lemma history_objects [simp]:
  "history (db_insert r d) i = history d i" "history (db_update Q sl n at d) i = history d i"
  by (simp_all add: history_def)

lemma history_version: "history (db_version v d) i = history d i @ (if vr_secret v = i then [v] else [])"
  by (simp add: history_def db_version_def)

lemma history_none:
  assumes "vault_inv P k d" and "i \<notin> ob_id ` set (db_objects d)"
  shows "history d i = []" "active_rows d i = []"
  using assms by (auto simp: vault_inv_def history_def active_rows_def filter_empty_conv)

lemma int_range_Suc: "map (\<lambda>n. int n + 1) [0..<Suc n] = map (\<lambda>n. int n + 1) [0..<n] @ [int n + 1]"
  by simp

lemma create_inv:
  fixes P :: prims and k :: keySet and meta sm vid sv at
  defines "obj \<equiv> object_row (sm_id meta) ''secret'' (secret_token P k meta) sm at"
    and "ver \<equiv> version_row vid (sm_id meta) 1 ''active'' sv at (Some at)"
  assumes "vault_inv P k d" and "prims_ok P" and "keys_ok k" and "secret_ok meta" and "sm_version meta = 1"
    and "sm_state meta = ''active''" and "marshal_secret meta = Inr js"
    and "sealed P (ks_metadata k) js (objectAAD ''secret'' (sm_id meta) 1) sm"
    and "sealed P (ks_dek k) val (secretAAD (sm_id meta) 1) sv"
    and "\<forall>x\<in>set (db_objects d). \<not> object_clash obj x" and "\<forall>x\<in>set (db_versions d). \<not> version_clash ver x"
  shows "vault_inv P k (db_version ver (db_insert obj d))"
    and "secret_at P k d (secret_token P k meta) = None"
    and "secret_at P k (db_version ver (db_insert obj d)) = (secret_at P k d)(secret_token P k meta \<mapsto> (meta, Some val))"
proof -
  let ?d = "db_version ver (db_insert obj d)"
  have keys: "length (ks_metadata k) = KeySize" "length (ks_dek k) = KeySize" using assms(5) by (simp_all add: keys_ok_def)
  have fresh: "sm_id meta \<notin> ob_id ` set (db_objects d)"
    using assms(12) by (auto simp: object_clash_def obj_def object_row_def)
  note none = history_none [OF assms(3) fresh]
  have read: "read_secret P k obj = Inr meta"
    using sealed_open [OF assms(4) keys(1) assms(10)] unmarshal_marshal_secret [OF assms(6,9)]
    by (simp add: read_secret_def obj_def object_row_def)
  have opens: "Open P (ks_dek k) (vr_nonce ver) (vr_ciphertext ver) (secretAAD (sm_id meta) 1) = Inr val"
    using sealed_open [OF assms(4) keys(2) assms(11)] by (simp add: ver_def version_row_def)
  have ver_secret: "vr_secret ver = sm_id meta" by (simp add: ver_def version_row_def)
  have objs: "db_objects ?d = db_objects d @ [obj]" and vers: "db_versions ?d = db_versions d @ [ver]"
    by (simp_all add: db_version_def db_insert_def)
  have hist: "history ?d i = (if i = sm_id meta then [ver] else history d i)" for i
    using none by (auto simp: history_version ver_def version_row_def)
  have "history_ok meta [ver]" using assms(7,8) by (simp add: history_ok_def ver_def version_row_def)
  then have new: "secret_row_ok P k (history ?d (ob_id obj)) obj meta"
    using read assms(6) by (simp add: secret_row_ok_def hist) (simp add: obj_def object_row_def)
  show "vault_inv P k ?d"
    unfolding vault_inv_def
  proof (intro conjI)
    show "set schema \<subseteq> set (db_tables ?d)" using assms(3) by (simp add: vault_inv_def)
    show "consistent object_clash (db_objects ?d)"
      using assms(3,12) object_table.insert_consistent [of "''''" obj "db_objects d"]
      by (simp add: insert_row_Inr objs vault_inv_def)
    show "consistent version_clash (db_versions ?d)"
      using assms(3,13) version_table.insert_consistent [of "''''" ver "db_versions d"]
      by (simp add: insert_row_Inr vers vault_inv_def)
    have "value_ok P k ver" using opens by (auto simp: value_ok_def ver_def version_row_def)
    then show "\<forall>v\<in>set (db_versions ?d). value_ok P k v \<and> vr_secret v \<in> ob_id ` set (db_objects ?d)"
      using assms(3) by (auto simp: vault_inv_def objs vers ver_def obj_def version_row_def object_row_def)
    have "object_ok P k (history ?d (ob_id obj)) obj"
      using new by (auto simp: object_ok_def obj_def object_row_def)
    moreover have "object_ok P k (history ?d (ob_id r)) r" if "r \<in> set (db_objects d)" for r
    proof -
      have "ob_id r \<noteq> sm_id meta" using that fresh by (metis imageI)
      then show ?thesis using that assms(3) by (simp add: vault_inv_def hist)
    qed
    ultimately show "\<forall>r\<in>set (db_objects ?d). object_ok P k (history ?d (ob_id r)) r" by (simp add: objs)
  qed
  have rows: "secret_rows d (secret_token P k meta) = []"
    using assms(12) by (auto simp: secret_rows_def filter_empty_conv object_clash_def obj_def object_row_def)
  then show "secret_at P k d (secret_token P k meta) = None" by (simp add: secret_at_def)
  show "secret_at P k ?d = (secret_at P k d)(secret_token P k meta \<mapsto> (meta, Some val))"
  proof
    fix tok
    have *: "secret_rows ?d tok = secret_rows d tok @ (if tok = secret_token P k meta then [obj] else [])"
      by (simp add: secret_rows_def objs) (simp add: obj_def object_row_def)
    show "secret_at P k ?d tok = ((secret_at P k d)(secret_token P k meta \<mapsto> (meta, Some val))) tok"
    proof (cases "tok = secret_token P k meta")
      case True
      have "active_rows ?d (sm_id meta) = [ver]"
        by (simp add: active_rows_history hist) (simp add: ver_def version_row_def)
      then have "active_value P k ?d (sm_id meta) = Some val"
        using opens by (simp add: active_value_def latest_def open_value_def result_option_def)
          (simp add: ver_def version_row_def)
      then show ?thesis using True rows read * by (simp add: secret_at_def) (simp add: obj_def object_row_def)
    next
      case False
      have "active_value P k ?d (ob_id r) = active_value P k d (ob_id r)" if "r \<in> set (secret_rows d tok)" for r
      proof -
        have "r \<in> set (db_objects d)" using that by (simp add: secret_rows_def)
        then have "ob_id r \<noteq> vr_secret ver" using fresh by (metis imageI ver_secret)
        then show ?thesis by simp
      qed
      then show ?thesis using secret_at_cong [of ?d tok d P k] False * by simp
    qed
  qed
qed

definition created :: "SecretMetadata \<Rightarrow> string \<Rightarrow> gotime \<Rightarrow> SecretMetadata" where
  "created meta i now = meta\<lparr>sm_id := i, sm_version := 1, sm_state := ''active'', sm_created_at := now, sm_updated_at := now\<rparr>"

definition utf8_names :: "SecretMetadata \<Rightarrow> bool" where
  "utf8_names meta \<longleftrightarrow> list_all valid_utf8 [sm_id meta, sm_project meta, sm_environment meta, sm_name meta, sm_profile meta]"

lemma keep_run:
  assumes "keeps m" and "m w = (r, w')"
  shows "w_db w' = w_db w"
  using assms by (rule keepsD)

lemma sealedI: "random (Seal P key pt ad) w = (Inr s, w') \<Longrightarrow> sealed P key pt ad s"
  by (auto simp: random_Inr sealed_def)

lemma CreateSecret_Inr:
  assumes "st_keys s = Some k" and "CreateSecret P s meta val w = (Inr m, w')"
  obtains i js sm vid sv u where
    "(if sm_id meta = [] then \<exists>b. length b = 16 \<and> i = format_id b else i = sm_id meta)"
    "m = created meta i (w_clock w (w_ticks w))" "marshal_secret m = Inr js"
    "sealed P (ks_metadata k) js (objectAAD ''secret'' i 1) sm" "sealed P (ks_dek k) val (secretAAD i 1) sv"
    "create_commit P k m (secret_token P k m) sm vid sv u = (Inr m, w')" "w_db u = w_db w"
proof -
  have "CreateSecret P s meta val w = bnd (if sm_id meta = [] then random randomID else ret (sm_id meta)) (\<lambda>i.
     bnd time_now (\<lambda>now.
     bnd (lift (marshal_secret (created meta i now))) (\<lambda>js.
     bnd (random (Seal P (ks_metadata k) js (objectAAD ''secret'' i 1))) (\<lambda>sm.
     bnd (random randomID) (\<lambda>vid.
     bnd (random (Seal P (ks_dek k) val (secretAAD i 1))) (\<lambda>sv.
     create_commit P k (created meta i now) (secret_token P k (created meta i now)) sm vid sv)))))) w"
    by (simp add: CreateSecret_def copyKeys_def assms(1) run Let_def created_def secret_token_def)
  with assms(2) obtain i w1 now w2 js w3 sm w4 vid w5 sv w6 where
    i: "(if sm_id meta = [] then random randomID else ret (sm_id meta)) w = (Inr i, w1)" and
    now: "time_now w1 = (Inr now, w2)" and js: "lift (marshal_secret (created meta i now)) w2 = (Inr js, w3)" and
    sm: "random (Seal P (ks_metadata k) js (objectAAD ''secret'' i 1)) w3 = (Inr sm, w4)" and
    vid: "random randomID w4 = (Inr vid, w5)" and sv: "random (Seal P (ks_dek k) val (secretAAD i 1)) w5 = (Inr sv, w6)" and
    c: "create_commit P k (created meta i now) (secret_token P k (created meta i now)) sm vid sv w6 = (Inr m, w')"
    by (auto simp only: bnd_Inr)
  have m: "m = created meta i now" using c by (elim create_commit_Inr)
  have n: "now = w_clock w (w_ticks w)" "w_db w2 = w_db w"
    using now fresh_or_given(3) [OF i] by (auto simp: time_now_Inr)
  have "w_db w6 = w_db w"
    using keep_run [OF keeps_base(3) js] keep_run [OF keeps_base(4) sm] keep_run [OF keeps_base(4) vid]
      keep_run [OF keeps_base(4) sv] n(2) by simp
  moreover have "if sm_id meta = [] then \<exists>b. length b = 16 \<and> i = format_id b else i = sm_id meta"
    using fresh_or_given(1,2) [OF i] by simp
  ultimately show thesis
    using that [where i = i and js = js and sm = sm and vid = vid and sv = sv and u = w6] m n(1) js sealedI [OF sm] sealedI [OF sv] c by (simp add: lift_Inr)
qed

lemma CreateSecret_refine:
  assumes "prims_ok P" and "st_keys s = Some k" and "keys_ok k" and "vault_inv P k (w_db w)"
    and "utf8_names meta" and "int64 (sm_strength_bits meta)" and "valid_time (w_clock w (w_ticks w))"
    and "CreateSecret P s meta val w = (Inr m, w')"
  shows "(\<exists>i. m = created meta i (w_clock w (w_ticks w))) \<and> vault_inv P k (w_db w')
    \<and> secret_at P k (w_db w) (secret_token P k meta) = None
    \<and> secret_at P k (w_db w') = (secret_at P k (w_db w))(secret_token P k meta \<mapsto> (m, Some val))"
proof -
  obtain i js sm vid sv u where c: "if sm_id meta = [] then \<exists>b. length b = 16 \<and> i = format_id b else i = sm_id meta"
    "m = created meta i (w_clock w (w_ticks w))" "marshal_secret m = Inr js"
    "sealed P (ks_metadata k) js (objectAAD ''secret'' i 1) sm" "sealed P (ks_dek k) val (secretAAD i 1) sv"
    "create_commit P k m (secret_token P k m) sm vid sv u = (Inr m, w')" "w_db u = w_db w"
    by (rule CreateSecret_Inr [OF assms(2,8)])
  have tok: "secret_token P k m = secret_token P k meta" by (simp add: c(2) created_def secret_token_def)
  have i: "sm_id m = i" by (simp add: c(2) created_def)
  have "valid_utf8 i" using c(1) assms(5) by (auto simp: utf8_names_def split: if_splits)
  then have ok: "secret_ok m" using assms(5-7) by (simp add: secret_ok_def c(2) created_def utf8_names_def int64_def)
      (simp add: ascii_valid_utf8 ascii_def)
  obtain row where row:
    "\<forall>x\<in>set (db_objects (w_db w)). \<not> object_clash (object_row (sm_id m) ''secret'' (secret_token P k m) sm (stamp (sm_created_at m))) x"
    "\<forall>x\<in>set (db_versions (w_db w)). \<not> version_clash (version_row vid (sm_id m) 1 ''active'' sv
        (stamp (sm_created_at m)) (Some (stamp (sm_created_at m)))) x"
    "w_db w' = (db_version (version_row vid (sm_id m) 1 ''active'' sv
        (stamp (sm_created_at m)) (Some (stamp (sm_created_at m))))
      (db_insert (object_row (sm_id m) ''secret'' (secret_token P k m) sm (stamp (sm_created_at m))) (w_db w)))
      \<lparr>db_audit := db_audit (w_db w) @ [row]\<rparr>"
    using c(6) unfolding c(7) [symmetric] by (rule create_commit_Inr)
  have v: "sm_version m = 1" "sm_state m = ''active''" by (simp_all add: c(2) created_def)
  note inv = create_inv [OF assms(4,1,3) ok v c(3) c(4) [folded i] c(5) [folded i] row(1,2)]
  have "vault_inv P k (w_db w')" using inv(1) by (simp add: row(3))
  moreover have "secret_at P k (w_db w') = (secret_at P k (w_db w))(secret_token P k m \<mapsto> (m, Some val))"
    using inv(3) by (simp add: row(3))
  ultimately show ?thesis using c(2) inv(2) unfolding tok by blast
qed

subsection \<open>Changing one secret\<close>

lemma active_value_history:
  "history d' i = history d i \<Longrightarrow> active_value P k d' i = active_value P k d i"
  by (simp add: active_value_def active_rows_history)

lemma row_determined:
  "vault_inv P k d \<Longrightarrow> x \<in> set (db_objects d) \<Longrightarrow> y \<in> set (db_objects d) \<Longrightarrow> ob_id x = ob_id y \<Longrightarrow> x = y"
  by (rule object_table.consistent_unique [of "db_objects d"]) (simp_all add: vault_inv_def object_clash_def)

definition same_keys :: "(ObjectRow \<Rightarrow> ObjectRow) \<Rightarrow> bool" where
  "same_keys f \<longleftrightarrow> (\<forall>x. ob_id (f x) = ob_id x \<and> ob_type (f x) = ob_type x \<and> ob_lookup (f x) = ob_lookup x)"

lemma change_row:
  assumes inv: "vault_inv P k d" and r: "r \<in> set (db_objects d)"
    and tables: "db_tables d' = db_tables d" and objs: "db_objects d' = update_where Q f (db_objects d)"
    and f: "same_keys f" and Q: "Q r" "\<And>x. x \<in> set (db_objects d) \<Longrightarrow> Q x \<Longrightarrow> ob_id x = ob_id r"
    and other: "\<And>i. i \<noteq> ob_id r \<Longrightarrow> history d' i = history d i"
    and vers: "consistent version_clash (db_versions d')"
      "\<And>v. v \<in> set (db_versions d') \<Longrightarrow> value_ok P k v \<and> vr_secret v \<in> ob_id ` set (db_objects d)"
    and row: "object_ok P k (history d' (ob_id r)) (f r)"
  shows "vault_inv P k d'"
proof -
  have only: "x = r" if "x \<in> set (db_objects d)" "Q x" for x
    using row_determined [OF inv that(1) r] Q(2) [OF that] by simp
  have clash: "object_clash (f a) b = object_clash a b" "object_clash a (f b) = object_clash a b" for a b
    using f by (simp_all add: object_clash_def same_keys_def)
  have ids: "ob_id ` set (db_objects d') = ob_id ` set (db_objects d)"
    using f unfolding objs set_update_where image_image by (intro image_cong) (auto simp: same_keys_def)
  show "vault_inv P k d'"
    unfolding vault_inv_def
  proof (intro conjI ballI)
    show "set schema \<subseteq> set (db_tables d')" using inv tables by (simp add: vault_inv_def)
    show "consistent object_clash (db_objects d')"
      using inv unfolding objs by (intro object_table.update_consistent) (simp_all add: clash vault_inv_def)
    show "consistent version_clash (db_versions d')" by (rule vers(1))
    show "value_ok P k v" if "v \<in> set (db_versions d')" for v using vers(2) that by simp
    show "vr_secret v \<in> ob_id ` set (db_objects d')" if "v \<in> set (db_versions d')" for v
      using vers(2) that by (simp add: ids)
    show "object_ok P k (history d' (ob_id x)) x" if x: "x \<in> set (db_objects d')" for x
    proof -
      obtain y where y: "y \<in> set (db_objects d)" "x = (if Q y then f y else y)"
        using x by (auto simp: objs set_update_where)
      show ?thesis
      proof (cases "Q y")
        case True
        then have "y = r" by (rule only [OF y(1)])
        then show ?thesis using row y(2) True f by (simp add: same_keys_def)
      next
        case False
        then have "y \<noteq> r" using Q(1) by auto
        then have "ob_id y \<noteq> ob_id r" using row_determined [OF inv y(1) r] by auto
        then show ?thesis using inv y False by (simp add: other vault_inv_def)
      qed
    qed
  qed
qed

lemma change_inv:
  assumes inv: "vault_inv P k d" and r: "r \<in> set (db_objects d)" "ob_type r = ''secret''"
    and tables: "db_tables d' = db_tables d" and objs: "db_objects d' = update_where Q f (db_objects d)"
    and f: "same_keys f" and Q: "Q r" "\<And>x. x \<in> set (db_objects d) \<Longrightarrow> Q x \<Longrightarrow> ob_id x = ob_id r"
    and other: "\<And>i. i \<noteq> ob_id r \<Longrightarrow> history d' i = history d i"
    and vers: "consistent version_clash (db_versions d')"
      "\<And>v. v \<in> set (db_versions d') \<Longrightarrow> value_ok P k v \<and> vr_secret v \<in> ob_id ` set (db_objects d)"
    and row: "secret_row_ok P k (history d' (ob_id r)) (f r) m'"
  shows "vault_inv P k d'"
    and "secret_at P k d' = (secret_at P k d)(ob_lookup r \<mapsto> (m', active_value P k d' (ob_id r)))"
proof -
  have "object_ok P k (history d' (ob_id r)) (f r)"
    using row f r(2) by (auto simp: object_ok_def same_keys_def)
  from change_row [OF inv r(1) tables objs f Q other vers this] show "vault_inv P k d'" .
  have only: "x = r" if "x \<in> set (db_objects d)" "Q x" for x
    using row_determined [OF inv that(1) r(1)] Q(2) [OF that] by simp
  have rows: "secret_rows d' tok = update_where Q f (secret_rows d tok)" for tok
    using f unfolding secret_rows_def objs by (intro filter_update_where) (simp add: same_keys_def)
  have at_r: "secret_rows d (ob_lookup r) = [r]"
    using inv r by (intro secret_rows_unique) (simp_all add: vault_inv_def)
  show "secret_at P k d' = (secret_at P k d)(ob_lookup r \<mapsto> (m', active_value P k d' (ob_id r)))"
  proof
    fix tok
    show "secret_at P k d' tok = ((secret_at P k d)(ob_lookup r \<mapsto> (m', active_value P k d' (ob_id r)))) tok"
    proof (cases "tok = ob_lookup r")
      case True
      then show ?thesis using rows [of tok] at_r row f Q(1)
        by (simp add: secret_at_def secret_row_ok_def same_keys_def)
    next
      case False
      have *: "x \<in> set (db_objects d) \<and> x \<noteq> r" if "x \<in> set (secret_rows d tok)" for x
        using that False by (auto simp: secret_rows_def)
      then have "secret_rows d' tok = secret_rows d tok"
        unfolding rows using only by (intro update_where_none) blast
      moreover have "active_value P k d' (ob_id x) = active_value P k d (ob_id x)" if "x \<in> set (secret_rows d tok)" for x
        using * [OF that] row_determined [OF inv _ r(1)] by (intro active_value_history other) blast
      ultimately show ?thesis using secret_at_cong [of d' tok d P k] False by simp
    qed
  qed
qed

subsection \<open>Rotating a secret\<close>

lemma rotate_versions:
  assumes "\<forall>x\<in>set (db_versions d). vr_id x \<noteq> ch_version_id ch"
  shows "db_versions (db_rotate ch d) =
    update_where (\<lambda>v. vr_secret v = sm_id (ch_meta ch) \<and> vr_state v = ''active'')
      (\<lambda>v. v\<lparr>vr_state := ''retired'', vr_retired_at := Some (stamp (sm_updated_at (ch_meta ch)))\<rparr>) (db_versions d)
    @ [version_row (ch_version_id ch) (sm_id (ch_meta ch)) (sm_version (ch_meta ch)) ''active'' (ch_sealed_value ch)
        (stamp (sm_updated_at (ch_meta ch))) (Some (stamp (sm_updated_at (ch_meta ch))))]"
proof -
  let ?R = "\<lambda>v. vr_secret v = sm_id (ch_meta ch) \<and> vr_state v = ''active''"
  let ?ret = "\<lambda>v. v\<lparr>vr_state := ''retired'', vr_retired_at := Some (stamp (sm_updated_at (ch_meta ch)))\<rparr>"
  have "update_where (\<lambda>r. vr_id r = ch_version_id ch) g (update_where ?R ?ret (db_versions d))
      = update_where ?R ?ret (db_versions d)" for g
    using assms by (intro update_where_none) (auto simp: set_update_where)
  then show ?thesis
    by (simp add: db_rotate_def Let_def db_activate_def db_retire_def db_version_def) (simp add: version_row_def)
qed

lemma history_retire:
  "filter (\<lambda>v. vr_secret v = i) (update_where (\<lambda>v. vr_secret v = j \<and> vr_state v = ''active'')
     (\<lambda>v. v\<lparr>vr_state := st, vr_retired_at := at\<rparr>) vs) =
   update_where (\<lambda>v. vr_secret v = j \<and> vr_state v = ''active'')
     (\<lambda>v. v\<lparr>vr_state := st, vr_retired_at := at\<rparr>) (filter (\<lambda>v. vr_secret v = i) vs)"
  by (rule filter_update_where) simp

lemma retire_states:
  "st \<noteq> ''active'' \<Longrightarrow> \<forall>v\<in>set h. vr_secret v = j \<Longrightarrow>
    \<forall>v\<in>set (update_where (\<lambda>v. vr_secret v = j \<and> vr_state v = ''active'')
      (\<lambda>v. v\<lparr>vr_state := st, vr_retired_at := at\<rparr>) h). vr_state v \<noteq> ''active''"
  by (auto simp: set_update_where)

lemma retire_consistent:
  "consistent version_clash vs \<Longrightarrow> consistent version_clash (update_where Q (\<lambda>v. v\<lparr>vr_state := st, vr_retired_at := at\<rparr>) vs)"
  by (rule version_table.update_consistent) (simp_all add: version_clash_def)

lemma retire_value_ok:
  assumes "\<forall>v\<in>set vs. value_ok P k v \<and> vr_secret v \<in> S"
    and "v \<in> set (update_where Q (\<lambda>v. v\<lparr>vr_state := st, vr_retired_at := at\<rparr>) vs)"
  shows "value_ok P k v \<and> vr_secret v \<in> S"
  using assms by (auto simp: set_update_where value_ok_def)

lemma history_secret: "\<forall>v\<in>set (history d i). vr_secret v = i"
  by (simp add: history_def)

lemma history_numbers:
  assumes "history_ok m (history d i)" and "v \<in> set (db_versions d)" and "vr_secret v = i"
  shows "vr_number v \<le> sm_version m"
proof -
  have "v \<in> set (history d i)" using assms by (simp add: history_def)
  then have "vr_number v \<in> set (map vr_number (history d i))" by simp
  then have "vr_number v \<in> set (map (\<lambda>n. int n + 1) [0..<length (history d i)])"
    using assms(1) unfolding history_ok_def by metis
  then show ?thesis using assms(1) by (auto simp: history_ok_def)
qed

lemma rotate_inv:
  assumes inv: "vault_inv P k d" and P: "prims_ok P" "keys_ok k"
    and r: "r \<in> set (db_objects d)" "ob_type r = ''secret''" "read_secret P k r = Inr m"
    and m': "ch_meta ch = m'" "sm_id m' = sm_id m" "secret_token P k m' = secret_token P k m"
      "sm_version m' = sm_version m + 1" "sm_state m' = ''active''" "secret_ok m'" "marshal_secret m' = Inr js"
    and ch: "ch_revision ch = ob_revision r"
      "sealed P (ks_metadata k) js (objectAAD ''secret'' (sm_id m') (inc64 (ob_revision r))) (ch_sealed_meta ch)"
      "sealed P (ks_dek k) val (secretAAD (sm_id m') (sm_version m')) (ch_sealed_value ch)"
      "\<forall>x\<in>set (db_versions d). vr_id x \<noteq> ch_version_id ch"
  shows "vault_inv P k (db_rotate ch d)"
    and "secret_at P k (db_rotate ch d) = (secret_at P k d)(secret_token P k m \<mapsto> (m', Some val))"
proof -
  let ?d = "db_rotate ch d" and ?at = "stamp (sm_updated_at m')"
  let ?ret = "update_where (\<lambda>v. vr_secret v = sm_id m' \<and> vr_state v = ''active'')
    (\<lambda>v. v\<lparr>vr_state := ''retired'', vr_retired_at := Some ?at\<rparr>)"
  define new where "new = version_row (ch_version_id ch) (sm_id m') (sm_version m') ''active'' (ch_sealed_value ch) ?at (Some ?at)"
  define Q where "Q = (\<lambda>x :: ObjectRow. ob_id x = sm_id m' \<and> ob_revision x = ch_revision ch)"
  define f where "f = (\<lambda>x :: ObjectRow. x\<lparr>ob_nonce := fst (ch_sealed_meta ch), ob_ciphertext := snd (ch_sealed_meta ch),
    ob_revision := inc64 (ch_revision ch), ob_updated_at := ?at\<rparr>)"
  have ok: "secret_row_ok P k (history d (ob_id r)) r m" by (rule secret_row_inv [OF inv r])
  then have i: "sm_id m' = ob_id r" and tok: "ob_lookup r = secret_token P k m" and h: "history_ok m (history d (ob_id r))"
    using m'(2) by (simp_all add: secret_row_ok_def)
  have keys: "length (ks_metadata k) = KeySize" "length (ks_dek k) = KeySize" using P(2) by (simp_all add: keys_ok_def)
  have vers: "db_versions ?d = ?ret (db_versions d) @ [new]"
    using rotate_versions [OF ch(4)] by (simp add: m'(1) new_def)
  have new: "vr_secret new = ob_id r" "vr_number new = sm_version m'" "vr_state new = ''active''" "vr_id new = ch_version_id ch"
    "vr_nonce new = fst (ch_sealed_value ch)" "vr_ciphertext new = snd (ch_sealed_value ch)"
    by (simp_all add: new_def version_row_def i)
  have hist: "history ?d j = (if j = ob_id r then ?ret (history d j) @ [new] else history d j)" for j
    unfolding history_def vers filter_append history_retire
    by (auto simp: new i intro!: update_where_none)
  have opens: "Open P (ks_dek k) (vr_nonce new) (vr_ciphertext new) (secretAAD (ob_id r) (vr_number new)) = Inr val"
    using sealed_open [OF P(1) keys(2) ch(3)] by (simp add: new i)
  have states: "\<forall>v\<in>set (?ret (history d (ob_id r))). vr_state v \<noteq> ''active''"
    using history_secret [of d "ob_id r"] unfolding i by (intro retire_states) simp_all
  have hok: "history_ok m' (history ?d (ob_id r))"
    using h states m'(4,5) by (simp add: hist history_ok_def map_update_where new)
  have read: "read_secret P k (f r) = Inr m'"
    using sealed_open [OF P(1) keys(1) ch(2)] unmarshal_marshal_secret [OF m'(6,7)]
    by (simp add: read_secret_def f_def ch(1) i)
  have "secret_row_ok P k (history ?d (ob_id r)) (f r) m'"
    using read hok m'(3,6) i tok by (simp add: secret_row_ok_def f_def)
  note row = this
  have clash: "\<forall>x\<in>set (?ret (db_versions d)). \<not> version_clash new x"
  proof
    fix x assume "x \<in> set (?ret (db_versions d))"
    then obtain y where y: "y \<in> set (db_versions d)" "vr_id x = vr_id y" "vr_secret x = vr_secret y" "vr_number x = vr_number y"
      by (auto simp: set_update_where split: if_splits)
    then have "vr_secret y = ob_id r \<Longrightarrow> vr_number y < sm_version m'"
      using history_numbers [OF h y(1)] m'(4) by simp
    then show "\<not> version_clash new x" using y ch(4) by (auto simp: version_clash_def new)
  qed
  have cons: "consistent version_clash (db_versions ?d)"
    using version_table.insert_consistent [of "''''" new "?ret (db_versions d)"] clash inv retire_consistent
    by (simp add: vers insert_row_Inr vault_inv_def)
  have vok: "value_ok P k v \<and> vr_secret v \<in> ob_id ` set (db_objects d)" if "v \<in> set (db_versions ?d)" for v
  proof (cases "v = new")
    case True
    then show ?thesis using opens r(1) by (auto simp: value_ok_def new)
  next
    case False
    then have "v \<in> set (?ret (db_versions d))" using that by (simp add: vers)
    then show ?thesis using inv by (intro retire_value_ok) (auto simp: vault_inv_def)
  qed
  have objs: "db_objects ?d = update_where Q f (db_objects d)"
    by (simp add: db_rotate_def Let_def db_update_def m'(1) Q_def f_def)
  have tables: "db_tables ?d = db_tables d" by (simp add: db_rotate_def Let_def)
  have f: "same_keys f" by (simp add: same_keys_def f_def)
  have Q: "Q r" "\<And>x. x \<in> set (db_objects d) \<Longrightarrow> Q x \<Longrightarrow> ob_id x = ob_id r" by (simp_all add: Q_def i ch(1))
  have other: "\<And>j. j \<noteq> ob_id r \<Longrightarrow> history ?d j = history d j" by (simp add: hist)
  note changed = change_inv [OF inv r(1,2) tables objs f Q other cons vok row]
  show "vault_inv P k ?d" by (rule changed(1))
  have "active_rows ?d (ob_id r) = [new]"
    using states by (simp add: active_rows_history hist filter_empty_conv new)
  then have "active_value P k ?d (ob_id r) = Some val"
    using opens by (simp add: active_value_def latest_def open_value_def result_option_def)
  then show "secret_at P k ?d = (secret_at P k d)(secret_token P k m \<mapsto> (m', Some val))"
    using changed(2) tok by simp
qed

definition found :: "prims \<Rightarrow> keySet \<Rightarrow> database \<Rightarrow> string \<Rightarrow> ObjectRow \<Rightarrow> SecretMetadata \<Rightarrow> bool" where
  "found P k d tok r m \<longleftrightarrow> r \<in> set (db_objects d) \<and> ob_type r = ''secret'' \<and> ob_lookup r = tok \<and> read_secret P k r = Inr m"

lemma first_row_Inr: "first_row (filter Q rows) = Inr r \<Longrightarrow> r \<in> set rows \<and> Q r"
  by (auto simp: first_row_def split: list.splits dest: filter_head)

lemma select_object_Inr:
  "select_object ty tok d = Inr r \<Longrightarrow> r \<in> set (db_objects d) \<and> ob_type r = ty \<and> ob_lookup r = tok"
  by (auto simp: select_object_def on_table_Inr dest: first_row_Inr)

lemma query_Inr_db: "query f w = (Inr y, w') \<Longrightarrow> f (w_db w) = Inr y \<and> w_db w' = w_db w \<and> w_clock w' = w_clock w \<and> w_ticks w' = w_ticks w"
  by (auto simp: query_Inr dest: driver_same)

lemma findSecretMetadata_Inr:
  assumes "findSecretMetadata P k scope name w = (Inr (m, rv), w')"
  obtains r where "found P k (w_db w) (secretLookup P (ks_lookup k) (sc_project scope) (sc_environment scope) name) r m"
    "rv = ob_revision r" "w_db w' = w_db w" "w_clock w' = w_clock w" "w_ticks w' = w_ticks w"
proof -
  let ?tok = "secretLookup P (ks_lookup k) (sc_project scope) (sc_environment scope) name"
  obtain r w1 where q: "query (select_object ''secret'' ?tok) w = (Inr r, w1)" and "read_secret P k r = Inr m"
    "rv = ob_revision r" "w' = w1"
    using assms by (auto simp: findSecretMetadata_def bnd_Inr on_error_Inr fail_Inr lift_Inr ret_Inr)
  with query_Inr_db [OF q] select_object_Inr show thesis by (intro that [of r]) (auto simp: found_def)
qed

definition rotated :: "SecretMetadata \<Rightarrow> string \<Rightarrow> int \<Rightarrow> gotime \<Rightarrow> SecretMetadata" where
  "rotated m profile strength now = m\<lparr>sm_profile := profile, sm_strength_bits := strength,
     sm_version := inc64 (sm_version m), sm_state := ''active'', sm_updated_at := now\<rparr>"

definition revoked :: "SecretMetadata \<Rightarrow> gotime \<Rightarrow> SecretMetadata" where
  "revoked m now = m\<lparr>sm_state := ''revoked'', sm_updated_at := now\<rparr>"

abbreviation scope_token :: "prims \<Rightarrow> keySet \<Rightarrow> Scope \<Rightarrow> string \<Rightarrow> string" where
  "scope_token P k scope name \<equiv> secretLookup P (ks_lookup k) (sc_project scope) (sc_environment scope) name"

lemma rotate_prepare_Inr:
  assumes "rotate_prepare P k scope name profile strength val w = (Inr ch, w')"
  obtains r m js where "found P k (w_db w) (scope_token P k scope name) r m"
    "ch_meta ch = rotated m profile strength (w_clock w (w_ticks w))" "marshal_secret (ch_meta ch) = Inr js"
    "ch_revision ch = ob_revision r"
    "sealed P (ks_metadata k) js (objectAAD ''secret'' (sm_id m) (inc64 (ob_revision r))) (ch_sealed_meta ch)"
    "sealed P (ks_dek k) val (secretAAD (sm_id m) (inc64 (sm_version m))) (ch_sealed_value ch)"
    "w_db w' = w_db w"
proof -
  obtain m rv w1 now w2 vid w3 sv w4 js w5 sm where
    f: "findSecretMetadata P k scope name w = (Inr (m, rv), w1)" and now: "time_now w1 = (Inr now, w2)" and
    vid: "random randomID w2 = (Inr vid, w3)" and
    sv: "random (Seal P (ks_dek k) val (secretAAD (sm_id m) (inc64 (sm_version m)))) w3 = (Inr sv, w4)" and
    js: "lift (marshal_secret (rotated m profile strength now)) w4 = (Inr js, w5)" and
    sm: "random (Seal P (ks_metadata k) js (objectAAD ''secret'' (sm_id m) (inc64 rv))) w5 = (Inr sm, w')" and
    ch: "ch = \<lparr>ch_meta = rotated m profile strength now, ch_revision = rv, ch_sealed_meta = sm, ch_version_id = vid, ch_sealed_value = sv\<rparr>"
    using assms by (auto simp: rotate_prepare_def bnd_Inr ret_Inr Let_def rotated_def)
  obtain r where r: "found P k (w_db w) (scope_token P k scope name) r m" "rv = ob_revision r" "w_db w1 = w_db w"
    "w_clock w1 = w_clock w" "w_ticks w1 = w_ticks w"
    by (rule findSecretMetadata_Inr [OF f])
  have "w_db w' = w_db w" by (rule keep_run [OF keeps_prepare(1) assms])
  moreover have "now = w_clock w (w_ticks w)" using now r by (simp add: time_now_Inr)
  ultimately show thesis
    using that [OF r(1)] js sealedI [OF sv] sealedI [OF sm] r(2) by (simp add: ch lift_Inr)
qed

lemma revoke_prepare_Inr:
  assumes "revoke_prepare P k scope name w = (Inr ch, w')"
  obtains r m where "found P k (w_db w) (scope_token P k scope name) r m"
    "ch_meta ch = revoked m (w_clock w (w_ticks w))" "ch_revision ch = ob_revision r"
    "sealed P (ks_metadata k) (case marshal_secret (ch_meta ch) of Inr b \<Rightarrow> b | Inl _ \<Rightarrow> [])
       (objectAAD ''secret'' (sm_id m) (inc64 (ob_revision r))) (ch_sealed_meta ch)"
    "w_db w' = w_db w"
proof -
  obtain m rv w1 now w2 sm where
    f: "findSecretMetadata P k scope name w = (Inr (m, rv), w1)" and now: "time_now w1 = (Inr now, w2)" and
    sm: "random (Seal P (ks_metadata k) (case marshal_secret (revoked m now) of Inr b \<Rightarrow> b | Inl _ \<Rightarrow> [])
       (objectAAD ''secret'' (sm_id m) (inc64 rv))) w2 = (Inr sm, w')" and
    ch: "ch = \<lparr>ch_meta = revoked m now, ch_revision = rv, ch_sealed_meta = sm, ch_version_id = [], ch_sealed_value = ([], [])\<rparr>"
    using assms by (auto simp: revoke_prepare_def bnd_Inr ret_Inr Let_def revoked_def)
  obtain r where r: "found P k (w_db w) (scope_token P k scope name) r m" "rv = ob_revision r" "w_db w1 = w_db w"
    "w_clock w1 = w_clock w" "w_ticks w1 = w_ticks w"
    by (rule findSecretMetadata_Inr [OF f])
  have "w_db w' = w_db w" by (rule keep_run [OF keeps_prepare(2) assms])
  moreover have "now = w_clock w (w_ticks w)" using now r by (simp add: time_now_Inr)
  ultimately show thesis using that [OF r(1)] sealedI [OF sm] r(2) by (simp add: ch)
qed

lemma found_at:
  assumes "vault_inv P k d" and "found P k d tok r m"
  shows "secret_at P k d tok = Some (m, active_value P k d (ob_id r))" and "secret_token P k m = tok"
    and "secret_ok m" and "sm_id m = ob_id r"
  using secret_at_row [OF assms(1)] secret_row_inv [OF assms(1)] assms(2)
  by (auto simp: found_def secret_row_ok_def)

text \<open>The version of a secret is the number of its versions, so it does not overflow in a roomy vault.\<close>

lemma inc64_version:
  assumes "vault_inv P k d" and "roomy d" and "found P k d tok r m"
  shows "inc64 (sm_version m) = sm_version m + 1"
proof -
  have "history_ok m (history d (ob_id r))"
    using secret_row_inv [OF assms(1)] assms(3) by (auto simp: found_def secret_row_ok_def)
  moreover have "length (history d (ob_id r)) \<le> length (db_versions d)" by (simp add: history_def)
  ultimately show ?thesis using assms(2) by (simp add: history_ok_def roomy_def inc64_def)
qed

lemma RotateSecret_refine:
  assumes "prims_ok P" and "st_keys s = Some k" and "keys_ok k" and "vault_inv P k (w_db w)" and "roomy (w_db w)"
    and "valid_utf8 profile" and "int64 strength" and "valid_time (w_clock w (w_ticks w))"
    and "RotateSecret P s scope name profile strength val w = (Inr m', w')"
  shows "\<exists>m v. secret_at P k (w_db w) (scope_token P k scope name) = Some (m, v)
    \<and> m' = rotated m profile strength (w_clock w (w_ticks w)) \<and> sm_version m' = sm_version m + 1
    \<and> vault_inv P k (w_db w')
    \<and> secret_at P k (w_db w') = (secret_at P k (w_db w))(scope_token P k scope name \<mapsto> (m', Some val))"
proof -
  obtain ch u where prep: "rotate_prepare P k scope name profile strength val w = (Inr ch, u)"
    and com: "rotate_commit P k ch u = (Inr m', w')"
    using assms(9) by (auto simp: RotateSecret_def copyKeys_def assms(2) bnd_Inr lift_Inr)
  obtain r m js where r: "found P k (w_db w) (scope_token P k scope name) r m"
    "ch_meta ch = rotated m profile strength (w_clock w (w_ticks w))" "marshal_secret (ch_meta ch) = Inr js"
    "ch_revision ch = ob_revision r"
    "sealed P (ks_metadata k) js (objectAAD ''secret'' (sm_id m) (inc64 (ob_revision r))) (ch_sealed_meta ch)"
    "sealed P (ks_dek k) val (secretAAD (sm_id m) (inc64 (sm_version m))) (ch_sealed_value ch)"
    "w_db u = w_db w"
    by (rule rotate_prepare_Inr [OF prep])
  obtain row where c: "m' = ch_meta ch" "\<forall>x\<in>set (db_versions (w_db w)). vr_id x \<noteq> ch_version_id ch"
    "w_db w' = (db_rotate ch (w_db w))\<lparr>db_audit := db_audit (w_db w) @ [row]\<rparr>"
    using com unfolding r(7) [symmetric] by (rule rotate_commit_Inr)
  note f = found_at [OF assms(4) r(1)]
  have inc: "inc64 (sm_version m) = sm_version m + 1" by (rule inc64_version [OF assms(4,5) r(1)])
  have m': "sm_id m' = sm_id m" "secret_token P k m' = secret_token P k m" "sm_version m' = sm_version m + 1"
    "sm_state m' = ''active''"
    by (simp_all add: c(1) r(2) rotated_def secret_token_def inc)
  have ok: "secret_ok m'"
    using f(3) assms(6-8) int64_inc64 [of "sm_version m"]
    by (simp add: secret_ok_def c(1) r(2) rotated_def) (simp add: ascii_valid_utf8 ascii_def)
  have rr: "r \<in> set (db_objects (w_db w))" "ob_type r = ''secret''" "read_secret P k r = Inr m"
    using r(1) by (simp_all add: found_def)
  have "sealed P (ks_dek k) val (secretAAD (sm_id m') (sm_version m')) (ch_sealed_value ch)"
    using r(6) by (simp add: m' inc)
  moreover have "sealed P (ks_metadata k) js (objectAAD ''secret'' (sm_id m') (inc64 (ob_revision r))) (ch_sealed_meta ch)"
    using r(5) by (simp add: m')
  ultimately have inv: "vault_inv P k (db_rotate ch (w_db w))"
    "secret_at P k (db_rotate ch (w_db w)) = (secret_at P k (w_db w))(secret_token P k m \<mapsto> (m', Some val))"
    using rotate_inv [OF assms(4,1,3) rr c(1) [symmetric] m' ok r(3) [folded c(1)] r(4) _ _ c(2)] by blast+
  then have "vault_inv P k (w_db w')"
    "secret_at P k (w_db w') = (secret_at P k (w_db w))(scope_token P k scope name \<mapsto> (m', Some val))"
    using f(2) by (simp_all add: c(3))
  then show ?thesis using f(1) m'(3) r(2) c(1) by blast
qed

end
