(* ===== verification/VaultInit.thy ===== *)
theory VaultInit
  imports VaultRefine
begin

section \<open>Creating, opening and unlocking a vault\<close>

text \<open>
  What \<open>Initialize\<close> leaves on disk and how \<open>Open\<close>, \<open>Unlock\<close> and \<open>VerifyPassword\<close> read it: the master
  password of the initialization gives back the data key and with it the same keys, and the new vault
  satisfies the invariant of the store.
\<close>

lemma on_file_Inr:
  "on_file m w = (Inr y, w') \<longleftrightarrow> (\<exists>d v. w_db w = Some d \<and> m (with_db w d) = (Inr y, v) \<and> w' = with_db v (Some (w_db v)))"
  by (auto simp: on_file_def with_db_def split: option.splits prod.splits)

lemma on_file_run: "w_db w = Some d \<Longrightarrow> m (with_db w d) = (r, v) \<Longrightarrow> on_file m w = (r, with_db v (Some (w_db v)))"
  by (simp add: on_file_def with_db_def)

definition vault_wrapper :: "KDFParams \<Rightarrow> bytes \<Rightarrow> bytes \<times> bytes \<Rightarrow> string \<Rightarrow> WrapperRow" where
  "vault_wrapper params salt sl at = \<lparr>kw_id = ''password-primary'', kw_type = ''password-argon2id'',
     kw_params = marshal_KDFParams params, kw_salt = salt, kw_nonce = fst sl, kw_ciphertext = snd sl,
     kw_active = 1, kw_created_at = at\<rparr>"

definition new_vault :: "string \<Rightarrow> KDFParams \<Rightarrow> bytes \<Rightarrow> bytes \<times> bytes \<Rightarrow> string \<Rightarrow> string \<Rightarrow> database" where
  "new_vault vaultID params salt sl since at = empty_db\<lparr>db_tables := schema,
     db_metadata := [(''schema_version'', schemaVersion), (''vault_id'', vaultID), (''created_at'', since)],
     db_wrappers := [vault_wrapper params salt sl at]\<rparr>"

lemma createSchema_new:
  assumes "createSchema w = (Inr u, w')" and "w_db w = empty_db"
  shows "w_db w' = empty_db\<lparr>db_tables := schema\<rparr>"
proof -
  obtain x v where "w_db x = w_db w" "create_tables schema x = (Inr u, v)" "w_db w' = w_db v"
    using assms(1) unfolding createSchema_def by (rule transaction_db) blast
  then show ?thesis
    using assms(2) by (auto simp: schema_def effect_inr create_table_def empty_db_def split: if_splits)
qed

lemma write_wrapper_new:
  assumes "write_wrapper vaultID params salt nonce ct w = (Inr u, w')" and "w_db w = empty_db\<lparr>db_tables := schema\<rparr>"
  shows "\<exists>since at. w_db w' = new_vault vaultID params salt (nonce, ct) since at"
proof -
  obtain x v where "w_db x = w_db w" and v: "w_db w' = w_db v" and run: "bnd time_now (\<lambda>since.
       bnd (insert_all_metadata [(''schema_version'', schemaVersion), (''vault_id'', vaultID),
              (''created_at'', stamp since)]) (\<lambda>_.
       bnd time_now (\<lambda>now.
       exec (insert_wrapper (vault_wrapper params salt (nonce, ct) (stamp now)))))) x = (Inr u, v)"
    using assms(1) unfolding write_wrapper_def vault_wrapper_def fst_conv snd_conv by (rule transaction_db) blast
  then show ?thesis
    using assms(2)
    by (auto simp: effect_inr insert_metadata_def insert_wrapper_def insert_row_def on_table_def metadata_clash_def
        wrapper_clash_def schema_def empty_db_def new_vault_def v)
qed

text \<open>The password opens the wrapper: what \<open>unwrapDEK\<close> computes with it.\<close>

definition opens_with :: "prims \<Rightarrow> bytes \<Rightarrow> KDFParams \<Rightarrow> bytes \<Rightarrow> string \<Rightarrow> bytes \<times> bytes \<Rightarrow> bytes \<Rightarrow> bool" where
  "opens_with P password params salt vaultID sl dek \<longleftrightarrow>
     (\<exists>kek wrapKey. DeriveKEK P password salt params = Inr kek
        \<and> ExpandKey P kek ''password-wrapper'' = Inr wrapKey
        \<and> Open P wrapKey (fst sl) (snd sl) (wrapperAAD vaultID) = Inr dek)"

lemma unwrapDEK_new:
  assumes "w_db w = new_vault vaultID params salt sl since at" and "w_faults w = []" and "st_vaultID s = vaultID"
    and "opens_with P password params salt vaultID sl dek"
  shows "unwrapDEK P s password w = (Inr dek, w)"
proof -
  obtain kek wrapKey where k: "DeriveKEK P password salt params = Inr kek"
    "ExpandKey P kek ''password-wrapper'' = Inr wrapKey" "Open P wrapKey (fst sl) (snd sl) (wrapperAAD vaultID) = Inr dek"
    using assms(4) by (auto simp: opens_with_def)
  have "select_wrapper (w_db w) = Inr (vault_wrapper params salt sl at)"
    by (simp add: assms(1) select_wrapper_def on_table_def new_vault_def schema_def latest_def vault_wrapper_def)
  then show ?thesis
    using k by (simp add: unwrapDEK_def wrap_error_def bnd_def on_error_def query_clean [OF assms(2)] lift_def
        vault_wrapper_def unmarshal_marshal_KDFParams assms(3))
qed

lemma initialize_store_new:
  assumes "initialize_store P password params s0 w = (Inr s, w')" and "w_db w = Some empty_db" and "prims_ok P"
  shows "\<exists>vaultID salt sl dek since at k. w_db w' = Some (new_vault vaultID params salt sl since at)
    \<and> s = s0\<lparr>st_vaultID := vaultID, st_keys := Some k\<rparr> \<and> expand_keys P dek = Inr k \<and> length dek = KeySize
    \<and> opens_with P password params salt vaultID sl dek"
proof -
  obtain u1 w1 vid w2 dek w3 salt w4 kek wk nonce ct w5 u6 w6 u7 w7 where
    c: "on_file createSchema w = (Inr u1, w1)" and vid: "random randomID w1 = (Inr vid, w2)" and
    dek: "random (RandomBytes KeySize) w2 = (Inr dek, w3)" and salt: "random (RandomBytes SaltSize) w3 = (Inr salt, w4)" and
    kek: "DeriveKEK P password salt params = Inr kek" and wk: "ExpandKey P kek ''password-wrapper'' = Inr wk" and
    sl: "random (Seal P wk dek (wrapperAAD vid)) w4 = (Inr (nonce, ct), w5)" and
    wr: "on_file (write_wrapper vid params salt nonce ct) w5 = (Inr u6, w6)" and
    dr: "driver w6 = (Inr u7, w7)" and ik: "installKeysLocked P dek (s0\<lparr>st_vaultID := vid\<rparr>) = Inr s" and w': "w' = w7"
    using assms(1) unfolding initialize_store_def
    by (auto simp only: bnd_Inr wrap_error_Inr lift_Inr split_paired_Ex prod.case)
  obtain k where k: "expand_keys P dek = Inr k" "s = s0\<lparr>st_vaultID := vid, st_keys := Some k\<rparr>"
    using ik by (auto simp: installKeysLocked_def and_then_Inr)
  have d1: "w_db w1 = Some (empty_db\<lparr>db_tables := schema\<rparr>)"
    using c createSchema_new [of "with_db w empty_db"] assms(2) by (auto simp: on_file_Inr)
  have "w_db w5 = w_db w1" using vid dek salt sl by (auto simp: random_Inr)
  then obtain since at where d6: "w_db w6 = Some (new_vault vid params salt (nonce, ct) since at)"
    using wr d1 write_wrapper_new [of vid params salt nonce ct "with_db w5 (empty_db\<lparr>db_tables := schema\<rparr>)"]
    by (auto simp: on_file_Inr)
  have len: "length dek = KeySize" using dek by (auto simp: random_Inr RandomBytes_Inr)
  have "length wk = KeySize" using ExpandKey_ok [OF assms(3), of kek "''password-wrapper''"] wk by auto
  then have "Open P wk nonce ct (wrapperAAD vid) = Inr dek"
    using sl Open_Seal [OF assms(3)] by (auto simp: random_Inr)
  then have "opens_with P password params salt vid (nonce, ct) dek" using kek wk by (auto simp: opens_with_def)
  moreover have "w_db w' = w_db w6" using dr w' driver_same by blast
  ultimately have "w_db w' = Some (new_vault vid params salt (nonce, ct) since at)
      \<and> opens_with P password params salt vid (nonce, ct) dek" using d6 by simp
  then have "w_db w' = Some (new_vault vid params salt (nonce, ct) since at)
      \<and> s = s0\<lparr>st_vaultID := vid, st_keys := Some k\<rparr> \<and> expand_keys P dek = Inr k \<and> length dek = KeySize
      \<and> opens_with P password params salt vid (nonce, ct) dek" using k len by simp
  then show ?thesis by (intro exI)
qed

lemma Initialize_new:
  assumes "Initialize P path password params w = (Inr s, w')" and "prims_ok P"
  shows "\<exists>vaultID salt sl dek since at k. w_db w' = Some (new_vault vaultID params salt sl since at)
    \<and> s = \<lparr>st_path = path, st_vaultID = vaultID, st_keys = Some k\<rparr> \<and> expand_keys P dek = Inr k \<and> length dek = KeySize
    \<and> opens_with P password params salt vaultID sl dek"
proof -
  obtain w1 w2 s0 w3 where s: "os_Stat w = (Inr False, w1)" and d: "driver w1 = (Inr (), w2)" and
    o: "openDatabase path w2 = (Inr s0, w3)" and i: "initialize_store P password params s0 w3 = (Inr s, w')"
    using assms(1) unfolding Initialize_def
    by (auto simp: bnd_Inr wrap_error_Inr fail_Inr on_error_Inr split: option.splits if_splits)
  have "w_db w = None" using s by (simp add: os_Stat_def query_Inr)
  moreover have "w_db w2 = w_db w" using s d query_Inr_db [of _ w False w1] driver_same [OF d] by (simp add: os_Stat_def)
  ultimately have "w_db w3 = Some empty_db" "s0 = \<lparr>st_path = path, st_vaultID = [], st_keys = None\<rparr>"
    using o by (auto simp: openDatabase_def effect_inr)
  with initialize_store_new [OF i _ assms(2)] show ?thesis by auto
qed

lemma length_ExpandKey: "prims_ok P \<Longrightarrow> ExpandKey P key purpose = Inr out \<Longrightarrow> length out = KeySize"
  using ExpandKey_ok [of P key purpose] by auto

lemma expand_keys_ok: "prims_ok P \<Longrightarrow> expand_keys P dek = Inr k \<Longrightarrow> length dek = KeySize \<Longrightarrow> keys_ok k"
  by (auto simp: expand_keys_def keys_ok_def and_then_Inr length_ExpandKey)

lemma new_vault_inv: "vault_inv P k (new_vault vaultID params salt sl since at)"
  by (simp add: vault_inv_def new_vault_def empty_db_def consistent_def)

lemma OpenVault_existing:
  assumes "w_db w = Some d" and "w_faults w = []"
    and "select_metadata ''schema_version'' d = Inr schemaVersion" and "select_metadata ''vault_id'' d = Inr vaultID"
  shows "OpenVault path w = (Inr \<lparr>st_path = path, st_vaultID = vaultID, st_keys = None\<rparr>, w)"
proof -
  have rd: "on_file (query f) w = (f d, w)" for f :: "database \<Rightarrow> string result"
  proof -
    have "query f (with_db w d) = (f d, with_db w d)" using assms(2) by (simp add: query_clean)
    from on_file_run [where m = "query f", OF assms(1) this] show ?thesis using assms(1) by simp
  qed
  have opn: "openDatabase path w = (Inr \<lparr>st_path = path, st_vaultID = [], st_keys = None\<rparr>, w)"
    using assms by (simp add: openDatabase_def wrap_error_def bnd_def on_error_def driver_clean exec_clean ret_def)
  show ?thesis
    using assms by (simp add: OpenVault_def os_Stat_def wrap_error_def bnd_def on_error_def query_clean opn rd ret_def)
qed

lemma OpenVault_new:
  assumes "w_db w = Some (new_vault vaultID params salt sl since at)" and "w_faults w = []"
  shows "OpenVault path w = (Inr \<lparr>st_path = path, st_vaultID = vaultID, st_keys = None\<rparr>, w)"
  by (rule OpenVault_existing [OF assms]) (simp_all add: select_metadata_def on_table_def new_vault_def schema_def first_row_def)

lemma Unlock_new:
  assumes "w_db w = new_vault vaultID params salt sl since at" and "w_faults w = []" and "st_vaultID s = vaultID"
    and "opens_with P password params salt vaultID sl dek" and "expand_keys P dek = Inr k" and "st_keys s = None"
  shows "Unlock P s password w = (Inr (s\<lparr>st_keys := Some k\<rparr>), w)"
  using assms(5,6) unwrapDEK_new [OF assms(1-4)]
  by (simp add: Unlock_def bnd_def lift_def installKeysLocked_def)

lemma createSchema_run:
  assumes "w_db w = empty_db" and "w_faults w = []"
  shows "createSchema w = (Inr (), w\<lparr>w_db := empty_db\<lparr>db_tables := schema\<rparr>\<rparr>)"
  unfolding createSchema_def
  by (rule transaction_clean [OF assms(2)])
    (use assms in \<open>simp_all add: schema_def bnd_def wrap_error_def on_error_def exec_clean create_table_def ret_def empty_db_def\<close>)

lemma write_wrapper_run:
  assumes "w_db w = empty_db\<lparr>db_tables := schema\<rparr>" and "w_faults w = []"
  shows "write_wrapper vaultID params salt nonce ct w = (Inr (), w\<lparr>w_ticks := w_ticks w + 2,
    w_db := new_vault vaultID params salt (nonce, ct) (stamp (w_clock w (w_ticks w))) (stamp (w_clock w (w_ticks w + 1)))\<rparr>)"
  unfolding write_wrapper_def
  by (rule transaction_clean [OF assms(2)])
    (use assms in \<open>simp_all add: schema_def bnd_def time_now_def exec_clean ret_def empty_db_def insert_metadata_def
       insert_wrapper_def insert_row_def on_table_def metadata_clash_def new_vault_def vault_wrapper_def\<close>)

lemma random_run:
  "f (w_tape w) = (Inr x, drop n (w_tape w)) \<Longrightarrow> random f w = (Inr x, w\<lparr>w_tape := drop n (w_tape w)\<rparr>)"
  by (simp add: random_def)

lemma initialize_store_run:
  assumes "prims_ok P" and "ValidateKDFParams params = None" and "password \<noteq> []" and "length password \<le> 4096"
    and "88 \<le> length (w_tape w)" and "w_faults w = []" and "w_db w = Some empty_db"
  shows "\<exists>s w'. initialize_store P password params s0 w = (Inr s, w') \<and> w_faults w' = []"
proof -
  let ?d = "empty_db\<lparr>db_tables := schema\<rparr>"
  define u where "u n = w\<lparr>w_tape := drop n (w_tape w), w_db := Some ?d\<rparr>" for n
  have sch: "on_file createSchema w = (Inr (), u 0)"
    using on_file_run [OF assms(7) createSchema_run] assms(6) by (simp add: with_db_def u_def)
  let ?vid = "format_id (take 16 (w_tape w))" and ?dek = "take 32 (drop 16 (w_tape w))"
    and ?salt = "take 16 (drop 48 (w_tape w))" and ?nonce = "take 24 (drop 64 (w_tape w))"
  have vid: "random randomID (u 0) = (Inr ?vid, u 16)"
    using assms(5) by (simp add: u_def random_def randomID_def rand_read_def)
  have dek: "random (RandomBytes KeySize) (u 16) = (Inr ?dek, u 48)"
    using assms(5) by (simp add: u_def random_def RandomBytes_def rand_read_def KeySize_def)
  have salt: "random (RandomBytes SaltSize) (u 48) = (Inr ?salt, u 64)"
    using assms(5) by (simp add: u_def random_def RandomBytes_def rand_read_def SaltSize_def)
  obtain kek where kek: "DeriveKEK P password ?salt params = Inr kek"
    using assms(2-5) by (auto simp: DeriveKEK_def SaltSize_def)
  obtain wk where wk: "ExpandKey P kek ''password-wrapper'' = Inr wk" "length wk = KeySize"
    using ExpandKey_ok [OF assms(1)] by blast
  let ?ct = "p_seal P wk ?nonce ?dek (wrapperAAD ?vid)"
  have sl: "random (Seal P wk ?dek (wrapperAAD ?vid)) (u 64) = (Inr (?nonce, ?ct), u 88)"
    using assms(5) wk(2) prims_okD(1) [OF assms(1)] by (simp add: u_def random_def Seal_def RandomBytes_def rand_read_def NonceSize_def)
  obtain w6 where wr: "on_file (write_wrapper ?vid params ?salt ?nonce ?ct) (u 88) = (Inr (), w6)" "w_faults w6 = []"
    using on_file_run [of "u 88" ?d, OF _ write_wrapper_run] assms(6) by (simp add: u_def)
  obtain k where k: "expand_keys P ?dek = Inr k"
    using ExpandKey_ok [OF assms(1), of ?dek] by (metis and_then_simps(2) expand_keys_def)
  show ?thesis
    using wr(2)
    by (simp add: initialize_store_def bnd_def sch vid dek salt lift_def kek wk(1) sl wr(1) wrap_error_def on_error_def
        driver_clean installKeysLocked_def k)
qed

lemma Initialize_run:
  assumes "prims_ok P" and "ValidateKDFParams params = None" and "password \<noteq> []" and "length password \<le> 4096"
    and "88 \<le> length (w_tape w)" and "w_faults w = []" and "w_db w = None"
  shows "\<exists>s w'. Initialize P path password params w = (Inr s, w') \<and> w_faults w' = []"
proof -
  let ?w = "w\<lparr>w_db := Some empty_db\<rparr>" and ?s = "\<lparr>st_path = path, st_vaultID = [], st_keys = None\<rparr>"
  have "openDatabase path w = (Inr ?s, ?w)"
    using assms(6,7) by (simp add: openDatabase_def wrap_error_def bnd_def on_error_def driver_clean exec_clean ret_def)
  moreover have "\<exists>s w'. initialize_store P password params ?s ?w = (Inr s, w') \<and> w_faults w' = []"
    by (rule initialize_store_run) (use assms in simp_all)
  ultimately show ?thesis
    using assms(2,6,7)
    by (auto simp: Initialize_def os_Stat_def bnd_def query_clean wrap_error_def on_error_def driver_clean)
qed

subsection \<open>Properties\<close>

text \<open>
  C29: A vault that \<open>Initialize\<close> has created comes up again with its password: \<open>Open\<close> on the file it left
  gives a locked store, \<open>Unlock\<close> with the password of the initialization gives a store with the same
  identifier and the same keys, \<open>VerifyPassword\<close> accepts it, and the new database satisfies the
  invariant of the vault.
\<close>

theorem Initialize_then_Unlock:
  assumes "prims_ok P" and "Initialize P path password params w = (Inr s, w')"
    and "w_db v = w_db w'" and "w_faults v = []"
  shows "\<exists>k d s0. st_keys s = Some k \<and> keys_ok k \<and> w_db w' = Some d \<and> vault_inv P k d
    \<and> OpenVault path v = (Inr s0, v) \<and> \<not> IsUnlocked s0
    \<and> Unlock P s0 password (with_db v d) = (Inr s, with_db v d)
    \<and> VerifyPassword P s password (with_db v d) = (Inr (), with_db v d)"
proof -
  obtain vid salt sl dek since at k where new: "w_db w' = Some (new_vault vid params salt sl since at)"
    "s = \<lparr>st_path = path, st_vaultID = vid, st_keys = Some k\<rparr>" "expand_keys P dek = Inr k" "length dek = KeySize"
    "opens_with P password params salt vid sl dek"
    using Initialize_new [OF assms(2,1)] by blast
  let ?d = "new_vault vid params salt sl since at" and ?s0 = "\<lparr>st_path = path, st_vaultID = vid, st_keys = None\<rparr>"
  have "OpenVault path v = (Inr ?s0, v)" using OpenVault_new assms(3,4) new(1) by simp
  moreover have "Unlock P ?s0 password (with_db v ?d) = (Inr s, with_db v ?d)"
    using Unlock_new [of "with_db v ?d", OF _ _ _ new(5,3)] assms(4) new(2) by simp
  moreover have "VerifyPassword P s password (with_db v ?d) = (Inr (), with_db v ?d)"
    using unwrapDEK_new [of "with_db v ?d", OF _ _ _ new(5), of since at s] assms(4) new(2)
    by (simp add: VerifyPassword_def bnd_def ret_def)
  ultimately show ?thesis
    using new expand_keys_ok [OF assms(1) new(3,4)] new_vault_inv [of P k vid params salt sl since at]
    by (intro exI [of _ k] exI [of _ ?d] exI [of _ ?s0]) (simp add: IsUnlocked_def)
qed

theorem Initialize_then_Unlock_witness:
  "\<exists>s w' k d s0. Initialize demo_prims ''vault.db'' [1, 2, 3] DefaultKDFParams (with_db (demo_world demo_clock) None) = (Inr s, w')
    \<and> st_keys s = Some k \<and> w_db w' = Some d \<and> vault_inv demo_prims k d
    \<and> OpenVault ''vault.db'' w' = (Inr s0, w') \<and> \<not> IsUnlocked s0
    \<and> Unlock demo_prims s0 [1, 2, 3] (with_db w' d) = (Inr s, with_db w' d)"
proof -
  let ?w = "with_db (demo_world demo_clock) None :: disk world"
  obtain s w' where run: "Initialize demo_prims ''vault.db'' [1, 2, 3] DefaultKDFParams ?w = (Inr s, w')" "w_faults w' = []"
    using Initialize_run [OF demo_prims_ok, of DefaultKDFParams "[1, 2, 3]" ?w "''vault.db''"]
    by (auto simp: ValidateKDFParams_def DefaultKDFParams_def)
  from Initialize_then_Unlock [OF demo_prims_ok run(1) refl run(2)] run(1) show ?thesis by blast
qed

end
