(* ===== verification/PowerHold.thy ===== *)
theory PowerHold
  imports GoErrors
begin

section \<open>The power hold (internal/power)\<close>

text \<open>
  While the vault is unlocked the broker holds an inhibitor of idle system sleep. \<open>Manager\<close> is the
  state machine of \<open>power.go\<close>; \<open>acquire\<close> has one implementation per operating system, which are
  the providers of the interface the manager relies on. What the operating system does (finding
  and starting the helper process, the Windows call) is the environment: its outcome is an argument.
\<close>

subsection \<open>The operating system and the stop functions\<close>

text \<open>
  The inhibitors that are in force, the number of those ever taken, and the releases done so far. The
  closures that \<open>acquire\<close> returns either do nothing or end one inhibitor (kill and wait for the
  helper process; close the channel the Windows thread waits on).
\<close>

record os =
  live :: "nat list"
  taken :: nat
  released :: "nat list"

datatype stop_fn = StopNothing | StopInhibitor nat

primrec run_stop :: "stop_fn \<Rightarrow> os \<Rightarrow> os" where
  "run_stop StopNothing s = s"
| "run_stop (StopInhibitor h) s = s\<lparr>live := removeAll h (live s), released := h # released s\<rparr>"

definition inhibit :: "os \<Rightarrow> nat \<times> os" where
  "inhibit s = (taken s, s\<lparr>live := taken s # live s, taken := Suc (taken s)\<rparr>)"

type_synonym acquired = "(stop_fn option \<times> bool \<times> error option) \<times> os"

text \<open>\<open>power_darwin.go\<close>: the argument is the error of \<open>cmd.Start\<close>, if any.\<close>

definition acquire_darwin :: "error option \<Rightarrow> os \<Rightarrow> acquired" where
  "acquire_darwin start s =
     (case start of
        Some err \<Rightarrow> ((None, False, Some err), s)
      | None \<Rightarrow> (let (h, s') = inhibit s in ((Some (StopInhibitor h), True, None), s')))"

text \<open>\<open>power_linux.go\<close>: the errors of \<open>exec.LookPath\<close> and of \<open>cmd.Start\<close>.\<close>

definition acquire_linux :: "error option \<times> error option \<Rightarrow> os \<Rightarrow> acquired" where
  "acquire_linux outcome s =
     (case outcome of
        (Some look, _) \<Rightarrow> ((Some StopNothing, False, None), s)
      | (None, Some err) \<Rightarrow> ((None, False, Some err), s)
      | (None, None) \<Rightarrow> (let (h, s') = inhibit s in ((Some (StopInhibitor h), True, None), s')))"

text \<open>\<open>power_other.go\<close>.\<close>

definition acquire_other :: "unit \<Rightarrow> os \<Rightarrow> acquired" where
  "acquire_other _ s = ((Some StopNothing, False, None), s)"

text \<open>
  \<open>power_windows.go\<close>: the result of \<open>SetThreadExecutionState\<close> and its error. The goroutine
  reports on \<open>started\<close> either the error and ends, or success and waits on \<open>stop\<close>.
\<close>

definition acquire_windows :: "nat \<times> error \<Rightarrow> os \<Rightarrow> acquired" where
  "acquire_windows outcome s =
     (case outcome of (result, callErr) \<Rightarrow>
        if result = 0 then ((None, False, Some (Wrap ''SetThreadExecutionState: '' callErr)), s)
        else (let (h, s') = inhibit s in ((Some (StopInhibitor h), True, None), s')))"

subsection \<open>The manager\<close>

record manager =
  m_active :: bool
  m_stop :: "stop_fn option"

definition new_manager :: manager where
  "new_manager = \<lparr>m_active = False, m_stop = None\<rparr>"

definition Start :: "(os \<Rightarrow> acquired) \<Rightarrow> manager \<Rightarrow> os \<Rightarrow> error option \<times> manager \<times> os" where
  "Start acquire m s =
     (if m_active m then (None, m, s)
      else case acquire s of
        ((stop, active, Some err), s') \<Rightarrow> (Some err, m, s')
      | ((stop, active, None), s') \<Rightarrow> (None, m\<lparr>m_stop := stop, m_active := active\<rparr>, s'))"

definition Stop :: "manager \<Rightarrow> os \<Rightarrow> manager \<times> os" where
  "Stop m s =
     (let s' = (case m_stop m of None \<Rightarrow> s | Some stop \<Rightarrow> run_stop stop s)
      in (m\<lparr>m_stop := None, m_active := False\<rparr>, s'))"

definition Active :: "manager \<Rightarrow> bool" where
  "Active m = m_active m"

text \<open>A history of calls; each \<open>Start\<close> meets its own outcome of the environment.\<close>

datatype 'o power_call = CallStart 'o | CallStop

fun run_power :: "('o \<Rightarrow> os \<Rightarrow> acquired) \<Rightarrow> manager \<times> os \<Rightarrow> 'o power_call list \<Rightarrow> manager \<times> os" where
  "run_power acquire ms [] = ms"
| "run_power acquire (m, s) (CallStart outcome # cs) =
     run_power acquire (snd (Start (acquire outcome) m s)) cs"
| "run_power acquire (m, s) (CallStop # cs) = run_power acquire (Stop m s) cs"

definition boot :: "manager \<times> os" where
  "boot = (new_manager, \<lparr>live = [], taken = 0, released = []\<rparr>)"

subsection \<open>The interface of \<open>acquire\<close> and the manager's invariant\<close>

locale inhibitor =
  fixes acquire :: "'o \<Rightarrow> os \<Rightarrow> acquired"
  assumes acquire_error: "acquire out s = ((stop, act, Some err), s') \<Longrightarrow> s' = s"
    and acquire_active: "acquire out s = ((stop, True, None), s')
      \<Longrightarrow> stop = Some (StopInhibitor (taken s)) \<and> s' = s\<lparr>live := taken s # live s, taken := Suc (taken s)\<rparr>"
    and acquire_inactive: "acquire out s = ((stop, False, None), s') \<Longrightarrow> stop = Some StopNothing \<and> s' = s"

definition power_inv :: "manager \<times> os \<Rightarrow> bool" where
  "power_inv ms = (case ms of (m, s) \<Rightarrow>
     (if m_active m then \<exists>h. m_stop m = Some (StopInhibitor h) \<and> live s = [h] \<and> h \<notin> set (released s)
      else (m_stop m = None \<or> m_stop m = Some StopNothing) \<and> live s = [])
     \<and> distinct (released s) \<and> (\<forall>h\<in>set (live s) \<union> set (released s). h < taken s))"

context inhibitor
begin

lemma Start_inv:
  assumes "power_inv (m, s)"
  shows "power_inv (snd (Start (acquire out) m s))"
proof (cases "m_active m")
  case True
  with assms show ?thesis by (simp add: Start_def)
next
  case False
  obtain stop act err s' where a: "acquire out s = ((stop, act, err), s')" by (metis surj_pair)
  show ?thesis
  proof (cases err)
    case (Some e)
    with a assms False acquire_error show ?thesis by (fastforce simp: Start_def)
  next
    case None
    with a assms False acquire_active [of out s stop s'] acquire_inactive [of out s stop s']
    show ?thesis by (cases act) (auto simp: Start_def power_inv_def less_SucI)
  qed
qed

lemma Start_idempotent: "m_active m \<Longrightarrow> Start (acquire out) m s = (None, m, s)"
  by (simp add: Start_def)

lemma Start_error_keeps:
  "Start (acquire out) m s = (Some err, m', s') \<Longrightarrow> m' = m \<and> s' = s"
  by (auto simp: Start_def dest: acquire_error split: if_splits prod.splits option.splits)

end

lemma Stop_inv: "power_inv (m, s) \<Longrightarrow> power_inv (Stop m s)"
  by (auto simp: Stop_def power_inv_def split: if_splits)

context inhibitor
begin

lemma run_power_inv: "power_inv ms \<Longrightarrow> power_inv (run_power acquire ms cs)"
proof (induction cs arbitrary: ms)
  case (Cons c cs)
  obtain m s where ms: "ms = (m, s)" by (cases ms)
  with Cons show ?case
    by (cases c) (use Start_inv Stop_inv in \<open>auto\<close>)
qed simp

lemma run_power_live:
  assumes "run_power acquire boot cs = (m, s)"
  shows "length (live s) = (if Active m then 1 else 0) \<and> distinct (released s)
    \<and> (\<forall>h\<in>set (released s). h < taken s)"
proof -
  have "power_inv (run_power acquire boot cs)"
    by (rule run_power_inv) (simp add: power_inv_def boot_def new_manager_def)
  with assms show ?thesis by (auto simp: power_inv_def Active_def split: if_splits)
qed

end

subsection \<open>The four providers\<close>

interpretation darwin: inhibitor acquire_darwin
  by unfold_locales (auto simp: acquire_darwin_def inhibit_def split: option.splits)

interpretation linux: inhibitor acquire_linux
  by unfold_locales (auto simp: acquire_linux_def inhibit_def split: option.splits)

interpretation windows: inhibitor acquire_windows
  by unfold_locales (auto simp: acquire_windows_def inhibit_def split: if_splits)

interpretation other: inhibitor acquire_other
  by unfold_locales (auto simp: acquire_other_def)

subsection \<open>Properties\<close>

text \<open>
  C24: After any history of \<open>Start\<close> and \<open>Stop\<close> calls on any of the four platforms, whatever the
  environment did, exactly one inhibitor is in force when the manager is active and none otherwise:
  none leaks and none is taken twice.
\<close>

theorem one_inhibitor:
  "(let (m, s) = run_power acquire_linux boot ls in length (live s) = (if Active m then 1 else 0))
   \<and> (let (m, s) = run_power acquire_darwin boot ds in length (live s) = (if Active m then 1 else 0))
   \<and> (let (m, s) = run_power acquire_windows boot ws in length (live s) = (if Active m then 1 else 0))
   \<and> (let (m, s) = run_power acquire_other boot os in length (live s) = (if Active m then 1 else 0))"
  using linux.run_power_live darwin.run_power_live windows.run_power_live other.run_power_live
  by (simp split: prod.splits)

text \<open>
  No inhibitor is ended twice, so the Windows stop function never closes its channel a second
  time (which would panic).
\<close>

theorem released_once:
  "distinct (released (snd (run_power acquire_windows boot ws)))
   \<and> distinct (released (snd (run_power acquire_darwin boot ds)))
   \<and> distinct (released (snd (run_power acquire_linux boot ls)))"
  using linux.run_power_live [of ls] darwin.run_power_live [of ds] windows.run_power_live [of ws]
  by (metis prod.collapse)

text \<open>
  A \<open>Start\<close> that fails leaves the manager inactive with nothing to stop, and can be repeated:
  the next \<open>Start\<close> asks the system again.
\<close>

theorem failed_start_retries:
  assumes "Start (acquire_darwin (Some err)) new_manager s = (r, m, s')"
  shows "r = Some err \<and> m = new_manager \<and> s' = s
    \<and> Active (fst (snd (Start (acquire_darwin None) m s')))"
  using assms by (auto simp: Start_def acquire_darwin_def new_manager_def inhibit_def Active_def)

theorem failed_start_retries_witness:
  "Active (fst (snd (Start (acquire_darwin None) new_manager (snd boot))))"
  using failed_start_retries [of "Errorf ''no caffeinate''" "snd boot" "Some (Errorf ''no caffeinate'')"
      new_manager "snd boot"]
  by (simp add: Start_def acquire_darwin_def new_manager_def)

end
