(* ===== verification/Generator.thy ===== *)
theory Generator
  imports GoRuntime Complex_Main "HOL-Library.Log_Nat"
begin

section \<open>Secret generation (internal/generator/generator.go)\<close>

text \<open>
  The four generation profiles and the rejection sampling of \<open>Generate\<close> over the random tape. The
  lemmas show which bytes of the tape become which characters, that the sampling is unbiased, and
  the strength that \<open>Generate\<close> computes. \<open>math.Log2\<close> is the real logarithm: for the alphabets of
  the table the products are exact or far from an integer, so the floor of the float is the floor of
  the real.
\<close>

subsection \<open>Profiles\<close>

record profile =
  pr_name :: string
  pr_alphabet :: string
  pr_length :: nat
  pr_strength :: int

definition alnum :: string where
  "alnum = ''ABCDEFGHIJKLMNOPQRSTUVWXYZabcdefghijklmnopqrstuvwxyz0123456789''"

definition profile_table :: "(string \<times> profile) list" where
  "profile_table =
    [(''default'', \<lparr>pr_name = ''default'',
        pr_alphabet = ''ABCDEFGHIJKLMNOPQRSTUVWXYZabcdefghijklmnopqrstuvwxyz0123456789-_'',
        pr_length = 43, pr_strength = 258\<rparr>),
     (''alnum'', \<lparr>pr_name = ''alnum'', pr_alphabet = alnum, pr_length = 44, pr_strength = 262\<rparr>),
     (''password'', \<lparr>pr_name = ''password'',
        pr_alphabet = ''ABCDEFGHJKLMNPQRSTUVWXYZabcdefghijkmnopqrstuvwxyz23456789-_.'',
        pr_length = 40, pr_strength = 238\<rparr>),
     (''database'', \<lparr>pr_name = ''database'', pr_alphabet = alnum, pr_length = 44, pr_strength = 262\<rparr>)]"

definition profiles :: "string \<Rightarrow> profile option" where
  "profiles = map_of profile_table"

definition Get :: "string \<Rightarrow> profile result" where
  "Get name =
     (let name = (if name = [] then ''default'' else name)
      in case profiles name of
           None \<Rightarrow> Inl (Errorf (''unknown generation profile '' @ [CHR 0x22] @ name @ [CHR 0x22]))
         | Some profile \<Rightarrow> Inr profile)"

subsection \<open>Rejection sampling\<close>

text \<open>
  The inner loop over one block of random bytes: \<open>value\<close> is the array that is filled, \<open>written\<close>
  the next index; the loop is left when the array is full.
\<close>

fun sample_block :: "string \<Rightarrow> nat \<Rightarrow> string \<Rightarrow> nat \<Rightarrow> bytes \<Rightarrow> string \<times> nat" where
  "sample_block alphabet limit val written [] = (val, written)"
| "sample_block alphabet limit val written (candidate # random) =
     (if limit \<le> unat candidate then sample_block alphabet limit val written random
      else let val = val[written := alphabet ! (unat candidate mod length alphabet)];
               written = Suc written
           in if written = length val then (val, written)
              else sample_block alphabet limit val written random)"

function sample_loop :: "string \<Rightarrow> nat \<Rightarrow> string \<Rightarrow> nat \<Rightarrow> bytes \<Rightarrow> string result \<times> bytes" where
  "sample_loop alphabet limit val written tape =
     (if written < length val
      then case rand_read (length val * 2) tape of
             (Inl err, tape') \<Rightarrow> (Inl err, tape')
           | (Inr random, tape') \<Rightarrow>
               (case sample_block alphabet limit val written random of
                  (val', written') \<Rightarrow> sample_loop alphabet limit val' written' tape')
      else (Inr val, tape))"
  by pat_completeness auto
termination
  by (relation "measure (\<lambda>(alphabet, limit, val, written, tape). length tape)")
    (auto simp: rand_read_Inr_sym)

declare sample_loop.simps [simp del]

definition strength_bits :: "nat \<Rightarrow> nat \<Rightarrow> int" where
  "strength_bits len alphabet_size = \<lfloor>real len * log 2 (real alphabet_size)\<rfloor>"

definition Generate :: "string \<Rightarrow> bytes \<Rightarrow> (bytes \<times> profile) result \<times> bytes" where
  "Generate name tape =
     (case Get name of
        Inl err \<Rightarrow> (Inl err, tape)
      | Inr profile \<Rightarrow>
          (let val = replicate (pr_length profile) (CHR 0x00);
               limit = 256 - (256 mod length (pr_alphabet profile))
           in case sample_loop (pr_alphabet profile) limit val 0 tape of
                (Inl err, tape') \<Rightarrow> (Inl err, tape')
              | (Inr val', tape') \<Rightarrow>
                  (Inr (bytes_of val', profile\<lparr>pr_strength :=
                      strength_bits (pr_length profile) (length (pr_alphabet profile))\<rparr>), tape')))"

subsection \<open>Which bytes become the value\<close>

definition accepted :: "nat \<Rightarrow> byte \<Rightarrow> bool" where
  "accepted limit b \<longleftrightarrow> unat b < limit"

definition char_at :: "string \<Rightarrow> byte \<Rightarrow> char" where
  "char_at alphabet b = alphabet ! (unat b mod length alphabet)"

text \<open>The characters that a piece of the tape gives.\<close>

definition picks :: "string \<Rightarrow> nat \<Rightarrow> bytes \<Rightarrow> string" where
  "picks alphabet limit tape = map (char_at alphabet) (filter (accepted limit) tape)"

lemma picks_simps [simp]:
  "picks al limit [] = []"
  "picks al limit (b # bs) = (if accepted limit b then char_at al b # picks al limit bs else picks al limit bs)"
  "picks al limit (bs @ cs) = picks al limit bs @ picks al limit cs"
  by (simp_all add: picks_def)

lemma sample_block_spec:
  "written < length val \<Longrightarrow> sample_block al limit val written random = (val', written') \<Longrightarrow>
     length val' = length val \<and> written' \<le> length val
     \<and> take written' val' = take (length val) (take written val @ picks al limit random)"
proof (induction al limit val written random rule: sample_block.induct)
  case (2 al limit val written c random)
  let ?val = "val[written := char_at al c]"
  show ?case
  proof (cases "accepted limit c")
    case False
    with 2 show ?thesis by (simp add: accepted_def)
  next
    case True
    have t: "take (Suc written) ?val = take written val @ [char_at al c]"
      using "2.prems"(1) by (simp add: take_Suc_conv_app_nth)
    show ?thesis
    proof (cases "Suc written = length val")
      case full: True
      with True "2.prems" have e: "val' = ?val" "written' = length val"
        by (auto simp: accepted_def char_at_def Let_def)
      have "take (Suc written) (take written val @ char_at al c # picks al limit random)
          = take written val @ [char_at al c]"
        using "2.prems"(1) by simp
      with t have "take (length val) ?val = take (length val) (take written val @ picks al limit (c # random))"
        unfolding full [symmetric] using True by simp
      with e show ?thesis by (metis length_list_update order_refl)
    next
      case False
      with True "2.prems" have "sample_block al limit ?val (Suc written) random = (val', written')"
        by (simp add: accepted_def char_at_def Let_def not_le)
      with "2.IH"(2) True False "2.prems"(1) have
        "length val' = length ?val \<and> written' \<le> length ?val
          \<and> take written' val' = take (length ?val) (take (Suc written) ?val @ picks al limit random)"
        by (simp add: accepted_def char_at_def Let_def not_le)
      with t True show ?thesis by simp
    qed
  qed
qed simp

text \<open>The rest of the tape continues what the first block began.\<close>

lemma picks_continue:
  assumes "take w v = take m (u @ picks al limit bs)"
  shows "take m (take w v @ picks al limit cs) = take m (u @ picks al limit (bs @ cs))"
  unfolding assms by (simp add: min_def)

lemma sample_loop_success:
  assumes "written \<le> length val" and "k * (length val * 2) \<le> length tape"
    and "length val \<le> written + length (picks al limit (take (k * (length val * 2)) tape))"
  shows "\<exists>tape'. sample_loop al limit val written tape
    = (Inr (take (length val) (take written val @ picks al limit tape)), tape')"
  using assms
proof (induction k arbitrary: val written tape)
  case 0
  then have "written = length val" by simp
  then show ?case by (subst sample_loop.simps) simp
next
  case (Suc k)
  let ?n = "length val * 2"
  show ?case
  proof (cases "written < length val")
    case False
    with Suc.prems(1) show ?thesis by (subst sample_loop.simps) simp
  next
    case True
    from Suc.prems(2) have n: "?n \<le> length tape" by simp
    obtain val' written' where b: "sample_block al limit val written (take ?n tape) = (val', written')"
      by (metis surj_pair)
    from sample_block_spec [OF True b] have len: "length val' = length val" "written' \<le> length val"
      and fill: "take written' val' = take (length val) (take written val @ picks al limit (take ?n tape))"
      by auto
    have split: "take (Suc k * ?n) tape = take ?n tape @ take (k * ?n) (drop ?n tape)"
      by (metis mult_Suc take_add)
    have "length (take written' val') = length (take (length val) (take written val @ picks al limit (take ?n tape)))"
      using fill by simp
    then have "written' = min (length val) (written + length (picks al limit (take ?n tape)))"
      using len True by simp
    with Suc.prems(3) have enough: "length val' \<le> written'
        + length (picks al limit (take (k * (length val' * 2)) (drop ?n tape)))"
      unfolding split picks_simps(3) length_append len(1) by linarith
    have "\<exists>tape'. sample_loop al limit val' written' (drop ?n tape)
        = (Inr (take (length val') (take written' val' @ picks al limit (drop ?n tape))), tape')"
      by (rule Suc.IH [OF _ _ enough]) (use len Suc.prems(2) in simp_all)
    then obtain tape' where l: "sample_loop al limit val' written' (drop ?n tape)
        = (Inr (take (length val) (take written val @ picks al limit tape)), tape')"
      unfolding len(1) picks_continue [OF fill] append_take_drop_id by blast
    show ?thesis
      by (subst sample_loop.simps) (simp add: True n b rand_read_def l)
  qed
qed

lemma sample_loop_Inr:
  assumes "sample_loop al limit val written tape = (Inr val', tape')" and "written \<le> length val"
  shows "length val' = length val \<and> (\<exists>used. tape = used @ tape'
    \<and> val' = take (length val) (take written val @ picks al limit used))"
  using assms
proof (induction al limit val written tape rule: sample_loop.induct)
  case (1 al limit val written tape)
  show ?case
  proof (cases "written < length val")
    case False
    with "1.prems" show ?thesis by (subst (asm) sample_loop.simps) auto
  next
    case True
    from "1.prems"(1) True obtain random t v w where r: "rand_read (length val * 2) tape = (Inr random, t)"
      and b: "sample_block al limit val written random = (v, w)"
      and l: "sample_loop al limit v w t = (Inr val', tape')"
      by (subst (asm) sample_loop.simps) (auto split: prod.splits sum.splits)
    from sample_block_spec [OF True b] have v: "length v = length val" "w \<le> length val"
      "take w v = take (length val) (take written val @ picks al limit random)" by auto
    from "1.IH" [OF True r [symmetric] refl b [symmetric] l] v(2) obtain used where
      "length val' = length val" "t = used @ tape'" "val' = take (length val) (take w v @ picks al limit used)"
      unfolding v(1) by blast
    moreover from r have "tape = random @ t" by (simp add: rand_read_Inr)
    ultimately have "tape = (random @ used) @ tape'"
      "val' = take (length val) (take written val @ picks al limit (random @ used))"
      by (simp_all only: append_assoc picks_continue [OF v(3)])
    with \<open>length val' = length val\<close> show ?thesis by blast
  qed
qed

subsection \<open>Facts on the table\<close>

lemma Get_in_table: "Get name = Inr pr \<Longrightarrow> (if name = [] then ''default'' else name, pr) \<in> set profile_table"
  by (auto simp: Get_def Let_def profiles_def dest: map_of_SomeD split: if_splits option.splits)

lemma table_alphabets:
  "list_all (\<lambda>(n, pr). 0 < length (pr_alphabet pr) \<and> length (pr_alphabet pr) \<le> 256
     \<and> distinct (pr_alphabet pr) \<and> 0 < pr_length pr \<and> pr_name pr = n) profile_table"
  by code_simp

lemma profile_alphabet:
  assumes "Get name = Inr pr"
  shows "0 < length (pr_alphabet pr) \<and> length (pr_alphabet pr) \<le> 256 \<and> distinct (pr_alphabet pr)
    \<and> 0 < pr_length pr \<and> pr_name pr = (if name = [] then ''default'' else name)"
  using table_alphabets Get_in_table [OF assms] by (fastforce simp: list_all_iff)

lemma table_lengths:
  "map (\<lambda>(n, pr). (n, pr_length pr, length (pr_alphabet pr), pr_strength pr)) profile_table
    = [(''default'', 43, 64, 258), (''alnum'', 44, 62, 262), (''password'', 40, 60, 238), (''database'', 44, 62, 262)]"
  by code_simp

text \<open>The characters that no shell, URL or configuration format treats specially.\<close>

definition plain_char :: "char \<Rightarrow> bool" where
  "plain_char c \<longleftrightarrow> c \<in> set alnum \<or> c \<in> set ''-_.''"

lemma table_plain: "list_all (\<lambda>(n, pr). list_all plain_char (pr_alphabet pr)) profile_table"
  by code_simp

text \<open>The floor of the logarithm, from the powers of two around \<open>size ^ len\<close>.\<close>

lemma strength_bits_eq:
  assumes "0 < a" and "2 ^ k \<le> a ^ len" and "a ^ len < 2 ^ Suc k"
  shows "strength_bits len a = int k"
proof -
  have pos: "0 < real a ^ len" using assms(1) by simp
  have eq: "real len * log 2 (real a) = log 2 (real a ^ len)"
    using assms(1) by (simp add: log_nat_power)
  have "(2::real) ^ k \<le> real a ^ len" using assms(2) by (metis of_nat_le_iff of_nat_numeral of_nat_power)
  then have "real k \<le> log 2 (real a ^ len)" by (simp add: le_log_iff [OF _ pos] powr_realpow)
  moreover have "real a ^ len < 2 ^ Suc k" using assms(3) by (metis of_nat_less_iff of_nat_numeral of_nat_power)
  then have "log 2 (real a ^ len) < real (Suc k)"
    by (simp add: log_less_iff [OF _ pos] powr_realpow del: of_nat_Suc power_Suc)
  ultimately show ?thesis unfolding strength_bits_def eq by (simp add: floor_eq_iff)
qed

lemma strength_values:
  "strength_bits 43 64 = 258" "strength_bits 44 62 = 261" "strength_bits 40 60 = 236"
  using strength_bits_eq [of 64 258 43] strength_bits_eq [of 62 261 44] strength_bits_eq [of 60 236 40]
  by simp_all

lemma table_strengths:
  "map (\<lambda>(n, pr). (n, strength_bits (pr_length pr) (length (pr_alphabet pr)), pr_strength pr)) profile_table
    = [(''default'', 258, 258), (''alnum'', 261, 262), (''password'', 236, 238), (''database'', 261, 262)]"
proof -
  have "map (\<lambda>(n, pr). (n, strength_bits (pr_length pr) (length (pr_alphabet pr)), pr_strength pr)) profile_table
    = map (\<lambda>(n, len, size, s). (n, strength_bits len size, s))
        (map (\<lambda>(n, pr). (n, pr_length pr, length (pr_alphabet pr), pr_strength pr)) profile_table)"
    by (simp add: case_prod_beta comp_def)
  then show ?thesis unfolding table_lengths by (simp add: strength_values)
qed

lemma Generate_Inr:
  assumes "Generate name tape = (Inr (val, pr), tape')"
  shows "\<exists>pr0 used. Get name = Inr pr0 \<and> tape = used @ tape'
    \<and> pr = pr0\<lparr>pr_strength := strength_bits (pr_length pr0) (length (pr_alphabet pr0))\<rparr>
    \<and> length val = pr_length pr0
    \<and> val = bytes_of (take (pr_length pr0)
        (picks (pr_alphabet pr0) (256 - 256 mod length (pr_alphabet pr0)) used))"
proof -
  from assms obtain pr0 where g: "Get name = Inr pr0" by (auto simp: Generate_def split: sum.splits)
  define limit where "limit = 256 - 256 mod length (pr_alphabet pr0)"
  from assms g obtain v where l: "sample_loop (pr_alphabet pr0) limit
      (replicate (pr_length pr0) (CHR 0x00)) 0 tape = (Inr v, tape')"
    and v: "val = bytes_of v"
      "pr = pr0\<lparr>pr_strength := strength_bits (pr_length pr0) (length (pr_alphabet pr0))\<rparr>"
    by (auto simp: Generate_def Let_def limit_def split: prod.splits sum.splits)
  from sample_loop_Inr [OF l] v g show ?thesis unfolding limit_def by auto
qed

lemma picks_set: "0 < length al \<Longrightarrow> set (picks al limit tape) \<subseteq> set al"
  by (auto simp: picks_def char_at_def)

lemma Generate_success:
  assumes "Get name = Inr pr" and "k * (pr_length pr * 2) \<le> length tape"
    and "pr_length pr \<le> length (filter (accepted (256 - 256 mod length (pr_alphabet pr)))
      (take (k * (pr_length pr * 2)) tape))"
  shows "\<exists>tape'. Generate name tape =
    (Inr (bytes_of (take (pr_length pr) (picks (pr_alphabet pr) (256 - 256 mod length (pr_alphabet pr)) tape)),
      pr\<lparr>pr_strength := strength_bits (pr_length pr) (length (pr_alphabet pr))\<rparr>), tape')"
proof -
  let ?v = "replicate (pr_length pr) (CHR 0x00)"
  let ?limit = "256 - 256 mod length (pr_alphabet pr)"
  have "\<exists>tape'. sample_loop (pr_alphabet pr) ?limit ?v 0 tape
      = (Inr (take (length ?v) (take 0 ?v @ picks (pr_alphabet pr) ?limit tape)), tape')"
    by (rule sample_loop_success [where k = k]) (use assms(2,3) in \<open>simp_all add: picks_def\<close>)
  then obtain tape' where "sample_loop (pr_alphabet pr) ?limit ?v 0 tape
      = (Inr (take (pr_length pr) (picks (pr_alphabet pr) ?limit tape)), tape')" by auto
  with assms(1) show ?thesis by (simp add: Generate_def Let_def)
qed

text \<open>Counting the accepted bytes that give one index of the alphabet.\<close>

lemma card_residue:
  fixes n i q :: nat
  assumes "i < n"
  shows "card {b. b < q * n \<and> b mod n = i} = q"
proof -
  have "{b. b < q * n \<and> b mod n = i} = (\<lambda>j. j * n + i) ` {..<q}"
  proof (intro subset_antisym subsetI)
    fix b assume "b \<in> {b. b < q * n \<and> b mod n = i}"
    then have b: "b < q * n" "b mod n = i" by auto
    then have "b = b div n * n + i" by (metis div_mult_mod_eq)
    moreover from b assms have "b div n < q" by (simp add: less_mult_imp_div_less)
    ultimately show "b \<in> (\<lambda>j. j * n + i) ` {..<q}" by blast
  next
    fix b assume "b \<in> (\<lambda>j. j * n + i) ` {..<q}"
    then obtain j where j: "j < q" "b = j * n + i" by auto
    then have "Suc j * n \<le> q * n" by (intro mult_le_mono1) simp
    with j assms show "b \<in> {b. b < q * n \<and> b mod n = i}" by simp
  qed
  moreover have "inj_on (\<lambda>j. j * n + i) {..<q}" using assms by (auto intro: inj_onI)
  ultimately show ?thesis by (simp add: card_image)
qed

lemma card_byte_residue:
  assumes "i < n" and "n \<le> 256"
  shows "card {b :: byte. unat b < 256 - 256 mod n \<and> unat b mod n = i} = 256 div n"
proof -
  have eq: "256 - 256 mod n = 256 div n * n" by (metis minus_mod_eq_div_mult)
  have "unat ` {b :: byte. unat b < 256 - 256 mod n \<and> unat b mod n = i}
      = {b. b < 256 div n * n \<and> b mod n = i}" (is "_ ` ?B = ?N")
  proof (intro subset_antisym subsetI)
    fix x assume "x \<in> ?N"
    then have "x < 256" "x < 256 - 256 mod n" "x mod n = i" using eq by auto
    then have "unat (of_nat x :: byte) = x" by (simp add: unat_of_nat take_bit_nat_eq_self)
    with \<open>x < 256 - 256 mod n\<close> \<open>x mod n = i\<close> show "x \<in> unat ` ?B" by (metis (mono_tags, lifting) imageI mem_Collect_eq)
  qed (use eq in auto)
  moreover have "inj_on unat ?B" by (rule inj_onI) (rule unsigned_word_eqI)
  then have "card (unat ` ?B) = card ?B" by (rule card_image)
  moreover have "card ?N = 256 div n" by (rule card_residue [OF assms(1)])
  ultimately show ?thesis by (simp only:)
qed

subsection \<open>Properties\<close>

text \<open>
  C25: \<open>Generate\<close> returns as soon as the random source has delivered enough accepted bytes, and the
  value is the characters of the first \<open>Length\<close> accepted bytes, in order: no block boundary loses or
  repeats a byte.
\<close>

theorem Generate_returns:
  assumes "Get name = Inr pr" and "k * (pr_length pr * 2) \<le> length tape"
    and "pr_length pr \<le> length (filter (accepted (256 - 256 mod length (pr_alphabet pr)))
      (take (k * (pr_length pr * 2)) tape))"
  shows "\<exists>tape'. Generate name tape =
    (Inr (bytes_of (take (pr_length pr) (picks (pr_alphabet pr) (256 - 256 mod length (pr_alphabet pr)) tape)),
      pr\<lparr>pr_strength := strength_bits (pr_length pr) (length (pr_alphabet pr))\<rparr>), tape')"
  using assms by (rule Generate_success)

theorem Generate_returns_witness:
  "\<exists>pr tape'. Generate ''alnum'' (replicate 88 255 @ replicate 88 1) = (Inr (bytes_of (replicate 44 (CHR ''B'')), pr), tape')"
proof -
  let ?pr = "\<lparr>pr_name = ''alnum'', pr_alphabet = alnum, pr_length = 44, pr_strength = 262\<rparr>"
  let ?tape = "replicate 88 255 @ replicate 88 1 :: bytes"
  have g: "Get ''alnum'' = Inr ?pr" by code_simp
  have e: "2 * (pr_length ?pr * 2) \<le> length ?tape" by simp
  have f: "pr_length ?pr \<le> length (filter (accepted (256 - 256 mod length (pr_alphabet ?pr)))
      (take (2 * (pr_length ?pr * 2)) ?tape))" by code_simp
  have "take 44 (picks alnum (256 - 256 mod length alnum) ?tape) = replicate 44 (CHR ''B'')" by code_simp
  with Generate_returns [OF g e f] show ?thesis by auto
qed

text \<open>What is known of a value that was generated.\<close>

lemma generated_facts:
  assumes "Generate name tape = (Inr (val, pr), tape')"
  shows "length val = pr_length pr \<and> list_all plain_char (string_of val)
    \<and> set (string_of val) \<subseteq> set (pr_alphabet pr)
    \<and> pr_name pr = (if name = [] then ''default'' else name) \<and> 200 \<le> pr_strength pr
    \<and> suffix tape' tape"
proof -
  from Generate_Inr [OF assms] obtain pr0 used where g: "Get name = Inr pr0" and t: "tape = used @ tape'"
    and pr: "pr = pr0\<lparr>pr_strength := strength_bits (pr_length pr0) (length (pr_alphabet pr0))\<rparr>"
    and len: "length val = pr_length pr0"
    and val: "val = bytes_of (take (pr_length pr0)
        (picks (pr_alphabet pr0) (256 - 256 mod length (pr_alphabet pr0)) used))" by blast
  have tab: "0 < length (pr_alphabet pr0)" "pr_name pr0 = (if name = [] then ''default'' else name)"
    using profile_alphabet [OF g] by auto
  have sub: "set (string_of val) \<subseteq> set (pr_alphabet pr0)"
    using picks_set [OF tab(1)] unfolding val by (auto dest: in_set_takeD)
  moreover have "list_all plain_char (pr_alphabet pr0)"
    using table_plain Get_in_table [OF g] by (fastforce simp: list_all_iff)
  moreover have "200 \<le> strength_bits (pr_length pr0) (length (pr_alphabet pr0))"
  proof -
    have "(pr_name pr0, strength_bits (pr_length pr0) (length (pr_alphabet pr0)), pr_strength pr0)
        \<in> set (map (\<lambda>(n, pr). (n, strength_bits (pr_length pr) (length (pr_alphabet pr)), pr_strength pr)) profile_table)"
      using Get_in_table [OF g] tab(2) by force
    then show ?thesis unfolding table_strengths by auto
  qed
  ultimately show ?thesis using pr len tab(2) t by (auto simp: list_all_iff suffix_def)
qed

text \<open>
  C26: A generated value has the length of its profile, consists of letters, digits, dash, underscore
  and dot only, and is recorded with the name of the profile and a strength of at least 200 bits.
\<close>

theorem generated_value:
  assumes "Generate name tape = (Inr (val, pr), tape')"
  shows "length val = pr_length pr \<and> list_all plain_char (string_of val)
    \<and> set (string_of val) \<subseteq> set (pr_alphabet pr)
    \<and> pr_name pr = (if name = [] then ''default'' else name) \<and> 200 \<le> pr_strength pr
    \<and> suffix tape' tape"
  by (rule generated_facts [OF assms])

theorem generated_value_witness:
  "\<exists>val pr. fst (Generate ''password'' (replicate 80 7)) = Inr (val, pr) \<and> length val = 40 \<and> 200 \<le> pr_strength pr"
proof -
  obtain pr where g: "Get ''password'' = Inr pr" and l: "pr_length pr = 40"
    "length (pr_alphabet pr) = 60" by (auto simp: Get_def profiles_def profile_table_def)
  have "\<exists>val tape'. Generate ''password'' (replicate 80 7) = (Inr (val, pr\<lparr>pr_strength :=
      strength_bits (pr_length pr) (length (pr_alphabet pr))\<rparr>), tape')"
    using Generate_success [OF g, of 1 "replicate 80 7"] l by (auto simp: accepted_def)
  then obtain val tape' where "Generate ''password'' (replicate 80 7) = (Inr (val, pr\<lparr>pr_strength :=
      strength_bits (pr_length pr) (length (pr_alphabet pr))\<rparr>), tape')" by blast
  from generated_value [OF this] this l(1) show ?thesis by simp
qed

text \<open>
  The rejection sampling is unbiased: in every profile each character of the alphabet is given by
  the same number of accepted bytes, so uniform random bytes give uniform characters.
\<close>

theorem sampling_unbiased:
  assumes "Get name = Inr pr" and "c \<in> set (pr_alphabet pr)"
  shows "card {b. accepted (256 - 256 mod length (pr_alphabet pr)) b \<and> char_at (pr_alphabet pr) b = c}
    = 256 div length (pr_alphabet pr)"
proof -
  let ?al = "pr_alphabet pr"
  from profile_alphabet [OF assms(1)] have al: "0 < length ?al" "length ?al \<le> 256" "distinct ?al" by auto
  from assms(2) obtain i where i: "i < length ?al" "?al ! i = c" by (auto simp: in_set_conv_nth)
  have "char_at ?al b = c \<longleftrightarrow> unat b mod length ?al = i" for b
    using al i nth_eq_iff_index_eq [OF al(3)] by (auto simp: char_at_def)
  then show ?thesis using card_byte_residue [OF i(1) al(2)] by (simp add: accepted_def)
qed

theorem sampling_unbiased_witness:
  "card {b. accepted (256 - 256 mod 62) b \<and> char_at alnum b = CHR ''Q''} = 4"
proof -
  let ?pr = "\<lparr>pr_name = ''alnum'', pr_alphabet = alnum, pr_length = 44, pr_strength = 262\<rparr>"
  have g: "Get ''alnum'' = Inr ?pr" by code_simp
  have c: "CHR ''Q'' \<in> set (pr_alphabet ?pr)" by code_simp
  have "length alnum = 62" by code_simp
  with sampling_unbiased [OF g c] show ?thesis by simp
qed

text \<open>
  The strength that \<open>Generate\<close> records is 258, 261, 236 and 261 bits for the four profiles; the
  \<open>StrengthBits\<close> of the table (262, 238 and 262) is above it for all but the default profile.
\<close>

theorem strength_of_profiles:
  "map (\<lambda>(n, pr). (n, strength_bits (pr_length pr) (length (pr_alphabet pr)), pr_strength pr)) profile_table
    = [(''default'', 258, 258), (''alnum'', 261, 262), (''password'', 236, 238), (''database'', 261, 262)]"
  by (rule table_strengths)

end
