(* ===== verification/Broker.thy ===== *)
theory Broker
  imports BrokerRun VaultInit PowerHold Generator Actions
begin

section \<open>The broker (internal/broker/broker.go)\<close>

text \<open>
  The broker owns the store and the power hold and answers one request at a time per connection. Its
  state is the Go struct without the mutex; an operation works on the world of the store extended by
  the broker, the disk with the vault file, the inhibitors of the operating system and the connection
  of the client. Every path of \<open>Handle\<close> ends by sending one final response, so its model is an effect
  without a result.
\<close>

record Broker =
  br_vaultPath :: string
  br_store :: "Store option"
  br_startedAt :: gotime
  br_power :: manager

record bstate =
  bs_broker :: Broker
  bs_disk :: disk
  bs_os :: os
  bs_starts :: nat
  bs_conn :: conn

type_synonym 'a bro = "(bstate, 'a) eff"

text \<open>
  What the broker is started with: the cryptographic primitives, how the operating system answers each
  call of \<open>acquire\<close>, \<open>os.Environ()\<close>, the processes, the error of the request's context when a child ends,
  and the order in which Go iterates over a map.
\<close>

record setting =
  en_prims :: prims
  en_acquire :: "nat \<Rightarrow> os \<Rightarrow> acquired"
  en_environ :: "string list"
  en_child :: "Invocation \<Rightarrow> child"
  en_ctx_err :: "error option"
  en_order :: "strmap \<Rightarrow> strmap"

subsection \<open>Access to the parts of the state\<close>

definition look :: "(bstate \<Rightarrow> 'a) \<Rightarrow> 'a bro" where
  "look f w = (Inr (f (w_db w)), w)"

definition change_state :: "(bstate \<Rightarrow> bstate) \<Rightarrow> unit bro" where
  "change_state f w = (Inr (), w\<lparr>w_db := f (w_db w)\<rparr>)"

definition set_store :: "Store option \<Rightarrow> bstate \<Rightarrow> bstate" where
  "set_store s b = b\<lparr>bs_broker := (bs_broker b)\<lparr>br_store := s\<rparr>\<rparr>"

definition on_disk :: "(disk, 'a) eff \<Rightarrow> 'a bro" where
  "on_disk m w =
     (case m (with_db w (bs_disk (w_db w))) of
        (r, w') \<Rightarrow> (r, with_db w' ((w_db w)\<lparr>bs_disk := w_db w'\<rparr>)))"

abbreviation on_vault :: "'a vault \<Rightarrow> 'a bro" where
  "on_vault m \<equiv> on_disk (on_file m)"

text \<open>\<open>power.Start()\<close> and \<open>power.Stop()\<close>.\<close>

definition power_Start :: "setting \<Rightarrow> unit bro" where
  "power_Start E w =
     (let b = w_db w in
      case Start (en_acquire E (bs_starts b)) (br_power (bs_broker b)) (bs_os b) of
        (err, m, s) \<Rightarrow>
          ((case err of None \<Rightarrow> Inr () | Some e \<Rightarrow> Inl e),
           w\<lparr>w_db := b\<lparr>bs_broker := (bs_broker b)\<lparr>br_power := m\<rparr>, bs_os := s, bs_starts := Suc (bs_starts b)\<rparr>\<rparr>))"

definition power_Stop :: "unit bro" where
  "power_Stop = change_state (\<lambda>b. case Stop (br_power (bs_broker b)) (bs_os b) of
     (m, s) \<Rightarrow> b\<lparr>bs_broker := (bs_broker b)\<lparr>br_power := m\<rparr>, bs_os := s\<rparr>)"

subsection \<open>Starting and closing\<close>

definition contains :: "string \<Rightarrow> string \<Rightarrow> bool" where
  "contains needle s \<longleftrightarrow> sublist needle s"

definition New :: "string \<Rightarrow> (disk, Broker) eff" where
  "New vaultPath =
     bnd time_now (\<lambda>now.
     let b = \<lparr>br_vaultPath = vaultPath, br_store = None, br_startedAt = now, br_power = new_manager\<rparr> in
     on_error (bnd (OpenVault vaultPath) (\<lambda>store. ret (b\<lparr>br_store := Some store\<rparr>)))
       (\<lambda>err. if error_is err (Sentinel ''file does not exist'') \<or> contains ''no such file'' (error_text err)
             then ret b else fail err))"

definition Broker_Close :: "unit bro" where
  "Broker_Close =
     bnd power_Stop (\<lambda>_.
     change_state (\<lambda>b. case br_store (bs_broker b) of None \<Rightarrow> b | Some s \<Rightarrow> set_store (Some (VaultKeys.Close s)) b))"

subsection \<open>The store\<close>

definition getStore :: "Store bro" where
  "getStore =
     bnd (look (br_store \<circ> bs_broker)) (\<lambda>st.
     case st of
       Some s \<Rightarrow> ret s
     | None \<Rightarrow>
         bnd (look (br_vaultPath \<circ> bs_broker)) (\<lambda>path.
         bnd (wrap_error ''vault is not initialized; run vcsm init: '' (on_disk (OpenVault path))) (\<lambda>s.
         bnd (change_state (set_store (Some s))) (\<lambda>_. ret s))))"

definition Broker_status :: "Status bro" where
  "Broker_status =
     bnd (on_error (bnd getStore (\<lambda>_. ret ())) (\<lambda>_. ret ())) (\<lambda>_.
     look (\<lambda>b. let br = bs_broker b in
       \<lparr>su_initialized = br_store br \<noteq> None,
        su_unlocked = (case br_store br of None \<Rightarrow> False | Some s \<Rightarrow> IsUnlocked s),
        su_vault_id = (case br_store br of None \<Rightarrow> [] | Some s \<Rightarrow> st_vaultID s),
        su_started_at = br_startedAt br, su_unlock_mode = ''until-broker-restart'',
        su_power_hold = Active (br_power br)\<rparr>))"

subsection \<open>Validation\<close>

definition name_start :: "char \<Rightarrow> bool" where
  "name_start c \<longleftrightarrow> 65 \<le> code c \<and> code c \<le> 90 \<or> 97 \<le> code c \<and> code c \<le> 122"

definition name_char :: "char \<Rightarrow> bool" where
  "name_char c \<longleftrightarrow> name_start c \<or> is_digit c \<or> c = CHR ''_'' \<or> c = CHR ''.'' \<or> c = CHR ''-''"

definition safeName :: "string \<Rightarrow> bool" where
  "safeName s \<longleftrightarrow> (case s of [] \<Rightarrow> False | c # cs \<Rightarrow> name_start c \<and> list_all name_char cs \<and> length cs \<le> 127)"

definition safeEnvName :: "string \<Rightarrow> bool" where
  "safeEnvName s \<longleftrightarrow> (case s of [] \<Rightarrow> False | c # cs \<Rightarrow>
     (name_start c \<or> c = CHR ''_'') \<and> list_all (\<lambda>d. name_start d \<or> is_digit d \<or> d = CHR ''_'') cs)"

definition validateSecretRequest :: "SecretRequest \<Rightarrow> error option" where
  "validateSecretRequest r =
     (if \<not> safeName (sc_project (sr_scope r)) \<or> \<not> safeName (sc_environment (sr_scope r)) \<or> \<not> safeName (sr_name r)
      then Some (Errorf ''project, environment, and secret name must use letters, digits, dot, dash, or underscore'')
      else case Get (sr_profile r) of Inl err \<Rightarrow> Some err | Inr _ \<Rightarrow> None)"

definition validateAction :: "Action \<Rightarrow> error option" where
  "validateAction a =
     (if \<not> safeName (ac_project a) \<or> \<not> safeName (ac_environment a) \<or> \<not> safeName (ac_name a)
      then Some (Errorf ''invalid action scope or name'')
      else if ac_executable a = [] then Some (Errorf ''action executable is required'')
      else if ac_output_policy a \<noteq> ''metadata'' \<and> ac_output_policy a \<noteq> ''redacted''
      then Some (Errorf ''output policy must be metadata or redacted'')
      else if \<not> list_all (\<lambda>(envName, secretName). safeEnvName envName \<and> safeName secretName)
                (case ac_secrets a of None \<Rightarrow> [] | Some m \<Rightarrow> m)
      then Some (Errorf ''invalid secret mapping'')
      else None)"

definition require :: "error option \<Rightarrow> ('db, unit) eff" where
  "require e = (case e of None \<Rightarrow> ret () | Some err \<Rightarrow> fail err)"

definition copySecretNames :: "strmap option \<Rightarrow> strmap option" where
  "copySecretNames m = Some (case m of None \<Rightarrow> [] | Some m \<Rightarrow> m)"

definition errorText :: "error option \<Rightarrow> string" where
  "errorText e = (case e of None \<Rightarrow> [] | Some err \<Rightarrow> error_text err)"

definition publicError :: "error \<Rightarrow> string" where
  "publicError err = (if error_is err ErrInvalidPassword then error_text ErrInvalidPassword else error_text err)"

subsection \<open>Responses\<close>

text \<open>\<open>json.Marshal\<close> of the values that are returned; a nil slice is written as \<open>null\<close>.\<close>

definition encode_secret :: "SecretMetadata \<Rightarrow> jv result" where
  "encode_secret m = and_then (marshal_secret m) (\<lambda>_. Inr (secret_json m))"

definition encode_action :: "Action \<Rightarrow> jv result" where
  "encode_action a = and_then (marshal_action a) (\<lambda>_. Inr (action_json a))"

definition encode_event :: "AuditEvent \<Rightarrow> jv result" where
  "encode_event e = and_then (marshal_audit e) (\<lambda>_. Inr (audit_json e))"

definition encode_status :: "Status \<Rightarrow> jv result" where
  "encode_status s = (if t_year (su_started_at s) < 10000 then Inr (status_json s) else Inl year_error)"

primrec encode_elems :: "('a \<Rightarrow> jv result) \<Rightarrow> 'a list \<Rightarrow> jv list result" where
  "encode_elems f [] = Inr []"
| "encode_elems f (x # xs) = and_then (f x) (\<lambda>v. and_then (encode_elems f xs) (\<lambda>vs. Inr (v # vs)))"

definition encode_slice :: "('a \<Rightarrow> jv result) \<Rightarrow> 'a list \<Rightarrow> jv result" where
  "encode_slice f xs = (if xs = [] then Inr JNull else and_then (encode_elems f xs) (\<lambda>vs. Inr (JArr vs)))"

definition send :: "Response \<Rightarrow> unit bro" where
  "send r w =
     (case send_response r (bs_conn (w_db w)) of
        (err, c) \<Rightarrow> ((case err of None \<Rightarrow> Inr () | Some e \<Rightarrow> Inl e), w\<lparr>w_db := (w_db w)\<lparr>bs_conn := c\<rparr>\<rparr>))"

definition ignore :: "('db, 'a) eff \<Rightarrow> ('db, unit) eff" where
  "ignore m = on_error (bnd m (\<lambda>_. ret ())) (\<lambda>_. ret ())"

definition send_error :: "error \<Rightarrow> unit bro" where
  "send_error err = ignore (send (zero_Response\<lparr>rs_error := publicError err, rs_final := True\<rparr>))"

definition send_done :: "jv \<Rightarrow> unit bro" where
  "send_done v = ignore (send (zero_Response\<lparr>rs_ok := True, rs_data := Some v, rs_final := True\<rparr>))"

text \<open>What a case of \<open>Handle\<close> does with its value or its error: \<open>done(value)\<close> or \<open>fail(err)\<close>.\<close>

definition respond :: "jv bro \<Rightarrow> unit bro" where
  "respond m w = (case m w of (Inl err, w') \<Rightarrow> send_error err w' | (Inr v, w') \<Rightarrow> send_done v w')"

subsection \<open>Requests\<close>

definition do_status :: "jv bro" where
  "do_status = bnd Broker_status (\<lambda>s. lift (encode_status s))"

definition do_unlock :: "setting \<Rightarrow> jv option \<Rightarrow> jv bro" where
  "do_unlock E raw =
     bnd (lift (unmarshal_raw unlock_fields \<lparr>ur_password = None\<rparr> raw)) (\<lambda>payload.
     bnd getStore (\<lambda>store.
     bnd (on_vault (Unlock (en_prims E) store (case ur_password payload of None \<Rightarrow> [] | Some b \<Rightarrow> b))) (\<lambda>store'.
     bnd (change_state (set_store (Some store'))) (\<lambda>_.
     bnd (power_Start E) (\<lambda>_.
     do_status)))))"

definition do_lock :: "jv bro" where
  "do_lock =
     bnd getStore (\<lambda>store.
     bnd (change_state (set_store (Some (snd (Lock store))))) (\<lambda>_.
     bnd power_Stop (\<lambda>_.
     do_status)))"

definition do_write_secret :: "setting \<Rightarrow> bool \<Rightarrow> jv option \<Rightarrow> jv bro" where
  "do_write_secret E create raw =
     bnd (lift (unmarshal_raw secret_request_fields zero_SecretRequest raw)) (\<lambda>payload.
     bnd (require (validateSecretRequest payload)) (\<lambda>_.
     bnd (random (Generate (sr_profile payload))) (\<lambda>(val, profile).
     bnd getStore (\<lambda>store.
     bnd (if create
          then on_vault (CreateSecret (en_prims E) store
                 (zero_SecretMetadata\<lparr>sm_project := sc_project (sr_scope payload),
                    sm_environment := sc_environment (sr_scope payload), sm_name := sr_name payload,
                    sm_profile := pr_name profile, sm_strength_bits := pr_strength profile\<rparr>) val)
          else on_vault (RotateSecret (en_prims E) store (sr_scope payload) (sr_name payload)
                 (pr_name profile) (pr_strength profile) val)) (\<lambda>metadata.
     lift (encode_secret metadata))))))"

definition do_revoke :: "setting \<Rightarrow> jv option \<Rightarrow> jv bro" where
  "do_revoke E raw =
     bnd (lift (unmarshal_raw secret_request_fields zero_SecretRequest raw)) (\<lambda>payload.
     bnd getStore (\<lambda>store.
     bnd (on_vault (RevokeSecret (en_prims E) store (sr_scope payload) (sr_name payload))) (\<lambda>metadata.
     lift (encode_secret metadata))))"

definition do_list_secrets :: "setting \<Rightarrow> jv option \<Rightarrow> jv bro" where
  "do_list_secrets E raw =
     bnd (lift (unmarshal_raw scope_request_fields \<lparr>sq_scope = zero_Scope\<rparr> raw)) (\<lambda>payload.
     bnd getStore (\<lambda>store.
     bnd (on_vault (ListSecrets (en_prims E) store (sq_scope payload))) (\<lambda>ms.
     lift (encode_slice encode_secret ms))))"

definition do_configure :: "setting \<Rightarrow> jv option \<Rightarrow> jv bro" where
  "do_configure E raw =
     bnd (lift (unmarshal_raw configure_fields \<lparr>cq_action = zero_Action, cq_master_password = None\<rparr> raw)) (\<lambda>payload.
     let action = cq_action payload;
         action = (if ac_output_policy action = [] then action\<lparr>ac_output_policy := ''metadata''\<rparr> else action)
     in
     bnd (require (validateAction action)) (\<lambda>_.
     bnd getStore (\<lambda>store.
     bnd (on_vault (VerifyPassword (en_prims E) store (case cq_master_password payload of None \<Rightarrow> [] | Some b \<Rightarrow> b))) (\<lambda>_.
     bnd (on_vault (PutAction (en_prims E) store action)) (\<lambda>stored.
     lift (encode_action stored))))))"

definition do_list_actions :: "setting \<Rightarrow> jv option \<Rightarrow> jv bro" where
  "do_list_actions E raw =
     bnd (lift (unmarshal_raw scope_request_fields \<lparr>sq_scope = zero_Scope\<rparr> raw)) (\<lambda>payload.
     bnd getStore (\<lambda>store.
     bnd (on_vault (ListActions (en_prims E) store (sq_scope payload))) (\<lambda>actions.
     lift (encode_slice encode_action (map (\<lambda>a. a\<lparr>ac_secrets := copySecretNames (ac_secrets a)\<rparr>) actions)))))"

definition do_audit :: "setting \<Rightarrow> jv option \<Rightarrow> jv bro" where
  "do_audit E raw =
     bnd (lift (unmarshal_raw audit_request_fields \<lparr>lq_limit = 0\<rparr> raw)) (\<lambda>payload.
     bnd getStore (\<lambda>store.
     bnd (on_vault (ListAudit (en_prims E) store (lq_limit payload))) (\<lambda>events.
     lift (encode_slice encode_event events))))"

text \<open>The child process of an action, on the connection of the state.\<close>

definition run_process :: "setting \<Rightarrow> Action \<Rightarrow> (string \<times> bytes) list \<Rightarrow> (int \<times> error option) bro" where
  "run_process E action vals w =
     (case run_child (ac_output_policy action) (en_child E) (en_ctx_err E)
             \<lparr>iv_command = ac_executable action # (case ac_arguments action of None \<Rightarrow> [] | Some args \<Rightarrow> args),
              iv_dir = ac_directory action, iv_env = child_environment (en_environ E) vals\<rparr>
             (map snd (sort_key fst vals)) (bs_conn (w_db w)) of
        (res, c) \<Rightarrow> (Inr res, w\<lparr>w_db := (w_db w)\<lparr>bs_conn := c\<rparr>\<rparr>))"

definition run_event :: "Action \<Rightarrow> int \<Rightarrow> error option \<Rightarrow> AuditEvent" where
  "run_event action exit_code runErr = zero_AuditEvent\<lparr>ae_actor := ''agent'', ae_operation := ''action.run'',
     ae_object_id := ac_id action, ae_outcome := (if runErr \<noteq> None then ''failure'' else ''success''),
     ae_detail := ''exit_code='' @ dec_int exit_code\<rparr>"

definition run_response :: "Action \<Rightarrow> int \<Rightarrow> error option \<Rightarrow> Response" where
  "run_response action exit_code runErr = zero_Response\<lparr>rs_ok := (runErr = None),
     rs_data := Some (run_result_json \<lparr>rr_action = ac_name action, rr_exit_code = exit_code\<rparr>),
     rs_error := errorText runErr, rs_final := True\<rparr>"

definition runAction :: "setting \<Rightarrow> ActionRequest \<Rightarrow> unit bro" where
  "runAction E payload =
     bnd getStore (\<lambda>store.
     bnd (on_vault (GetAction (en_prims E) store (aq_scope payload) (aq_name payload))) (\<lambda>action.
     bnd (on_vault (ResolveSecrets (en_prims E) store (aq_scope payload)
            (en_order E (case ac_secrets action of None \<Rightarrow> [] | Some m \<Rightarrow> m)))) (\<lambda>vals.
     bnd (run_process E action vals) (\<lambda>(exit_code, runErr).
     bnd (ignore (on_vault (RecordAudit (en_prims E) store (run_event action exit_code runErr)))) (\<lambda>_.
     send (run_response action exit_code runErr))))))"

definition do_run :: "setting \<Rightarrow> jv option \<Rightarrow> unit bro" where
  "do_run E raw =
     on_error
       (bnd (lift (unmarshal_raw action_request_fields zero_ActionRequest raw)) (\<lambda>payload. runAction E payload))
       send_error"

definition Handle :: "setting \<Rightarrow> Request \<Rightarrow> unit bro" where
  "Handle E request =
     (let op = rq_operation request; raw = rq_payload request in
      if op = ''status'' then respond do_status
      else if op = ''unlock'' then respond (do_unlock E raw)
      else if op = ''lock'' then respond do_lock
      else if op = ''secret.create'' \<or> op = ''secret.rotate'' then respond (do_write_secret E (op = ''secret.create'') raw)
      else if op = ''secret.revoke'' then respond (do_revoke E raw)
      else if op = ''secret.list'' then respond (do_list_secrets E raw)
      else if op = ''action.configure'' then respond (do_configure E raw)
      else if op = ''action.list'' then respond (do_list_actions E raw)
      else if op = ''run'' then do_run E raw
      else if op = ''audit.list'' then respond (do_audit E raw)
      else send_error (Errorf (''unknown operation '' @ go_quote op)))"

end
