(* ===== verification/BrokerOutput.thy ===== *)
theory BrokerOutput
  imports BrokerRun
begin

section \<open>What a run sends to the client\<close>

text \<open>
  The events of a run, stream by stream: with the policy \<open>redacted\<close> the client receives the redaction of
  everything the child wrote to a stream, however the writes of the two streams are cut and interleaved,
  and with the policy \<open>metadata\<close> nothing. The writers of the two streams share the connection; each is
  simulated by a redacting writer over a buffer of its own.
\<close>

subsection \<open>Text of a stream\<close>

definition response_text :: "Response \<Rightarrow> bytes" where
  "response_text r = (case rs_data r of Some (JStr s) \<Rightarrow> bytes_of s | _ \<Rightarrow> [])"

definition stream_text :: "string \<Rightarrow> Response list \<Rightarrow> bytes" where
  "stream_text event rs = concat (map response_text (filter (\<lambda>r. rs_event r = event \<and> \<not> rs_final r) rs))"

lemma stream_text_append [simp]: "stream_text ev (xs @ ys) = stream_text ev xs @ stream_text ev ys"
  by (simp add: stream_text_def)

definition event_response :: "string \<Rightarrow> bytes \<Rightarrow> Response" where
  "event_response event p = zero_Response\<lparr>rs_ok := True, rs_event := event, rs_data := Some (JStr (string_of p))\<rparr>"

lemma stream_text_event [simp]: "stream_text ev [event_response ev' p] = (if ev = ev' then p else [])"
  by (simp add: stream_text_def event_response_def response_text_def zero_Response_def)

lemma eventWriter_clean:
  "cn_faults c = [] \<Longrightarrow> eventWriter_Write ev c p = (None, c\<lparr>cn_sent := cn_sent c @ [event_response ev p]\<rparr>)"
  by (simp add: eventWriter_Write_def send_response_def event_response_def)

text \<open>An event writer is a sink: the client's text of the stream grows by what was written.\<close>

interpretation events: sink "eventWriter_Write ev" "\<lambda>c. stream_text ev (cn_sent c)" "\<lambda>_. True" for ev
proof
  fix p d d'
  assume "eventWriter_Write ev d p = (None, d')"
  then have "cn_sent d' = cn_sent d @ [event_response ev p]"
    by (auto simp: eventWriter_Write_def send_response_def event_response_def split: list.splits option.splits)
  then show "stream_text ev (cn_sent d') = stream_text ev (cn_sent d) @ p" by simp
next
  fix p d e d'
  assume "eventWriter_Write ev d p = (Some e, d')"
  then have "cn_sent d' = cn_sent d"
    by (auto simp: eventWriter_Write_def send_response_def split: list.splits option.splits)
  then show "\<exists>q. prefix q p \<and> stream_text ev (cn_sent d') = stream_text ev (cn_sent d) @ q" by (intro exI [of _ "[]"]) simp
qed (simp add: list_all_iff)

subsection \<open>One writer against a buffer\<close>

definition buffered :: "bytes list \<Rightarrow> bytes list \<Rightarrow> bytes writer" where
  "buffered vals ps = fold (\<lambda>p w. snd (Write buffer_write w p)) ps (NewWriter [] vals)"

lemma buffered_snoc: "buffered vals (ps @ [p]) = snd (Write buffer_write (buffered vals ps) p)"
  by (simp add: buffered_def)

lemma write_all_fold:
  "write_all buffer_write w ps = Close buffer_write (fold (\<lambda>p w. snd (Write buffer_write w p)) ps w)"
proof (induction ps arbitrary: w)
  case (Cons p ps)
  have "snd (fst (Write buffer_write w p)) = None"
    by (simp add: Write_def buffer_write_def Let_def)
  then show ?case using Cons by (cases "Write buffer_write w p") (auto split: prod.splits)
qed simp

text \<open>A writer on the connection and the buffered writer agree.\<close>

definition mirrors :: "conn writer \<Rightarrow> bytes writer \<Rightarrow> bool" where
  "mirrors w b \<longleftrightarrow> w_values w = w_values b \<and> w_pending w = w_pending b"

lemma partialSuffixLength_mirrors:
  "w_values w = w_values b \<Longrightarrow> w_pending w = w_pending b \<Longrightarrow> partialSuffixLength w = partialSuffixLength b"
  by (simp add: partialSuffixLength_def)

lemma redact_mirrors: "w_values w = w_values b \<Longrightarrow> redact w = redact b"
  by (rule ext) (simp add: redact_def)

lemma write_to_mirrors:
  assumes "mirrors w b" and "cn_faults c = []"
  shows "\<exists>w' q. write_to (eventWriter_Write ev) w p c = ((None, w'), c\<lparr>cn_sent := cn_sent c @ q\<rparr>)
    \<and> mirrors w' (snd (Write buffer_write b p)) \<and> w_dst (snd (Write buffer_write b p)) = w_dst b @ stream_text ev q
    \<and> set q \<subseteq> range (event_response ev)"
proof -
  let ?w = "w\<lparr>w_dst := c, w_pending := w_pending w @ p\<rparr>" and ?b = "b\<lparr>w_pending := w_pending b @ p\<rparr>"
  have eq: "partialSuffixLength ?w = partialSuffixLength ?b" "redact ?w = redact ?b" "w_pending w = w_pending b"
    using assms(1) by (auto simp: mirrors_def intro!: partialSuffixLength_mirrors redact_mirrors)
  let ?n = "int (length (w_pending b @ p)) - int (partialSuffixLength ?b)"
  show ?thesis
  proof (cases "?n \<le> 0")
    case True
    then have "write_to (eventWriter_Write ev) w p c = ((None, ?w), c\<lparr>cn_sent := cn_sent c @ []\<rparr>)"
      using eq by (simp add: write_to_def Write_def Let_def)
    moreover have "snd (Write buffer_write b p) = ?b" using True by (simp add: Write_def Let_def)
    moreover have "mirrors ?w ?b" using assms(1) by (simp add: mirrors_def)
    ultimately show ?thesis by (intro exI [of _ ?w] exI [of _ "[]"]) (simp add: stream_text_def)
  next
    case False
    let ?f = "nat ?n"
    let ?out = "redact ?b (take ?f (w_pending b @ p))"
    let ?c = "c\<lparr>cn_sent := cn_sent c @ [event_response ev ?out]\<rparr>"
    let ?w' = "?w\<lparr>w_dst := ?c, w_pending := drop ?f (w_pending b @ p)\<rparr>"
    have "write_to (eventWriter_Write ev) w p c = ((None, ?w'), ?c)"
      using False eq eventWriter_clean [OF assms(2)] by (simp add: write_to_def Write_def Let_def)
    moreover have "snd (Write buffer_write b p) = ?b\<lparr>w_dst := w_dst b @ ?out, w_pending := drop ?f (w_pending b @ p)\<rparr>"
      using False by (simp add: Write_def Let_def buffer_write_def)
    moreover have "mirrors ?w' (?b\<lparr>w_dst := w_dst b @ ?out, w_pending := drop ?f (w_pending b @ p)\<rparr>)"
      using assms(1) by (simp add: mirrors_def)
    ultimately show ?thesis
      by (intro exI [of _ ?w'] exI [of _ "[event_response ev ?out]"]) simp
  qed
qed

lemma close_to_mirrors:
  assumes "mirrors w b" and "cn_faults c = []"
  shows "\<exists>q. close_to (eventWriter_Write ev) w c = c\<lparr>cn_sent := cn_sent c @ q\<rparr>
    \<and> w_dst (snd (Close buffer_write b)) = w_dst b @ stream_text ev q \<and> set q \<subseteq> range (event_response ev)"
proof (cases "w_pending b = []")
  case True
  then have "close_to (eventWriter_Write ev) w c = c\<lparr>cn_sent := cn_sent c @ []\<rparr>"
    using assms(1) by (simp add: close_to_def Close_def mirrors_def)
  moreover have "w_dst (snd (Close buffer_write b)) = w_dst b" using True by (simp add: Close_def)
  ultimately show ?thesis by (intro exI [of _ "[]"]) (simp add: stream_text_def)
next
  case False
  let ?out = "redact b (w_pending b)"
  have "redact (w\<lparr>w_dst := c\<rparr>) = redact b" using assms(1) by (intro redact_mirrors) (simp add: mirrors_def)
  then have "close_to (eventWriter_Write ev) w c = c\<lparr>cn_sent := cn_sent c @ [event_response ev ?out]\<rparr>"
    using assms(1) False eventWriter_clean [OF assms(2)] by (simp add: close_to_def Close_def Let_def mirrors_def)
  moreover have "w_dst (snd (Close buffer_write b)) = w_dst b @ ?out"
    using False by (simp add: Close_def Let_def buffer_write_def)
  ultimately show ?thesis by (intro exI [of _ "[event_response ev ?out]"]) simp
qed

subsection \<open>The whole run\<close>

definition written :: "bool \<Rightarrow> (bool \<times> bytes) list \<Rightarrow> bytes list" where
  "written is_err ws = map snd (filter (\<lambda>x. fst x = is_err) ws)"

lemma written_append: "written b (xs @ ys) = written b xs @ written b ys"
  by (simp add: written_def)

definition event_of :: "bool \<Rightarrow> string" where
  "event_of is_err = (if is_err then ''stderr'' else ''stdout'')"

lemma event_of_simps [simp]: "event_of True = ''stderr''" "event_of False = ''stdout''" "event_of b = event_of b' \<longleftrightarrow> b = b'"
  by (simp_all add: event_of_def)

definition events_only :: "Response list \<Rightarrow> bool" where
  "events_only q \<longleftrightarrow> (\<forall>r\<in>set q. \<exists>b p. r = event_response (event_of b) p)"

lemma events_only_simps [simp]:
  "events_only []" "events_only (xs @ ys) \<longleftrightarrow> events_only xs \<and> events_only ys"
  by (auto simp: events_only_def)

lemma events_only_range: "set q \<subseteq> range (event_response (event_of b)) \<Longrightarrow> events_only q"
  by (fastforce simp: events_only_def)

lemma other_stream: "set q \<subseteq> range (event_response (event_of b)) \<Longrightarrow> b \<noteq> b' \<Longrightarrow> stream_text (event_of b') q = []"
  by (induction q) (auto simp: stream_text_def event_response_def zero_Response_def)

text \<open>The state of the copying after the writes \<open>ws\<close>, of which the responses \<open>q\<close> came.\<close>

definition pumped :: "bytes list \<Rightarrow> (bool \<times> bytes) list \<Rightarrow> Response list \<Rightarrow> pumps \<Rightarrow> bool" where
  "pumped vals ws q pm \<longleftrightarrow> mirrors (pm_out pm) (buffered vals (written False ws))
     \<and> mirrors (pm_err pm) (buffered vals (written True ws)) \<and> pm_failed pm = [] \<and> events_only q
     \<and> (\<forall>b. w_dst (buffered vals (written b ws)) = stream_text (event_of b) q)"

lemma pump_step:
  assumes "pumped vals ws q pm" and "cn_faults c = []"
  shows "\<exists>pm' q'. pump ''redacted'' x (pm, c) = (pm', c\<lparr>cn_sent := cn_sent c @ q'\<rparr>) \<and> pumped vals (ws @ [x]) (q @ q') pm'"
proof -
  obtain b p where x: "x = (b, p)" by (cases x)
  have ws: "written b (ws @ [x]) = written b ws @ [p]" "written (\<not> b) (ws @ [x]) = written (\<not> b) ws"
    by (simp_all add: written_append x) (simp_all add: written_def)
  let ?w = "if b then pm_err pm else pm_out pm"
  have "mirrors ?w (buffered vals (written b ws))" using assms(1) by (cases b) (simp_all add: pumped_def)
  from write_to_mirrors [OF this assms(2), of "event_of b" p] obtain w' q' where
    w': "write_to (eventWriter_Write (event_of b)) ?w p c = ((None, w'), c\<lparr>cn_sent := cn_sent c @ q'\<rparr>)"
    "mirrors w' (buffered vals (written b ws @ [p]))"
    "w_dst (buffered vals (written b ws @ [p])) = w_dst (buffered vals (written b ws)) @ stream_text (event_of b) q'"
    "set q' \<subseteq> range (event_response (event_of b))"
    unfolding buffered_snoc [symmetric] by blast
  let ?pm = "if b then pm\<lparr>pm_err := w'\<rparr> else pm\<lparr>pm_out := w'\<rparr>"
  have pm: "pm_failed pm = []" using assms(1) by (simp add: pumped_def)
  have run: "pump ''redacted'' x (pm, c) = (?pm, c\<lparr>cn_sent := cn_sent c @ q'\<rparr>)"
    using w'(1) pm by (cases b) (simp_all add: pump_def x stream_target_def event_of_def)
  have "w_dst (buffered vals (written b' (ws @ [x]))) = stream_text (event_of b') (q @ q')" for b'
  proof (cases "b' = b")
    case True
    then show ?thesis using assms(1) ws w'(3) by (simp add: pumped_def)
  next
    case False
    then have "b' = (\<not> b)" by simp
    then show ?thesis using assms(1) ws(2) other_stream [OF w'(4), of b'] False by (simp add: pumped_def)
  qed
  then have "pumped vals (ws @ [x]) (q @ q') ?pm"
    using assms(1) ws w'(2) events_only_range [OF w'(4)] by (cases b) (simp_all add: pumped_def)
  with run show ?thesis by blast
qed

lemma pump_all:
  "pumped vals ws q pm \<Longrightarrow> cn_faults c = [] \<Longrightarrow>
   \<exists>pm' q'. fold (pump ''redacted'') xs (pm, c) = (pm', c\<lparr>cn_sent := cn_sent c @ q'\<rparr>) \<and> pumped vals (ws @ xs) (q @ q') pm'"
proof (induction xs arbitrary: ws q pm c)
  case Nil
  then show ?case by (intro exI [of _ pm] exI [of _ "[]"]) simp
next
  case (Cons x xs)
  obtain pm1 q1 where 1: "pump ''redacted'' x (pm, c) = (pm1, c\<lparr>cn_sent := cn_sent c @ q1\<rparr>)"
    "pumped vals (ws @ [x]) (q @ q1) pm1"
    using pump_step [OF Cons.prems] by blast
  obtain pm2 q2 where 2: "fold (pump ''redacted'') xs (pm1, c\<lparr>cn_sent := cn_sent c @ q1\<rparr>)
      = (pm2, c\<lparr>cn_sent := (cn_sent c @ q1) @ q2\<rparr>)" "pumped vals ((ws @ [x]) @ xs) ((q @ q1) @ q2) pm2"
    using Cons.IH [OF 1(2), of "c\<lparr>cn_sent := cn_sent c @ q1\<rparr>"] Cons.prems(2) by auto
  show ?case by (intro exI [of _ pm2] exI [of _ "q1 @ q2"]) (use 1(1) 2 in simp)
qed

lemma pumped_new: "pumped vals [] [] \<lparr>pm_out = NewWriter c vals, pm_err = NewWriter c vals, pm_failed = []\<rparr>"
  by (simp add: pumped_def mirrors_def buffered_def NewWriter_def written_def stream_text_def)

text \<open>What the buffered writer holds after \<open>Close\<close>.\<close>

definition delivered :: "bytes list \<Rightarrow> bytes list \<Rightarrow> bytes" where
  "delivered vals ps = w_dst (snd (Close buffer_write (buffered vals ps)))"

lemma delivered_write_all: "delivered vals ps = w_dst (snd (write_all buffer_write (NewWriter [] vals) ps))"
  by (simp add: delivered_def write_all_fold buffered_def)

lemma run_child_redacted:
  assumes "cn_faults c = []" and "iv_command call \<noteq> []"
  shows "\<exists>q. run_child ''redacted'' proc ctx_err call vals c
        = (exit_of ctx_err (ch_end (proc call)), c\<lparr>cn_sent := cn_sent c @ q\<rparr>)
    \<and> events_only q \<and> (\<forall>b. stream_text (event_of b) q = delivered vals (written b (ch_writes (proc call))))"
proof -
  let ?ws = "ch_writes (proc call)" and ?pm = "\<lparr>pm_out = NewWriter c vals, pm_err = NewWriter c vals, pm_failed = []\<rparr>"
  obtain pm q where pump: "fold (pump ''redacted'') ?ws (?pm, c) = (pm, c\<lparr>cn_sent := cn_sent c @ q\<rparr>)"
    and pm: "pumped vals ?ws q pm"
    using pump_all [where pm = ?pm and vals = vals and xs = ?ws and c = c and ws = "[]" and q = "[]", OF pumped_new assms(1)]
    by auto
  let ?c = "c\<lparr>cn_sent := cn_sent c @ q\<rparr>"
  have failed: "pm_failed pm = []" using pm by (simp add: pumped_def)
  have run: "Run (child_run ''redacted'' proc) ctx_err call (?pm, c) = (exit_of ctx_err (ch_end (proc call)), (pm, ?c))"
    by (rule Run_command [OF assms(2)]) (use failed in \<open>simp add: child_run_def pump Let_def split: option.split\<close>)
  have m: "mirrors (pm_out pm) (buffered vals (written False ?ws))" "mirrors (pm_err pm) (buffered vals (written True ?ws))"
    using pm by (simp_all add: pumped_def)
  obtain q1 where 1: "close_to (eventWriter_Write ''stdout'') (pm_out pm) ?c = ?c\<lparr>cn_sent := (cn_sent c @ q) @ q1\<rparr>"
    "delivered vals (written False ?ws) = stream_text (event_of False) q @ stream_text (event_of False) q1"
    "set q1 \<subseteq> range (event_response (event_of False))"
    using close_to_mirrors [OF m(1), of ?c "''stdout''"] assms(1) pm by (auto simp: delivered_def pumped_def)
  obtain q2 where 2: "close_to (eventWriter_Write ''stderr'') (pm_err pm) (?c\<lparr>cn_sent := (cn_sent c @ q) @ q1\<rparr>)
      = ?c\<lparr>cn_sent := ((cn_sent c @ q) @ q1) @ q2\<rparr>"
    "delivered vals (written True ?ws) = stream_text (event_of True) q @ stream_text (event_of True) q2"
    "set q2 \<subseteq> range (event_response (event_of True))"
    using close_to_mirrors [OF m(2), of "?c\<lparr>cn_sent := (cn_sent c @ q) @ q1\<rparr>" "''stderr''"] assms(1) pm
    by (auto simp: delivered_def pumped_def)
  have "run_child ''redacted'' proc ctx_err call vals c
      = (exit_of ctx_err (ch_end (proc call)), c\<lparr>cn_sent := cn_sent c @ q @ q1 @ q2\<rparr>)"
    using run 1(1) 2(1) by (simp add: run_child_def Let_def stream_target_def)
  moreover have "events_only (q @ q1 @ q2)"
    using pm events_only_range [OF 1(3)] events_only_range [OF 2(3)] by (simp add: pumped_def)
  moreover have "stream_text (event_of b) (q @ q1 @ q2) = delivered vals (written b ?ws)" for b
    using 1(2) 2(2) other_stream [OF 1(3), of True] other_stream [OF 2(3), of False] by (cases b) simp_all
  ultimately show ?thesis by blast
qed

text \<open>With any other policy nothing is sent.\<close>

lemma write_to_discard: "\<exists>w'. write_to discard_Write w p c = ((None, w'), c)"
  by (auto simp: write_to_def Write_def Let_def discard_Write_def)

lemma close_to_discard: "close_to discard_Write w c = c"
  by (simp add: close_to_def Close_def Let_def discard_Write_def)

lemma pump_discard:
  assumes "policy \<noteq> ''redacted''" and "pm_failed pm = []"
  shows "\<exists>pm'. fold (pump policy) xs (pm, c) = (pm', c) \<and> pm_failed pm' = []"
  using assms(2)
proof (induction xs arbitrary: pm)
  case (Cons x xs)
  obtain b p where x: "x = (b, p)" by (cases x)
  have "\<exists>pm'. pump policy x (pm, c) = (pm', c) \<and> pm_failed pm' = []"
    using assms(1) Cons.prems write_to_discard [of "pm_err pm" p c] write_to_discard [of "pm_out pm" p c]
    by (cases b) (auto simp: pump_def x stream_target_def)
  then obtain pm1 where "pump policy x (pm, c) = (pm1, c)" "pm_failed pm1 = []" by blast
  then show ?case using Cons.IH by simp
qed simp

lemma run_child_silent:
  assumes "policy \<noteq> ''redacted''" and "iv_command call \<noteq> []"
  shows "run_child policy proc ctx_err call vals c = (exit_of ctx_err (ch_end (proc call)), c)"
proof -
  let ?pm = "\<lparr>pm_out = NewWriter c vals, pm_err = NewWriter c vals, pm_failed = []\<rparr>"
  obtain pm where pm: "fold (pump policy) (ch_writes (proc call)) (?pm, c) = (pm, c)" "pm_failed pm = []"
    using pump_discard [OF assms(1), of ?pm "ch_writes (proc call)" c] by auto
  have "Run (child_run policy proc) ctx_err call (?pm, c) = (exit_of ctx_err (ch_end (proc call)), (pm, c))"
    by (rule Run_command [OF assms(2)]) (use pm in \<open>simp add: child_run_def Let_def split: option.split\<close>)
  then show ?thesis using assms(1) by (simp add: run_child_def Let_def stream_target_def close_to_discard)
qed

end
