(* ===== verification/BrokerCorrect.thy ===== *)
theory BrokerCorrect
  imports Broker BrokerOutput
begin

section \<open>Requests and their answers\<close>

text \<open>
  What holds of every request: it is answered by exactly one final response, after the events of a run,
  and only the operations that are meant to write to the vault file do. \<open>preserves f m\<close> says that an
  operation leaves the part \<open>f\<close> of the broker's state as it is; its rules are syntax directed.
\<close>

definition preserves :: "(bstate \<Rightarrow> 'c) \<Rightarrow> 'a bro \<Rightarrow> bool" where
  "preserves f m \<longleftrightarrow> (\<forall>w. f (w_db (snd (m w))) = f (w_db w))"

named_theorems preserve_intros \<open>rules for preserved parts of the broker's state\<close>

lemma preservesD: "preserves f m \<Longrightarrow> m w = (r, w') \<Longrightarrow> f (w_db w') = f (w_db w)"
  unfolding preserves_def by (metis snd_conv)

lemma preserves_base [preserve_intros]:
  "preserves f (ret x)" "preserves f (fail e)" "preserves f (lift r)" "preserves f (random g)" "preserves f (look h)"
  "preserves f (require eo)"
  by (auto simp: preserves_def ret_def fail_def lift_def random_def look_def require_def
      split: prod.splits option.splits)

lemma preserves_bnd [preserve_intros]:
  assumes "preserves f m" and "\<And>x. preserves f (g x)"
  shows "preserves f (bnd m g)"
  unfolding preserves_def bnd_def
proof
  fix w
  obtain r v where m: "m w = (r, v)" by (cases "m w")
  then show "f (w_db (snd (case m w of (Inl e, w') \<Rightarrow> (Inl e, w') | (Inr x, w') \<Rightarrow> g x w'))) = f (w_db w)"
    using assms preservesD [OF assms(1) m] by (cases r) (simp_all add: preserves_def)
qed

lemma preserves_on_error [preserve_intros]:
  assumes "preserves f m" and "\<And>e. preserves f (h e)"
  shows "preserves f (on_error m h)"
  unfolding preserves_def on_error_def
proof
  fix w
  obtain r v where m: "m w = (r, v)" by (cases "m w")
  then show "f (w_db (snd (case m w of (Inl e, w') \<Rightarrow> h e w' | (Inr x, w') \<Rightarrow> (Inr x, w')))) = f (w_db w)"
    using assms preservesD [OF assms(1) m] by (cases r) (simp_all add: preserves_def)
qed

lemma preserves_wrap [preserve_intros]: "preserves f m \<Longrightarrow> preserves f (wrap_error s m)"
  unfolding wrap_error_def by (intro preserve_intros)

lemma preserves_ignore [preserve_intros]: "preserves f m \<Longrightarrow> preserves f (ignore m)"
  unfolding ignore_def by (intro preserve_intros)

lemma preserves_if [preserve_intros]: "preserves f m \<Longrightarrow> preserves f n \<Longrightarrow> preserves f (if b then m else n)"
  by simp

lemma preserves_option [preserve_intros]:
  "preserves f m \<Longrightarrow> (\<And>x. preserves f (g x)) \<Longrightarrow> preserves f (case v of None \<Rightarrow> m | Some x \<Rightarrow> g x)"
  by (cases v) simp_all

lemma preserves_prod [preserve_intros]: "(\<And>x y. preserves f (g x y)) \<Longrightarrow> preserves f (case p of (x, y) \<Rightarrow> g x y)"
  by (cases p) simp

lemma preserves_let [preserve_intros]: "(\<And>x. preserves f (g x)) \<Longrightarrow> preserves f (let x = v in g x)"
  by simp

lemma preserves_change [preserve_intros]: "(\<And>b. f (g b) = f b) \<Longrightarrow> preserves f (change_state g)"
  by (simp add: preserves_def change_state_def)

lemma preserves_disk_op [preserve_intros]:
  "(\<And>b d. f (b\<lparr>bs_disk := d\<rparr>) = f b) \<Longrightarrow> preserves f (on_disk m)"
  by (simp add: preserves_def on_disk_def split: prod.splits)

lemma preserves_disk_keeps: "keeps m \<Longrightarrow> preserves bs_disk (on_disk m)"
  by (auto simp: preserves_def on_disk_def split: prod.splits dest: keepsD)

lemma keeps_on_file:
  assumes "keeps m"
  shows "keeps (on_file m)"
  unfolding keeps_def on_file_def using keepsD [OF assms] by (auto split: prod.splits option.splits)

lemma preserves_vault_keeps [preserve_intros]: "keeps m \<Longrightarrow> preserves bs_disk (on_vault m)"
  by (intro preserves_disk_keeps keeps_on_file)


lemma OpenVault_keeps: "keeps (OpenVault path)"
  unfolding keeps_def
proof
  fix w :: "disk world"
  obtain r w1 where stat: "wrap_error ''open vault: '' os_Stat w = (r, w1)" by (cases "wrap_error ''open vault: '' os_Stat w")
  have w1: "w_db w1 = w_db w"
    by (rule keepsD [where m = "wrap_error ''open vault: '' os_Stat" and w = w, OF _ stat]) (simp add: os_Stat_def effect_intros)
  let ?rest = "\<lambda>path. bnd (openDatabase path) (\<lambda>store.
     bnd (wrap_error ''read vault schema: '' (on_file (query (select_metadata ''schema_version'')))) (\<lambda>version.
     if version \<noteq> schemaVersion
     then fail (Errorf (''unsupported vault schema '' @ go_quote version))
     else bnd (wrap_error ''read vault id: '' (on_file (query (select_metadata ''vault_id'')))) (\<lambda>vaultID.
     ret (store\<lparr>st_vaultID := vaultID\<rparr>))))"
  have run: "OpenVault path w = (case r of Inl e \<Rightarrow> (Inl e, w1)
      | Inr ex \<Rightarrow> if \<not> ex then fail (Wrap ''open vault: '' (Sentinel ''file does not exist'')) w1 else ?rest path w1)"
    unfolding OpenVault_def bnd_def [of "wrap_error ''open vault: '' os_Stat"] stat by (cases r) simp_all
  show "w_db (snd (OpenVault path w)) = w_db w"
  proof (cases "r = Inr True")
    case True
    then have "w_db w \<noteq> None" using stat by (auto simp: os_Stat_def effect_inr)
    then have opened: "w_db (snd (openDatabase path w1)) = w_db w1"
      using w1 by (auto simp: openDatabase_def bnd_def wrap_error_def on_error_def fail_def exec_def driver_def ret_def
          split: prod.splits sum.splits list.splits option.splits)
    have tail: "w_db (snd (bnd (wrap_error ''read vault schema: '' (on_file (query (select_metadata ''schema_version'')))) (\<lambda>version.
        if version \<noteq> schemaVersion then fail (Errorf (''unsupported vault schema '' @ go_quote version))
        else bnd (wrap_error ''read vault id: '' (on_file (query (select_metadata ''vault_id'')))) (\<lambda>vaultID.
        ret (store\<lparr>st_vaultID := vaultID\<rparr>))) v)) = w_db v" for v and store :: Store
    proof -
      have "keeps (bnd (wrap_error ''read vault schema: '' (on_file (query (select_metadata ''schema_version'')))) (\<lambda>version.
        if version \<noteq> schemaVersion then fail (Errorf (''unsupported vault schema '' @ go_quote version))
        else bnd (wrap_error ''read vault id: '' (on_file (query (select_metadata ''vault_id'')))) (\<lambda>vaultID.
        ret (store\<lparr>st_vaultID := vaultID\<rparr>))))"
        by (intro effect_intros keeps_on_file)
      then show ?thesis by (simp add: keeps_def)
    qed
    obtain r2 w2 where o: "openDatabase path w1 = (r2, w2)" by (cases "openDatabase path w1")
    show ?thesis unfolding run using True opened o tail w1
      by (cases r2) (simp_all add: bnd_def [of "openDatabase path"])
  next
    case False
    then show ?thesis unfolding run using w1 by (cases r) (simp_all add: fail_def)
  qed
qed

lemma preserves_getStore [preserve_intros]:
  "preserves bs_conn getStore" "preserves bs_disk getStore" "preserves bs_os getStore"
  unfolding getStore_def
  by (intro preserve_intros preserves_disk_keeps OpenVault_keeps; simp add: set_store_def)+

lemma preserves_status [preserve_intros]:
  "preserves bs_conn Broker_status" "preserves bs_disk Broker_status"
  "preserves bs_conn do_status" "preserves bs_disk do_status"
  unfolding Broker_status_def do_status_def by (intro preserve_intros)+

lemma preserves_power [preserve_intros]:
  "preserves bs_conn (power_Start E)" "preserves bs_disk (power_Start E)" "preserves bs_conn power_Stop" "preserves bs_disk power_Stop"
  by (auto simp: preserves_def power_Start_def power_Stop_def change_state_def Let_def split: prod.splits)

lemma preserves_conn:
  "preserves bs_conn (do_unlock E raw)" "preserves bs_conn do_lock" "preserves bs_conn (do_write_secret E c raw)"
  "preserves bs_conn (do_revoke E raw)" "preserves bs_conn (do_list_secrets E raw)" "preserves bs_conn (do_configure E raw)"
  "preserves bs_conn (do_list_actions E raw)" "preserves bs_conn (do_audit E raw)"
  unfolding do_unlock_def do_lock_def do_write_secret_def do_revoke_def do_list_secrets_def do_configure_def
    do_list_actions_def do_audit_def
  by (intro preserve_intros; simp add: set_store_def)+

subsection \<open>One final response\<close>

definition sent :: "bstate world \<Rightarrow> Response list" where
  "sent w = cn_sent (bs_conn (w_db w))"

text \<open>
  \<open>answers w w'\<close>: the responses that were added are events, followed by one final response, whose value
  can be written.
\<close>

definition answers :: "bstate world \<Rightarrow> bstate world \<Rightarrow> bool" where
  "answers w w' \<longleftrightarrow> cn_faults (bs_conn (w_db w')) = []
     \<and> (\<exists>q r. sent w' = sent w @ q @ [r] \<and> events_only q \<and> rs_final r \<and> rs_event r = [] \<and> response_numbers r)"

lemma send_clean:
  "cn_faults (bs_conn (w_db w)) = [] \<Longrightarrow>
    send r w = (Inr (), w\<lparr>w_db := (w_db w)\<lparr>bs_conn := (bs_conn (w_db w))\<lparr>cn_sent := sent w @ [r]\<rparr>\<rparr>\<rparr>)"
  by (simp add: send_def send_response_def sent_def)

lemma send_error_clean:
  "cn_faults (bs_conn (w_db w)) = [] \<Longrightarrow> send_error err w
    = (Inr (), w\<lparr>w_db := (w_db w)\<lparr>bs_conn := (bs_conn (w_db w))\<lparr>cn_sent := sent w
        @ [zero_Response\<lparr>rs_error := publicError err, rs_final := True\<rparr>]\<rparr>\<rparr>\<rparr>)"
  by (simp add: send_error_def ignore_def bnd_def on_error_def send_clean ret_def)

lemma send_done_clean:
  "cn_faults (bs_conn (w_db w)) = [] \<Longrightarrow> send_done v w
    = (Inr (), w\<lparr>w_db := (w_db w)\<lparr>bs_conn := (bs_conn (w_db w))\<lparr>cn_sent := sent w
        @ [zero_Response\<lparr>rs_ok := True, rs_data := Some v, rs_final := True\<rparr>]\<rparr>\<rparr>\<rparr>)"
  by (simp add: send_done_def ignore_def bnd_def on_error_def send_clean ret_def)

text \<open>The answer of an operation that does not touch the connection.\<close>

definition answer_of :: "jv result \<Rightarrow> Response" where
  "answer_of res = (case res of
      Inl err \<Rightarrow> zero_Response\<lparr>rs_error := publicError err, rs_final := True\<rparr>
    | Inr v \<Rightarrow> zero_Response\<lparr>rs_ok := True, rs_data := Some v, rs_final := True\<rparr>)"

lemma answer_of_simps [simp]:
  "rs_final (answer_of r)" "rs_event (answer_of r) = []" "rs_ok (answer_of r) \<longleftrightarrow> (\<exists>v. r = Inr v)"
  "rs_error (answer_of (Inl e)) = publicError e" "rs_data (answer_of (Inr v)) = Some v"
  by (auto simp: answer_of_def zero_Response_def split: sum.split)

lemma respond_answer:
  assumes "preserves bs_conn m" and "cn_faults (bs_conn (w_db w)) = []" and "m w = (res, v)"
  shows "respond m w = (Inr (), v\<lparr>w_db := (w_db v)\<lparr>bs_conn := (bs_conn (w_db w))\<lparr>cn_sent := sent w @ [answer_of res]\<rparr>\<rparr>\<rparr>)"
proof -
  have "bs_conn (w_db v) = bs_conn (w_db w)" by (rule preservesD [OF assms(1,3)])
  moreover from this have "sent v = sent w" by (simp add: sent_def)
  ultimately show ?thesis
    using assms(2,3) by (cases res) (simp_all add: respond_def send_error_clean send_done_clean answer_of_def)
qed

text \<open>The values of the operations can be written: their numbers are those of \<open>Marshal\<close>.\<close>

definition yields :: "jv bro \<Rightarrow> bool" where
  "yields m \<longleftrightarrow> (\<forall>w v w'. m w = (Inr v, w') \<longrightarrow> numbers_ok v)"

lemma yields_bnd: "(\<And>x. yields (f x)) \<Longrightarrow> yields (bnd m f)"
  unfolding yields_def bnd_def by (auto split: prod.splits sum.splits)

lemma yields_lift: "(\<And>v. r = Inr v \<Longrightarrow> numbers_ok v) \<Longrightarrow> yields (lift r)"
  by (simp add: yields_def lift_def)

lemma numbers_basic [simp]: "numbers_ok (jint i)" "numbers_ok (jtime t)"
  by (rule writable_numbers, simp)+

lemma numbers_strs [simp]: "numbers_ok (strs_json x)" "numbers_ok (strmap_json y)"
  by (auto simp: strs_json_def strmap_json_def list_all_iff split: option.split)

lemma encode_numbers:
  "encode_secret m = Inr v \<Longrightarrow> numbers_ok v" "encode_action a = Inr v \<Longrightarrow> numbers_ok v"
  "encode_event e = Inr v \<Longrightarrow> numbers_ok v" "encode_status t = Inr v \<Longrightarrow> numbers_ok v"
  by (auto simp: encode_secret_def encode_action_def encode_event_def encode_status_def and_then_Inr secret_json_def
      action_json_def audit_json_def status_json_def omitempty_def split: if_splits)

lemma encode_elems_numbers:
  "(\<And>x v. f x = Inr v \<Longrightarrow> numbers_ok v) \<Longrightarrow> encode_elems f xs = Inr vs \<Longrightarrow> list_all numbers_ok vs"
  by (induction xs arbitrary: vs) (auto simp: and_then_Inr)

lemma encode_slice_numbers: "(\<And>x v. f x = Inr v \<Longrightarrow> numbers_ok v) \<Longrightarrow> encode_slice f xs = Inr v \<Longrightarrow> numbers_ok v"
  using encode_elems_numbers [of f xs] by (auto simp: encode_slice_def and_then_Inr split: if_splits)

lemma yields_prod: "(\<And>x y. yields (g x y)) \<Longrightarrow> yields (case p of (x, y) \<Rightarrow> g x y)"
  by (cases p) simp

lemma yields_encode:
  "yields (lift (encode_secret m))" "yields (lift (encode_action a))" "yields (lift (encode_status t))"
  "yields (lift (encode_slice encode_secret ms))" "yields (lift (encode_slice encode_action as))"
  "yields (lift (encode_slice encode_event es))"
  by (rule yields_lift, erule encode_numbers encode_slice_numbers [rotated], (erule encode_numbers)?)+

lemma yields_status: "yields do_status"
  unfolding do_status_def by (intro yields_bnd yields_encode)

lemma yields_operations:
  "yields (do_unlock E raw)" "yields do_lock" "yields (do_write_secret E c raw)"
  "yields (do_revoke E raw)" "yields (do_list_secrets E raw)" "yields (do_configure E raw)"
  "yields (do_list_actions E raw)" "yields (do_audit E raw)"
  unfolding do_unlock_def do_lock_def do_write_secret_def do_revoke_def do_list_secrets_def do_configure_def Let_def
    do_list_actions_def do_audit_def
  by (intro yields_bnd yields_prod yields_status yields_encode)+

lemma respond_answers:
  assumes "preserves bs_conn m" and "yields m" and "cn_faults (bs_conn (w_db w)) = []"
  shows "answers w (snd (respond m w))"
proof -
  obtain res v where m: "m w = (res, v)" by (cases "m w")
  then have "response_numbers (answer_of res)"
    using assms(2) by (auto simp: yields_def response_numbers_def answer_of_def zero_Response_def split: sum.split)
  with respond_answer [OF assms(1,3) m] show ?thesis
    using assms(3) by (auto simp: answers_def sent_def intro!: exI [of _ "[]"])
qed

lemma run_process_events:
  assumes "cn_faults (bs_conn (w_db w)) = []" and "run_process E action vals w = (res, w')"
  shows "\<exists>q x. res = Inr x \<and> w' = w\<lparr>w_db := (w_db w)\<lparr>bs_conn := (bs_conn (w_db w))\<lparr>cn_sent := sent w @ q\<rparr>\<rparr>\<rparr> \<and> events_only q"
proof -
  let ?call = "\<lparr>iv_command = ac_executable action # (case ac_arguments action of None \<Rightarrow> [] | Some args \<Rightarrow> args),
      iv_dir = ac_directory action, iv_env = child_environment (en_environ E) vals\<rparr>"
  have "\<exists>q x. run_child (ac_output_policy action) (en_child E) (en_ctx_err E) ?call (map snd (sort_key fst vals)) (bs_conn (w_db w))
      = (x, (bs_conn (w_db w))\<lparr>cn_sent := sent w @ q\<rparr>) \<and> events_only q"
  proof (cases "ac_output_policy action = ''redacted''")
    case True
    then show ?thesis
      using run_child_redacted [OF assms(1), of ?call "en_child E" "en_ctx_err E" "map snd (sort_key fst vals)"]
      by (auto simp: sent_def)
  next
    case False
    then show ?thesis
      using run_child_silent [OF False, of ?call "en_child E" "en_ctx_err E" "map snd (sort_key fst vals)" "bs_conn (w_db w)"]
      by (intro exI [of _ "[]"]) (simp add: sent_def)
  qed
  then show ?thesis using assms(2) by (auto simp: run_process_def)
qed

text \<open>
  Every effect before the child runs keeps the connection; the child adds events; the end of the run adds
  the final response.
\<close>

lemma bnd_answers:
  assumes "preserves bs_conn m" and "cn_faults (bs_conn (w_db w)) = []" and "bs_conn (w_db u) = bs_conn (w_db w)"
    and "\<And>x v. bs_conn (w_db v) = bs_conn (w_db w) \<Longrightarrow> answers w (snd (on_error (g x) send_error v))"
  shows "answers w (snd (on_error (bnd m g) send_error u))"
proof -
  obtain r v where m: "m u = (r, v)" by (cases "m u")
  have c: "bs_conn (w_db v) = bs_conn (w_db w)" using preservesD [OF assms(1) m] assms(3) by simp
  show ?thesis
  proof (cases r)
    case (Inl e)
    then have "on_error (bnd m g) send_error u = send_error e v" using m by (simp add: on_error_def bnd_def)
    then show ?thesis using assms(2) c by (auto simp: send_error_clean answers_def sent_def zero_Response_def response_numbers_def intro!: exI [of _ "[]"])
  next
    case (Inr x)
    then have "on_error (bnd m g) send_error u = on_error (g x) send_error v" using m by (simp add: on_error_def bnd_def)
    then show ?thesis using assms(4) c by simp
  qed
qed

lemma answers_conn: "bs_conn (w_db v) = bs_conn (w_db w) \<Longrightarrow> answers v u = answers w u"
  by (simp add: answers_def sent_def)

lemma run_tail_answers:
  assumes "cn_faults (bs_conn (w_db w)) = []"
  shows "answers w (snd (on_error (bnd (run_process E action vals) (\<lambda>(exit_code, runErr).
     bnd (ignore (on_vault (RecordAudit P store (run_event action exit_code runErr)))) (\<lambda>_.
     send (run_response action exit_code runErr)))) send_error w))"
proof -
  obtain res v where run: "run_process E action vals w = (res, v)" by (cases "run_process E action vals w")
  obtain q code err where x: "res = Inr (code, err)"
    and v: "v = w\<lparr>w_db := (w_db w)\<lparr>bs_conn := (bs_conn (w_db w))\<lparr>cn_sent := sent w @ q\<rparr>\<rparr>\<rparr>" and q: "events_only q"
    using run_process_events [OF assms run] by auto
  obtain r u where a: "ignore (on_vault (RecordAudit P store (run_event action code err))) v = (r, u)"
    by (cases "ignore (on_vault (RecordAudit P store (run_event action code err))) v")
  have "preserves bs_conn (ignore (on_vault (RecordAudit P store (run_event action code err))))"
    by (intro preserve_intros) simp
  then have u: "bs_conn (w_db u) = bs_conn (w_db v)" using a by (rule preservesD)
  have "r = Inr ()" using a by (auto simp: ignore_def on_error_def bnd_def ret_def split: prod.splits sum.splits)
  then have "on_error (bnd (run_process E action vals) (\<lambda>(exit_code, runErr).
     bnd (ignore (on_vault (RecordAudit P store (run_event action exit_code runErr)))) (\<lambda>_.
     send (run_response action exit_code runErr)))) send_error w = send (run_response action code err) u"
    using run x a u v assms by (simp add: bnd_def on_error_def send_clean)
  then show ?thesis
    using u v q assms by (auto simp: send_clean answers_def sent_def run_response_def zero_Response_def response_numbers_def run_result_json_def)
qed

lemma preserves_conn_vault: "preserves bs_conn (on_vault m)"
  by (intro preserve_intros) simp

lemma do_run_answers:
  assumes "cn_faults (bs_conn (w_db w)) = []"
  shows "answers w (snd (do_run E raw w))"
  unfolding do_run_def runAction_def
proof (rule bnd_answers [OF preserves_base(3) assms refl], rule bnd_answers [OF preserves_getStore(1) assms],
    assumption, rule bnd_answers [OF preserves_conn_vault assms], assumption,
    rule bnd_answers [OF preserves_conn_vault assms], assumption)
  fix store action vals and v :: "bstate world"
  assume c: "bs_conn (w_db v) = bs_conn (w_db w)"
  show "answers w (snd (on_error (bnd (run_process E action vals) (\<lambda>(exit_code, runErr).
     bnd (ignore (on_vault (RecordAudit (en_prims E) store (run_event action exit_code runErr)))) (\<lambda>_.
     send (run_response action exit_code runErr)))) send_error v))"
    using run_tail_answers [of v] assms answers_conn [OF c] c by simp
qed

lemma Handle_answers:
  assumes "cn_faults (bs_conn (w_db w)) = []"
  shows "answers w (snd (Handle E request w))"
proof -
  have err: "answers w (snd (send_error e w))" for e
    using assms by (auto simp: send_error_clean answers_def sent_def zero_Response_def response_numbers_def intro!: exI [of _ "[]"])
  note r = respond_answers [OF _ _ assms]
  show ?thesis
    using err r [OF preserves_status(3) yields_status] r [OF preserves_conn(1) yields_operations(1)]
      r [OF preserves_conn(2) yields_operations(2)] r [OF preserves_conn(3) yields_operations(3)]
      r [OF preserves_conn(4) yields_operations(4)] r [OF preserves_conn(5) yields_operations(5)]
      r [OF preserves_conn(6) yields_operations(6)] r [OF preserves_conn(7) yields_operations(7)]
      r [OF preserves_conn(8) yields_operations(8)] do_run_answers [OF assms]
    unfolding Handle_def Let_def by simp
qed

text \<open>\<open>Handle\<close> has no result of its own, and only a run sends more than one response.\<close>

lemma ignore_Inr: "fst (ignore m w) = Inr ()"
  by (auto simp: ignore_def on_error_def bnd_def ret_def split: prod.splits sum.splits)

lemma send_error_Inr: "fst (send_error e w) = Inr ()" and send_done_Inr: "fst (send_done v w) = Inr ()"
  by (simp_all add: send_error_def send_done_def ignore_Inr)

lemma respond_Inr: "fst (respond m w) = Inr ()"
  by (simp add: respond_def send_error_Inr send_done_Inr split: prod.splits sum.splits)

lemma do_run_Inr: "fst (do_run E raw w) = Inr ()"
  by (auto simp: do_run_def on_error_def send_error_Inr split: prod.splits sum.splits)

lemma Handle_Inr: "fst (Handle E request w) = Inr ()"
  by (simp add: Handle_def Let_def respond_Inr do_run_Inr send_error_Inr)

text \<open>The operation of a request that is answered with one value or one error.\<close>

definition operation :: "setting \<Rightarrow> Request \<Rightarrow> jv bro" where
  "operation E request =
     (let op = rq_operation request; raw = rq_payload request in
      if op = ''status'' then do_status
      else if op = ''unlock'' then do_unlock E raw
      else if op = ''lock'' then do_lock
      else if op = ''secret.create'' \<or> op = ''secret.rotate'' then do_write_secret E (op = ''secret.create'') raw
      else if op = ''secret.revoke'' then do_revoke E raw
      else if op = ''secret.list'' then do_list_secrets E raw
      else if op = ''action.configure'' then do_configure E raw
      else if op = ''action.list'' then do_list_actions E raw
      else if op = ''audit.list'' then do_audit E raw
      else fail (Errorf (''unknown operation '' @ go_quote op)))"

lemma Handle_operation:
  "rq_operation request \<noteq> ''run'' \<Longrightarrow> Handle E request = respond (operation E request)"
  by (rule ext) (simp add: Handle_def operation_def Let_def respond_def fail_def)

lemma preserves_operation: "preserves bs_conn (operation E request)"
  unfolding operation_def Let_def
  by (simp add: preserves_conn preserves_status preserves_base)

lemma Handle_answer:
  assumes "rq_operation request \<noteq> ''run''" and "cn_faults (bs_conn (w_db w)) = []" and "operation E request w = (res, v)"
  shows "Handle E request w
    = (Inr (), v\<lparr>w_db := (w_db v)\<lparr>bs_conn := (bs_conn (w_db w))\<lparr>cn_sent := sent w @ [answer_of res]\<rparr>\<rparr>\<rparr>)"
  unfolding Handle_operation [OF assms(1)] by (rule respond_answer [OF preserves_operation assms(2,3)])

end
