(* ===== verification/VaultCorrect.thy ===== *)
theory VaultCorrect
  imports VaultRefine
begin

section \<open>Correctness of the vault\<close>

text \<open>
  The refinement of the remaining operations (revoking, storing actions, listing and resolving), and
  the properties of the store: every operation is atomic under any fault of the driver, is refused
  while the vault is locked, and acts on the abstract state as it should; what is stored is read back.
\<close>

subsection \<open>Revoking a secret\<close>

lemma history_ok_same:
  assumes "history_ok m h" and "map vr_number h' = map vr_number h" and "sm_version m' = sm_version m"
    and "\<forall>v\<in>set (butlast h'). vr_state v \<noteq> ''active''" and "vr_state (last h') = sm_state m'"
    and "sm_state m' \<in> {''active'', ''revoked''}"
  shows "history_ok m' h'"
proof -
  have "length h' = length h" using assms(2) by (rule map_eq_imp_length_eq)
  then show ?thesis using assms unfolding history_ok_def by (metis length_0_conv)
qed

lemma revoke_inv:
  assumes inv: "vault_inv P k d" and P: "prims_ok P" "keys_ok k"
    and r: "r \<in> set (db_objects d)" "ob_type r = ''secret''" "read_secret P k r = Inr m"
    and m': "ch_meta ch = m'" "sm_id m' = sm_id m" "secret_token P k m' = secret_token P k m"
      "sm_version m' = sm_version m" "sm_state m' = ''revoked''" "secret_ok m'" "marshal_secret m' = Inr js"
    and ch: "ch_revision ch = ob_revision r"
      "sealed P (ks_metadata k) js (objectAAD ''secret'' (sm_id m') (inc64 (ob_revision r))) (ch_sealed_meta ch)"
  shows "vault_inv P k (db_revoke ch d)"
    and "secret_at P k (db_revoke ch d) = (secret_at P k d)(secret_token P k m \<mapsto> (m', None))"
proof -
  let ?d = "db_revoke ch d" and ?at = "stamp (sm_updated_at m')"
  let ?ret = "update_where (\<lambda>v. vr_secret v = sm_id m' \<and> vr_state v = ''active'')
    (\<lambda>v. v\<lparr>vr_state := ''revoked'', vr_retired_at := Some ?at\<rparr>)"
  define Q where "Q = (\<lambda>x :: ObjectRow. ob_id x = sm_id m')"
  define f where "f = (\<lambda>x :: ObjectRow. x\<lparr>ob_nonce := fst (ch_sealed_meta ch), ob_ciphertext := snd (ch_sealed_meta ch),
    ob_revision := inc64 (ch_revision ch), ob_updated_at := ?at\<rparr>)"
  have ok: "secret_row_ok P k (history d (ob_id r)) r m" by (rule secret_row_inv [OF inv r])
  then have i: "sm_id m' = ob_id r" and tok: "ob_lookup r = secret_token P k m" and h: "history_ok m (history d (ob_id r))"
    using m'(2) by (simp_all add: secret_row_ok_def)
  have keys: "length (ks_metadata k) = KeySize" using P(2) by (simp add: keys_ok_def)
  have vers: "db_versions ?d = ?ret (db_versions d)"
    by (simp add: db_revoke_def Let_def m'(1) db_retire_def)
  have hist: "history ?d j = ?ret (history d j)" for j
    unfolding history_def vers history_retire by simp
  have other: "history ?d j = history d j" if "j \<noteq> ob_id r" for j
    using that unfolding hist i by (intro update_where_none) (auto simp: history_def)
  have states: "\<forall>v\<in>set (history ?d (ob_id r)). vr_state v \<noteq> ''active''"
    using history_secret [of d "ob_id r"] unfolding hist i by (intro retire_states) simp_all
  have "history d (ob_id r) = butlast (history d (ob_id r)) @ [last (history d (ob_id r))]"
    using h by (simp add: history_ok_def)
  then obtain hs v where hv: "history d (ob_id r) = hs @ [v]" by blast
  have v: "vr_secret v = ob_id r" using history_secret [of d "ob_id r"] by (simp add: hv)
  have "vr_state (last (?ret hs @ ?ret [v])) = ''revoked''"
    using h by (auto simp: history_ok_def hv v i)
  then have last: "vr_state (last (history ?d (ob_id r))) = sm_state m'"
    unfolding hist hv m'(5) update_where_append .
  have nums: "map vr_number (history ?d (ob_id r)) = map vr_number (history d (ob_id r))"
    unfolding hist by (rule map_update_where) simp
  have "\<forall>v\<in>set (butlast (history ?d (ob_id r))). vr_state v \<noteq> ''active''"
    using states by (blast dest: in_set_butlastD)
  then have "history_ok m' (history ?d (ob_id r))"
    by (rule history_ok_same [OF h nums m'(4) _ last]) (simp add: m'(5))
  moreover have "read_secret P k (f r) = Inr m'"
    using sealed_open [OF P(1) keys ch(2)] unmarshal_marshal_secret [OF m'(6,7)]
    by (simp add: read_secret_def f_def ch(1) i)
  ultimately have row: "secret_row_ok P k (history ?d (ob_id r)) (f r) m'"
    using m'(3,6) i tok by (simp add: secret_row_ok_def f_def)
  have cons: "consistent version_clash (db_versions ?d)"
    using inv unfolding vers by (intro retire_consistent) (simp add: vault_inv_def)
  have vok: "value_ok P k v \<and> vr_secret v \<in> ob_id ` set (db_objects d)" if "v \<in> set (db_versions ?d)" for v
    using inv that unfolding vers by (intro retire_value_ok) (auto simp: vault_inv_def)
  have objs: "db_objects ?d = update_where Q f (db_objects d)"
    by (simp add: db_revoke_def Let_def db_update_def m'(1) Q_def f_def)
  have tables: "db_tables ?d = db_tables d" by (simp add: db_revoke_def Let_def)
  have f: "same_keys f" by (simp add: same_keys_def f_def)
  have Q: "Q r" "\<And>x. x \<in> set (db_objects d) \<Longrightarrow> Q x \<Longrightarrow> ob_id x = ob_id r" by (simp_all add: Q_def i)
  note changed = change_inv [OF inv r(1,2) tables objs f Q other cons vok row]
  show "vault_inv P k ?d" by (rule changed(1))
  have "active_rows ?d (ob_id r) = []" using states by (simp add: active_rows_history filter_empty_conv)
  then have "active_value P k ?d (ob_id r) = None" by (simp add: active_value_def)
  then show "secret_at P k ?d = (secret_at P k d)(secret_token P k m \<mapsto> (m', None))"
    using changed(2) tok by simp
qed

lemma RevokeSecret_refine:
  assumes "prims_ok P" and "st_keys s = Some k" and "keys_ok k" and "vault_inv P k (w_db w)"
    and "valid_time (w_clock w (w_ticks w))" and "RevokeSecret P s scope name w = (Inr m', w')"
  shows "\<exists>m v. secret_at P k (w_db w) (scope_token P k scope name) = Some (m, v)
    \<and> m' = revoked m (w_clock w (w_ticks w)) \<and> vault_inv P k (w_db w')
    \<and> secret_at P k (w_db w') = (secret_at P k (w_db w))(scope_token P k scope name \<mapsto> (m', None))"
proof -
  obtain ch u where prep: "revoke_prepare P k scope name w = (Inr ch, u)"
    and com: "revoke_commit P k ch u = (Inr m', w')"
    using assms(6) by (auto simp: RevokeSecret_def copyKeys_def assms(2) bnd_Inr lift_Inr)
  obtain r m where r: "found P k (w_db w) (scope_token P k scope name) r m"
    "ch_meta ch = revoked m (w_clock w (w_ticks w))" "ch_revision ch = ob_revision r"
    "sealed P (ks_metadata k) (case marshal_secret (ch_meta ch) of Inr b \<Rightarrow> b | Inl _ \<Rightarrow> [])
       (objectAAD ''secret'' (sm_id m) (inc64 (ob_revision r))) (ch_sealed_meta ch)"
    "w_db u = w_db w"
    by (rule revoke_prepare_Inr [OF prep])
  obtain row where c: "m' = ch_meta ch" "w_db w' = (db_revoke ch (w_db w))\<lparr>db_audit := db_audit (w_db w) @ [row]\<rparr>"
    using com unfolding r(5) [symmetric] by (rule revoke_commit_Inr)
  note f = found_at [OF assms(4) r(1)]
  have m': "sm_id m' = sm_id m" "secret_token P k m' = secret_token P k m" "sm_version m' = sm_version m"
    "sm_state m' = ''revoked''"
    by (simp_all add: c(1) r(2) revoked_def secret_token_def)
  have ok: "secret_ok m'"
    using f(3) assms(5) by (simp add: secret_ok_def c(1) r(2) revoked_def) (simp add: ascii_valid_utf8 ascii_def)
  then obtain js where js: "marshal_secret m' = Inr js" by (simp add: marshal_ok)
  have rr: "r \<in> set (db_objects (w_db w))" "ob_type r = ''secret''" "read_secret P k r = Inr m"
    using r(1) by (simp_all add: found_def)
  have "sealed P (ks_metadata k) js (objectAAD ''secret'' (sm_id m') (inc64 (ob_revision r))) (ch_sealed_meta ch)"
    using r(4) js m'(1) by (simp add: c(1))
  then have inv: "vault_inv P k (db_revoke ch (w_db w))"
    "secret_at P k (db_revoke ch (w_db w)) = (secret_at P k (w_db w))(secret_token P k m \<mapsto> (m', None))"
    using revoke_inv [OF assms(4,1,3) rr c(1) [symmetric] m' ok js r(3)] by blast+
  then have "vault_inv P k (w_db w')"
    "secret_at P k (w_db w') = (secret_at P k (w_db w))(scope_token P k scope name \<mapsto> (m', None))"
    using f(2) by (simp_all add: c(2))
  then show ?thesis using f(1) r(2) c(1) by blast
qed

subsection \<open>Storing an action\<close>

definition action_rows :: "database \<Rightarrow> string \<Rightarrow> ObjectRow list" where
  "action_rows d tok = filter (\<lambda>r. ob_type r = ''action'' \<and> ob_lookup r = tok) (db_objects d)"

definition action_at :: "prims \<Rightarrow> keySet \<Rightarrow> database \<Rightarrow> string \<Rightarrow> Action option" where
  "action_at P k d tok = (case action_rows d tok of [] \<Rightarrow> None | r # _ \<Rightarrow> result_option (read_action P k r))"

lemma action_at_audit [simp]: "action_at P k (d\<lparr>db_audit := x\<rparr>) = action_at P k d"
  by (rule ext) (simp add: action_at_def action_rows_def)

lemma action_rows_unique:
  assumes "vault_inv P k d" and "r \<in> set (db_objects d)" and "ob_type r = ''action''"
  shows "action_rows d (ob_lookup r) = [r]"
  unfolding action_rows_def using assms
  by (intro object_table.filter_unique) (auto simp: object_clash_def vault_inv_def)

lemma action_row_inv:
  assumes "vault_inv P k d" and "r \<in> set (db_objects d)" and "ob_type r = ''action''"
  shows "\<exists>a. action_row_ok P k (history d (ob_id r)) r a"
  using assms by (fastforce simp: vault_inv_def object_ok_def)

lemma select_object_none:
  "select_object ty tok d = Inl e \<Longrightarrow> error_is e ErrNoRows \<Longrightarrow>
    filter (\<lambda>r. ob_type r = ty \<and> ob_lookup r = tok) (db_objects d) = []"
  by (auto simp: select_object_def on_table_def first_row_def ErrNoRows_def split: if_splits list.splits)

lemma find_action_Inr:
  assumes "find_action P k tok w = (Inr fnd, w')"
  shows "w_db w' = w_db w \<and> (case fnd of
      None \<Rightarrow> action_rows (w_db w) tok = []
    | Some r \<Rightarrow> r \<in> set (db_objects (w_db w)) \<and> ob_type r = ''action'' \<and> ob_lookup r = tok)"
proof
  show "w_db w' = w_db w" by (rule keepsD [OF keeps_find_action assms])
  consider r where "query (select_object ''action'' tok) w = (Inr r, w')" "fnd = Some r"
    | e v where "query (select_object ''action'' tok) w = (Inl e, v)" "error_is e ErrNoRows" "fnd = None"
    using assms unfolding find_action_def
    by (auto simp: on_error_Inr bnd_Inr ret_Inr bnd_def fail_def ret_def split: sum.splits prod.splits if_splits)
  then show "case fnd of None \<Rightarrow> action_rows (w_db w) tok = []
    | Some r \<Rightarrow> r \<in> set (db_objects (w_db w)) \<and> ob_type r = ''action'' \<and> ob_lookup r = tok"
  proof cases
    case 1
    then show ?thesis using query_Inr_db [OF 1(1)] select_object_Inr by auto
  next
    case 2
    then have "select_object ''action'' tok (w_db w) = Inl e"
      using query_Inl [OF 2(1)] by (auto simp: ErrNoRows_def)
    then show ?thesis using select_object_none [OF _ 2(2)] 2(3) by (simp add: action_rows_def)
  qed
qed

lemma getActionByID_Inr:
  assumes "getActionByID P k (ob_id r) (ob_revision r) w = (Inr (a, rv), w')"
    and "vault_inv P k (w_db w)" and "r \<in> set (db_objects (w_db w))"
  shows "read_action P k r = Inr a \<and> w_db w' = w_db w"
proof -
  obtain x w1 pt where x: "query (select_object_id (ob_id r)) w = (Inr x, w1)"
    and pt: "Open P (ks_metadata k) (ob_nonce x) (ob_ciphertext x) (objectAAD ''action'' (ob_id r) (ob_revision r)) = Inr pt"
    "unmarshal_action pt = Inr a" and "w' = w1"
    using assms(1) by (auto simp: getActionByID_def bnd_Inr lift_Inr ret_Inr)
  have "x \<in> set (db_objects (w_db w))" "ob_id x = ob_id r"
    using query_Inr_db [OF x] by (auto simp: select_object_id_def on_table_Inr dest: first_row_Inr)
  then have "x = r" using row_determined [OF assms(2)] assms(3) by blast
  then show ?thesis using pt query_Inr_db [OF x] \<open>w' = w1\<close> by (simp add: read_action_def)
qed

text \<open>The stored form of an action: its identifier and creation time are those of the row it replaces.\<close>

definition stored_action :: "Action \<Rightarrow> string \<Rightarrow> gotime \<Rightarrow> gotime \<Rightarrow> Action" where
  "stored_action a i since now = a\<lparr>ac_id := i, ac_created_at := since, ac_updated_at := now\<rparr>"

lemma put_prepare_Inr:
  assumes "put_prepare P k a w = (Inr p, w')" and "vault_inv P k (w_db w)"
  obtains i since js where
    "pu_action p = stored_action a i since (w_clock w (w_ticks w))" "pu_lookup p = action_token P k a"
    "marshal_action (pu_action p) = Inr js"
    "sealed P (ks_metadata k) js (objectAAD ''action'' i (inc64 (pu_revision p))) (pu_sealed p)"
    "w_db w' = w_db w"
    "action_rows (w_db w) (action_token P k a) = [] \<and> pu_revision p = 0 \<and> since = w_clock w (w_ticks w)
       \<and> (i = [] \<or> (\<exists>b. length b = 16 \<and> i = format_id b))
     \<or> (\<exists>r c. r \<in> set (db_objects (w_db w)) \<and> ob_type r = ''action'' \<and> ob_lookup r = action_token P k a
         \<and> read_action P k r = Inr c \<and> i = ob_id r \<and> pu_revision p = ob_revision r \<and> since = ac_created_at c)"
proof -
  let ?tok = "action_token P k a" and ?now = "w_clock w (w_ticks w)"
  obtain w1 fnd w2 a1 rv w3 js w4 sl where
    w1: "time_now w = (Inr ?now, w1)" and fnd: "find_action P k ?tok w1 = (Inr fnd, w2)" and
    a1: "action_identity P k a ?now fnd w2 = (Inr (a1, rv), w3)" and
    js: "lift (marshal_action (a1\<lparr>ac_updated_at := ?now\<rparr>)) w3 = (Inr js, w4)" and
    sl: "random (Seal P (ks_metadata k) js (objectAAD ''action'' (ac_id a1) (inc64 rv))) w4 = (Inr sl, w')" and
    p: "p = \<lparr>pu_action = a1\<lparr>ac_updated_at := ?now\<rparr>, pu_lookup = ?tok, pu_revision = rv, pu_sealed = sl\<rparr>"
    using assms(1)
    by (auto simp: put_prepare_def bnd_Inr ret_Inr fail_Inr time_now_Inr Let_def action_token_def split: if_splits)
  have d: "w_db w1 = w_db w" "w_db w' = w_db w"
    using w1 keepsD [OF keeps_put_prepare assms(1)] by (auto simp: time_now_Inr)
  note f = find_action_Inr [OF fnd]
  show thesis
  proof (cases fnd)
    case None
    then obtain i where i: "a1 = a\<lparr>ac_id := i, ac_created_at := ?now\<rparr>" "rv = 0"
      "i = [] \<or> (\<exists>b. length b = 16 \<and> i = format_id b)"
    proof -
      obtain i u where u: "on_error (random randomID) (\<lambda>_. ret []) w2 = (Inr i, u)"
        "a1 = a\<lparr>ac_id := i, ac_created_at := ?now\<rparr>" "rv = 0"
        using a1 None by (auto simp: action_identity_def bnd_Inr ret_Inr)
      have "i = [] \<or> (\<exists>b. length b = 16 \<and> i = format_id b)"
        using u(1) by (auto simp: on_error_Inr ret_Inr random_Inr randomID_Inr
            intro!: exI [of _ "take 16 (w_tape w2)"])
      then show thesis using that u by blast
    qed
    show thesis
      by (rule that [of i ?now js])
        (use i js sealedI [OF sl] f None d in \<open>simp_all add: p stored_action_def lift_Inr\<close>)
  next
    case (Some r)
    then have r: "r \<in> set (db_objects (w_db w2))" "ob_type r = ''action''" "ob_lookup r = ?tok" "w_db w2 = w_db w"
      using f d by auto
    obtain c rv' u where c: "getActionByID P k (ob_id r) (ob_revision r) w2 = (Inr (c, rv'), u)"
      "a1 = a\<lparr>ac_id := ob_id r, ac_created_at := ac_created_at c\<rparr>" "rv = ob_revision r"
      using a1 Some by (auto simp: action_identity_def bnd_Inr ret_Inr split: prod.splits)
    have "read_action P k r = Inr c" using getActionByID_Inr [OF c(1)] assms(2) r by simp
    then show thesis
      by (intro that [of "ob_id r" "ac_created_at c" js])
        (use c r js sealedI [OF sl] d in \<open>simp_all add: p stored_action_def lift_Inr\<close>, blast)
  qed
qed

definition action_input_ok :: "Action \<Rightarrow> bool" where
  "action_input_ok a \<longleftrightarrow> action_ok (a\<lparr>ac_id := [], ac_created_at := zero_time, ac_updated_at := zero_time\<rparr>)"

lemma stored_action_ok:
  "action_input_ok a \<Longrightarrow> valid_utf8 i \<Longrightarrow> valid_time since \<Longrightarrow> valid_time now \<Longrightarrow> action_ok (stored_action a i since now)"
  by (simp add: action_input_ok_def action_ok_def stored_action_def)

lemma stored_action_simps [simp]:
  "ac_id (stored_action a i since now) = i" "action_token P k (stored_action a i since now) = action_token P k a"
  by (simp_all add: stored_action_def action_token_def)

lemma secret_at_action_insert:
  assumes "ob_type obj = ''action''"
  shows "secret_at P k (db_insert obj d) = secret_at P k d"
proof
  fix tok
  show "secret_at P k (db_insert obj d) tok = secret_at P k d tok"
    using assms by (intro secret_at_cong) (simp_all add: secret_rows_def)
qed

lemma put_insert:
  fixes P :: prims and k :: keySet and a' sl at
  defines "obj \<equiv> object_row (ac_id a') ''action'' (action_token P k a') sl at"
  assumes inv: "vault_inv P k d" and P: "prims_ok P" "keys_ok k" and a': "action_ok a'" "marshal_action a' = Inr js"
    and sl: "sealed P (ks_metadata k) js (objectAAD ''action'' (ac_id a') 1) sl"
    and fresh: "\<forall>x\<in>set (db_objects d). \<not> object_clash obj x"
  shows "vault_inv P k (db_insert obj d)"
    and "action_at P k (db_insert obj d) = (action_at P k d)(action_token P k a' \<mapsto> a')"
proof -
  have keys: "length (ks_metadata k) = KeySize" using P(2) by (simp add: keys_ok_def)
  have obj: "ob_id obj = ac_id a'" "ob_type obj = ''action''" "ob_lookup obj = action_token P k a'" "ob_revision obj = 1"
    by (simp_all add: obj_def object_row_def)
  have fresh_id: "ac_id a' \<notin> ob_id ` set (db_objects d)" using fresh by (auto simp: object_clash_def obj)
  have read: "read_action P k obj = Inr a'"
    using sealed_open [OF P(1) keys sl] unmarshal_marshal_action [OF a']
    by (simp add: read_action_def obj) (simp add: obj_def object_row_def)
  have "action_row_ok P k (history d (ac_id a')) obj a'"
    using read a'(1) history_none [OF inv fresh_id] by (simp add: action_row_ok_def obj)
  then have "object_ok P k (history d (ob_id obj)) obj" by (auto simp: object_ok_def obj)
  moreover have "consistent object_clash (db_objects d @ [obj])"
    using inv fresh object_table.insert_consistent [of "''''" obj "db_objects d"] by (simp add: insert_row_Inr vault_inv_def)
  ultimately show "vault_inv P k (db_insert obj d)" using inv by (simp add: vault_inv_def)
  have rows: "action_rows d (action_token P k a') = []"
    using fresh by (auto simp: action_rows_def filter_empty_conv object_clash_def obj)
  have "action_rows (db_insert obj d) tok = action_rows d tok @ (if tok = action_token P k a' then [obj] else [])" for tok
    by (simp add: action_rows_def obj)
  then show "action_at P k (db_insert obj d) = (action_at P k d)(action_token P k a' \<mapsto> a')"
    by (intro ext) (simp add: action_at_def rows read result_option_def)
qed

lemma put_update:
  fixes at :: string
  assumes inv: "vault_inv P k d" and P: "prims_ok P" "keys_ok k"
    and r: "r \<in> set (db_objects d)" "ob_type r = ''action''" and rv: "1 \<le> rv" "rv < 9223372036854775807"
    and a': "action_ok a'" "marshal_action a' = Inr js" "ac_id a' = ob_id r" "action_token P k a' = ob_lookup r"
    and sl: "sealed P (ks_metadata k) js (objectAAD ''action'' (ac_id a') (inc64 rv)) sl"
  defines "d' \<equiv> db_update (\<lambda>x. ob_id x = ac_id a') sl (inc64 rv) at d"
  shows "vault_inv P k d'" and "secret_at P k d' = secret_at P k d"
    and "action_at P k d' = (action_at P k d)(ob_lookup r \<mapsto> a')"
proof -
  define Q where "Q = (\<lambda>x :: ObjectRow. ob_id x = ac_id a')"
  define f where "f = (\<lambda>x :: ObjectRow. x\<lparr>ob_nonce := fst sl, ob_ciphertext := snd sl,
    ob_revision := inc64 rv, ob_updated_at := at\<rparr>)"
  have keys: "length (ks_metadata k) = KeySize" using P(2) by (simp add: keys_ok_def)
  obtain c where c: "action_row_ok P k (history d (ob_id r)) r c" using action_row_inv [OF inv r(1,2)] by blast
  have objs: "db_objects d' = update_where Q f (db_objects d)" by (simp add: d'_def db_update_def Q_def f_def)
  have tables: "db_tables d' = db_tables d" and vers: "db_versions d' = db_versions d" by (simp_all add: d'_def)
  have hist: "history d' i = history d i" for i by (simp add: history_def vers)
  have f: "same_keys f" by (simp add: same_keys_def f_def)
  have Q: "Q r" "\<And>x. x \<in> set (db_objects d) \<Longrightarrow> Q x \<Longrightarrow> ob_id x = ob_id r" by (simp_all add: Q_def a'(3))
  have only: "x = r" if "x \<in> set (db_objects d)" "Q x" for x
    using row_determined [OF inv that(1) r(1)] Q(2) [OF that] by simp
  have read: "read_action P k (f r) = Inr a'"
    using sealed_open [OF P(1) keys sl] unmarshal_marshal_action [OF a'(1,2)]
    by (simp add: read_action_def f_def a'(3))
  have "action_row_ok P k (history d' (ob_id r)) (f r) a'"
    using c read a' rv f by (simp add: action_row_ok_def hist same_keys_def) (simp add: f_def inc64_def)
  then have ok: "object_ok P k (history d' (ob_id r)) (f r)"
    using f r(2) by (auto simp: object_ok_def same_keys_def)
  show "vault_inv P k d'"
    by (rule change_row [OF inv r(1) tables objs f Q _ _ _ ok]) (use inv in \<open>auto simp: hist vers vault_inv_def\<close>)
  have "secret_rows d' tok = secret_rows d tok" for tok
    unfolding secret_rows_def objs by (rule filter_update_other) (use only f r(2) in \<open>auto simp: same_keys_def\<close>)
  then show "secret_at P k d' = secret_at P k d"
    by (intro ext secret_at_cong active_value_history hist)
  have rows: "action_rows d' tok = update_where Q f (action_rows d tok)" for tok
    using f unfolding action_rows_def objs by (intro filter_update_where) (simp add: same_keys_def)
  show "action_at P k d' = (action_at P k d)(ob_lookup r \<mapsto> a')"
  proof
    fix tok
    show "action_at P k d' tok = ((action_at P k d)(ob_lookup r \<mapsto> a')) tok"
    proof (cases "tok = ob_lookup r")
      case True
      then show ?thesis using rows [of tok] action_rows_unique [OF inv r(1,2)] Q(1) read
        by (simp add: action_at_def result_option_def)
    next
      case False
      have "action_rows d' tok = action_rows d tok"
        unfolding rows using only False by (intro update_where_none) (auto simp: action_rows_def)
      then show ?thesis using False by (simp add: action_at_def)
    qed
  qed
qed

text \<open>
  What a prepared action relies on in the current database, which may have changed since: nothing but the row
  of its name, if there was one. Rows are never deleted and keep their identifier, type and name.
\<close>

definition put_fits :: "prims \<Rightarrow> keySet \<Rightarrow> put \<Rightarrow> database \<Rightarrow> bool" where
  "put_fits P k p d \<longleftrightarrow> action_ok (pu_action p) \<and> pu_lookup p = action_token P k (pu_action p)
     \<and> (\<exists>js. marshal_action (pu_action p) = Inr js
          \<and> sealed P (ks_metadata k) js (objectAAD ''action'' (ac_id (pu_action p)) (inc64 (pu_revision p))) (pu_sealed p))
     \<and> (pu_revision p = 0 \<or> 1 \<le> pu_revision p \<and> pu_revision p < 9223372036854775807
          \<and> (\<exists>r\<in>set (db_objects d). ob_id r = ac_id (pu_action p) \<and> ob_type r = ''action'' \<and> ob_lookup r = pu_lookup p))"

lemma put_prepare_fits:
  assumes "vault_inv P k (w_db w)" and "roomy (w_db w)" and "action_input_ok a" and "valid_time (w_clock w (w_ticks w))"
    and "put_prepare P k a w = (Inr p, w')"
  shows "put_fits P k p (w_db w')"
    and "\<exists>i since. pu_action p = stored_action a i since (w_clock w (w_ticks w))
      \<and> (case action_at P k (w_db w) (action_token P k a) of
           None \<Rightarrow> since = w_clock w (w_ticks w)
         | Some c \<Rightarrow> i = ac_id c \<and> since = ac_created_at c)"
proof -
  let ?now = "w_clock w (w_ticks w)" and ?tok = "action_token P k a" and ?d = "w_db w"
  obtain i since js where p: "pu_action p = stored_action a i since ?now" "pu_lookup p = ?tok"
    "marshal_action (pu_action p) = Inr js"
    "sealed P (ks_metadata k) js (objectAAD ''action'' i (inc64 (pu_revision p))) (pu_sealed p)" "w_db w' = ?d" and
    how: "action_rows ?d ?tok = [] \<and> pu_revision p = 0 \<and> since = ?now
       \<and> (i = [] \<or> (\<exists>b. length b = 16 \<and> i = format_id b))
     \<or> (\<exists>r c. r \<in> set (db_objects ?d) \<and> ob_type r = ''action'' \<and> ob_lookup r = ?tok
         \<and> read_action P k r = Inr c \<and> i = ob_id r \<and> pu_revision p = ob_revision r \<and> since = ac_created_at c)"
    by (rule put_prepare_Inr [OF assms(5,1)])
  from how consider
      (new) "action_rows ?d ?tok = []" "pu_revision p = 0" "since = ?now" "i = [] \<or> (\<exists>b. length b = 16 \<and> i = format_id b)"
    | (old) r c where "r \<in> set (db_objects ?d)" "ob_type r = ''action''" "ob_lookup r = ?tok" "read_action P k r = Inr c"
        "i = ob_id r" "pu_revision p = ob_revision r" "since = ac_created_at c"
    by blast
  then have "put_fits P k p (w_db w') \<and> (case action_at P k ?d ?tok of
      None \<Rightarrow> since = ?now | Some c \<Rightarrow> i = ac_id c \<and> since = ac_created_at c)"
  proof cases
    case new
    have "valid_utf8 i" using new(4) by auto
    then have "action_ok (pu_action p)" unfolding p(1) using assms(3,4) new(3) by (intro stored_action_ok) simp_all
    then show ?thesis using p new by (simp add: put_fits_def action_at_def)
  next
    case old
    obtain b where "action_row_ok P k (history ?d (ob_id r)) r b" using action_row_inv [OF assms(1) old(1,2)] by blast
    then have c: "action_ok c" "ac_id c = ob_id r" "1 \<le> ob_revision r" using old(4) by (auto simp: action_row_ok_def)
    have "action_ok (pu_action p)"
      unfolding p(1) using assms(3,4) c old(5,7) by (intro stored_action_ok) (simp_all add: action_ok_def)
    moreover have "ob_revision r < 9223372036854775807" using assms(2) old(1) by (simp add: roomy_def)
    moreover have "action_at P k ?d ?tok = Some c"
      using action_rows_unique [OF assms(1) old(1,2)] old(3,4) by (simp add: action_at_def result_option_def)
    ultimately show ?thesis using p old c by (auto simp: put_fits_def intro!: bexI [of _ r])
  qed
  then show "put_fits P k p (w_db w')" and "\<exists>i since. pu_action p = stored_action a i since ?now
      \<and> (case action_at P k ?d ?tok of None \<Rightarrow> since = ?now | Some c \<Rightarrow> i = ac_id c \<and> since = ac_created_at c)"
    using p(1) by blast+
qed

text \<open>A commit that succeeds stores the action in what the database holds now.\<close>

lemma put_commit_current:
  assumes "prims_ok P" and "keys_ok k" and "vault_inv P k (w_db w)" and "put_fits P k p (w_db w)"
    and "put_commit P k p w = (Inr a', w')"
  shows "a' = pu_action p \<and> vault_inv P k (w_db w') \<and> secret_at P k (w_db w') = secret_at P k (w_db w)
    \<and> action_at P k (w_db w') = (action_at P k (w_db w))(action_token P k a' \<mapsto> a')"
    and "\<exists>row. w_db w' = (db_put p (w_db w))\<lparr>db_audit := row\<rparr>"
proof -
  let ?d = "w_db w"
  obtain row where c: "a' = pu_action p"
    "pu_revision p = 0 \<longrightarrow> (\<forall>x\<in>set (db_objects ?d). \<not> object_clash (object_row (ac_id (pu_action p)) ''action''
        (pu_lookup p) (pu_sealed p) (stamp (ac_updated_at (pu_action p)))) x)"
    "w_db w' = (db_put p ?d)\<lparr>db_audit := db_audit ?d @ [row]\<rparr>"
    using assms(5) by (rule put_commit_Inr)
  then show "\<exists>row. w_db w' = (db_put p ?d)\<lparr>db_audit := row\<rparr>" by blast
  obtain js where f: "action_ok a'" "pu_lookup p = action_token P k a'" "marshal_action a' = Inr js"
    "sealed P (ks_metadata k) js (objectAAD ''action'' (ac_id a') (inc64 (pu_revision p))) (pu_sealed p)"
    using assms(4) unfolding put_fits_def c(1) by blast
  have "vault_inv P k (db_put p ?d) \<and> secret_at P k (db_put p ?d) = secret_at P k ?d
      \<and> action_at P k (db_put p ?d) = (action_at P k ?d)(action_token P k a' \<mapsto> a')"
  proof (cases "pu_revision p = 0")
    case True
    then have "sealed P (ks_metadata k) js (objectAAD ''action'' (ac_id a') 1) (pu_sealed p)" using f(4) by (simp add: inc64_def)
    note ins = put_insert [OF assms(3,1,2) f(1,3) this]
    have d': "db_put p ?d = db_insert (object_row (ac_id a') ''action'' (action_token P k a') (pu_sealed p)
        (stamp (ac_updated_at a'))) ?d"
      using True f(2) by (simp add: db_put_def Let_def c(1))
    have "secret_at P k (db_put p ?d) = secret_at P k ?d"
      unfolding d' by (rule secret_at_action_insert) (simp add: object_row_def)
    then show ?thesis unfolding d' using ins c(2) True f(2) by (simp add: c(1))
  next
    case False
    then obtain r where r: "r \<in> set (db_objects ?d)" "ob_type r = ''action''" "ob_id r = ac_id a'" "ob_lookup r = pu_lookup p"
      and rv: "1 \<le> pu_revision p" "pu_revision p < 9223372036854775807"
      using assms(4) unfolding put_fits_def c(1) by blast
    have d': "db_put p ?d = db_update (\<lambda>x. ob_id x = ac_id a') (pu_sealed p) (inc64 (pu_revision p)) (stamp (ac_updated_at a')) ?d"
      using False by (simp add: db_put_def Let_def c(1))
    show ?thesis unfolding d' using put_update [OF assms(3,1,2) r(1,2) rv f(1,3) _ _ f(4)] r(3,4) f(2) by simp
  qed
  then show "a' = pu_action p \<and> vault_inv P k (w_db w') \<and> secret_at P k (w_db w') = secret_at P k ?d
    \<and> action_at P k (w_db w') = (action_at P k ?d)(action_token P k a' \<mapsto> a')"
    using c(1,3) by simp
qed

lemma PutAction_refine:
  assumes "prims_ok P" and "st_keys s = Some k" and "keys_ok k" and "vault_inv P k (w_db w)" and "roomy (w_db w)"
    and "action_input_ok a" and "valid_time (w_clock w (w_ticks w))" and "PutAction P s a w = (Inr a', w')"
  shows "\<exists>i since. a' = stored_action a i since (w_clock w (w_ticks w))
    \<and> (case action_at P k (w_db w) (action_token P k a) of
         None \<Rightarrow> since = w_clock w (w_ticks w)
       | Some c \<Rightarrow> i = ac_id c \<and> since = ac_created_at c)
    \<and> vault_inv P k (w_db w') \<and> secret_at P k (w_db w') = secret_at P k (w_db w)
    \<and> action_at P k (w_db w') = (action_at P k (w_db w))(action_token P k a \<mapsto> a')"
proof -
  obtain p u where prep: "put_prepare P k a w = (Inr p, u)" and com: "put_commit P k p u = (Inr a', w')"
    using assms(8) by (auto simp: PutAction_def copyKeys_def assms(2) bnd_Inr lift_Inr)
  have d: "w_db u = w_db w" by (rule keepsD [OF keeps_put_prepare prep])
  note fits = put_prepare_fits [OF assms(4-7) prep]
  note cur = put_commit_current(1) [OF assms(1,3) _ fits(1) com]
  obtain i since where "pu_action p = stored_action a i since (w_clock w (w_ticks w))"
    "case action_at P k (w_db w) (action_token P k a) of
       None \<Rightarrow> since = w_clock w (w_ticks w) | Some c \<Rightarrow> i = ac_id c \<and> since = ac_created_at c"
    using fits(2) by blast
  then show ?thesis using cur assms(4) by (intro exI [of _ i] exI [of _ since]) (simp add: d)
qed

subsection \<open>Reading\<close>

lemma inv_tables: "vault_inv P k d \<Longrightarrow> t \<in> set schema \<Longrightarrow> t \<in> set (db_tables d)"
  by (auto simp: vault_inv_def)

lemma select_object_inv:
  assumes "vault_inv P k d"
  shows "select_object ''secret'' tok d = (case secret_rows d tok of [] \<Rightarrow> Inl ErrNoRows | r # _ \<Rightarrow> Inr r)"
    and "select_object ''action'' tok d = (case action_rows d tok of [] \<Rightarrow> Inl ErrNoRows | r # _ \<Rightarrow> Inr r)"
  using inv_tables [OF assms, of "''encrypted_objects''"]
  by (simp_all add: select_object_def on_table_def first_row_def secret_rows_def action_rows_def schema_def)

text \<open>What resolving one name gives in the abstract state.\<close>

definition resolved :: "prims \<Rightarrow> keySet \<Rightarrow> database \<Rightarrow> Scope \<Rightarrow> string \<Rightarrow> bytes result" where
  "resolved P k d scope name =
     (case secret_at P k d (scope_token P k scope name) of
        None \<Rightarrow> Inl (Wrap (''secret '' @ name @ '': '') ErrNotFound)
      | Some (m, None) \<Rightarrow> Inl (Wrap (''active version for '' @ name @ '': '') ErrNoRows)
      | Some (m, Some val) \<Rightarrow> Inr val)"

lemma active_row_value_ok:
  assumes "vault_inv P k d" and "latest vr_number (active_rows d i) = Inr v"
  shows "\<exists>val. open_value P k i v = Inr val"
proof -
  have "v \<in> set (active_rows d i)" using latest_Inr_max [OF assms(2)] by blast
  then have "v \<in> set (db_versions d)" "vr_secret v = i" by (simp_all add: active_rows_def)
  then show ?thesis using assms(1) by (auto simp: vault_inv_def value_ok_def open_value_def)
qed

lemma resolve_one_spec:
  assumes "vault_inv P k (w_db w)" and "w_faults w = []"
  shows "resolve_one P k scope name w = (resolved P k (w_db w) scope name, w)"
proof (cases "secret_rows (w_db w) (scope_token P k scope name)")
  case Nil
  then have "secret_at P k (w_db w) (scope_token P k scope name) = None" by (simp add: secret_at_def)
  then show ?thesis
    using Nil by (simp add: resolve_one_def bnd_def on_error_def query_clean [OF assms(2)] select_object_inv [OF assms(1)]
        fail_def resolved_def ErrNoRows_def)
next
  case (Cons r rs)
  then have r: "r \<in> set (db_objects (w_db w))" "ob_type r = ''secret''"
    by (auto simp: secret_rows_def dest: filter_head)
  then obtain m where m: "read_secret P k r = Inr m"
    using assms(1) by (fastforce simp: vault_inv_def object_ok_def secret_row_ok_def)
  have at: "secret_at P k (w_db w) (scope_token P k scope name) = Some (m, active_value P k (w_db w) (ob_id r))"
    using Cons m by (simp add: secret_at_def)
  have step: "resolve_one P k scope name w =
      bnd (wrap_error (''active version for '' @ name @ '': '') (query (select_active (ob_id r)))) (\<lambda>v.
      wrap_error (''decrypt secret '' @ name @ '': '') (lift (open_value P k (ob_id r) v))) w"
    using Cons by (simp add: resolve_one_def bnd_def on_error_def query_clean [OF assms(2)] select_object_inv [OF assms(1)]
        open_value_def)
  have sel: "select_active (ob_id r) (w_db w) = latest vr_number (active_rows (w_db w) (ob_id r))"
    using inv_tables [OF assms(1), of "''secret_versions''"]
    by (simp add: select_active_def on_table_def active_rows_def schema_def)
  show ?thesis
  proof (cases "latest vr_number (active_rows (w_db w) (ob_id r))")
    case (Inl e)
    then have "e = ErrNoRows" by (simp add: latest_Inl)
    then show ?thesis using Inl unfolding step
      by (simp add: bnd_def wrap_error_def on_error_def query_clean [OF assms(2)] sel fail_def resolved_def at active_value_def)
  next
    case (Inr v)
    then obtain val where "open_value P k (ob_id r) v = Inr val" using active_row_value_ok [OF assms(1)] by blast
    then show ?thesis using Inr unfolding step
      by (simp add: bnd_def wrap_error_def on_error_def query_clean [OF assms(2)] sel lift_def resolved_def at
          active_value_def result_option_def)
  qed
qed

fun collect :: "('a \<Rightarrow> 'b result) \<Rightarrow> ('c \<times> 'a) list \<Rightarrow> ('c \<times> 'b) list result" where
  "collect f [] = Inr []"
| "collect f ((e, n) # ms) = and_then (f n) (\<lambda>v. and_then (collect f ms) (\<lambda>rs. Inr ((e, v) # rs)))"

lemma collect_Inr: "collect f ms = Inr rs \<longleftrightarrow> list_all2 (\<lambda>(e, n) (e', v). e' = e \<and> f n = Inr v) ms rs"
  by (induction ms arbitrary: rs) (auto simp: and_then_Inr list_all2_Cons1)

lemma ResolveSecrets_spec:
  assumes "vault_inv P k (w_db w)" and "w_faults w = []" and "st_keys s = Some k"
  shows "ResolveSecrets P s scope ms w = (collect (resolved P k (w_db w) scope) ms, w)"
proof -
  have "resolve_all P k scope ms w = (collect (resolved P k (w_db w) scope) ms, w)"
  proof (induction ms)
    case (Cons p ms)
    obtain e n where p: "p = (e, n)" by (cases p)
    show ?case using Cons
      by (simp add: p bnd_def resolve_one_spec [OF assms(1,2)] ret_def and_then_def split: sum.split)
  qed (simp add: ret_def)
  then show ?thesis by (simp add: ResolveSecrets_def copyKeys_def assms(3) bnd_def lift_def)
qed

lemma GetAction_spec:
  assumes "vault_inv P k (w_db w)" and "w_faults w = []" and "st_keys s = Some k"
  shows "GetAction P s scope name w =
    (case action_at P k (w_db w) (actionLookup P (ks_lookup k) (sc_project scope) (sc_environment scope) name) of
       None \<Rightarrow> Inl ErrNotFound | Some a \<Rightarrow> Inr a, w)"
proof (cases "action_rows (w_db w) (actionLookup P (ks_lookup k) (sc_project scope) (sc_environment scope) name)")
  case Nil
  then show ?thesis
    by (simp add: GetAction_def copyKeys_def assms(3) bnd_def lift_def on_error_def query_clean [OF assms(2)]
        select_object_inv [OF assms(1)] fail_def not_found_def ErrNoRows_def action_at_def)
next
  case (Cons r rs)
  then have r: "r \<in> set (db_objects (w_db w))" "ob_type r = ''action''"
    by (auto simp: action_rows_def dest: filter_head)
  then obtain a where a: "read_action P k r = Inr a"
    using action_row_inv [OF assms(1) r] by (auto simp: action_row_ok_def)
  have "filter (\<lambda>x. ob_id x = ob_id r) (db_objects (w_db w)) = [r]"
    using assms(1) r(1) by (intro object_table.filter_unique) (auto simp: vault_inv_def object_clash_def)
  then have "select_object_id (ob_id r) (w_db w) = Inr r"
    using inv_tables [OF assms(1), of "''encrypted_objects''"]
    by (simp add: select_object_id_def on_table_def first_row_def schema_def)
  moreover obtain pt where "Open P (ks_metadata k) (ob_nonce r) (ob_ciphertext r) (objectAAD ''action'' (ob_id r) (ob_revision r)) = Inr pt"
    "unmarshal_action pt = Inr a"
    using a by (auto simp: read_action_def and_then_Inr)
  ultimately show ?thesis using Cons a
    by (simp add: GetAction_def copyKeys_def assms(3) bnd_def lift_def on_error_def query_clean [OF assms(2)]
        select_object_inv [OF assms(1)] getActionByID_def ret_def action_at_def result_option_def)
qed

lemma read_rows_spec:
  "(\<And>r. r \<in> set rows \<Longrightarrow> \<exists>m. read_secret P k r = Inr m) \<Longrightarrow>
   read_rows P k scope rows = Inr (filter (\<lambda>m. sm_project m = sc_project scope \<and> sm_environment m = sc_environment scope)
     (map (\<lambda>r. projr (read_secret P k r)) rows))"
proof (induction rows)
  case (Cons r rs)
  then obtain m where m: "read_secret P k r = Inr m" by auto
  then obtain pt where "Open P (ks_metadata k) (ob_nonce r) (ob_ciphertext r) (objectAAD ''secret'' (ob_id r) (ob_revision r)) = Inr pt"
    "unmarshal_secret pt = Inr m"
    by (auto simp: read_secret_def and_then_Inr)
  with m Cons show ?case by simp
qed simp

lemma distinct_ids: "consistent object_clash rows \<Longrightarrow> distinct (map ob_id rows)"
  by (induction rows) (auto simp: consistent_def object_clash_def)

lemma secret_row_read:
  "vault_inv P k d \<Longrightarrow> r \<in> set (db_objects d) \<Longrightarrow> ob_type r = ''secret'' \<Longrightarrow>
    \<exists>m. read_secret P k r = Inr m \<and> sm_id m = ob_id r"
  by (fastforce simp: vault_inv_def object_ok_def secret_row_ok_def)

lemma secret_at_iff:
  assumes "vault_inv P k d"
  shows "(\<exists>tok v. secret_at P k d tok = Some (m, v)) \<longleftrightarrow>
    (\<exists>r\<in>set (db_objects d). ob_type r = ''secret'' \<and> read_secret P k r = Inr m)"
proof
  assume "\<exists>tok v. secret_at P k d tok = Some (m, v)"
  then obtain tok v where at: "secret_at P k d tok = Some (m, v)" by blast
  then obtain r rs where "secret_rows d tok = r # rs" "read_secret P k r = Inr m"
    by (auto simp: secret_at_def split: list.splits sum.splits)
  then show "\<exists>r\<in>set (db_objects d). ob_type r = ''secret'' \<and> read_secret P k r = Inr m"
    using filter_head [of _ "db_objects d" r rs] by (auto simp: secret_rows_def)
next
  assume "\<exists>r\<in>set (db_objects d). ob_type r = ''secret'' \<and> read_secret P k r = Inr m"
  then show "\<exists>tok v. secret_at P k d tok = Some (m, v)" using secret_at_row [OF assms] by blast
qed

lemma ListSecrets_spec:
  assumes "vault_inv P k (w_db w)" and "w_faults w = []" and "st_keys s = Some k"
  shows "\<exists>ms. ListSecrets P s scope w = (Inr ms, w) \<and> sorted (map sm_name ms) \<and> distinct ms
    \<and> set ms = {m. sm_project m = sc_project scope \<and> sm_environment m = sc_environment scope
        \<and> (\<exists>tok v. secret_at P k (w_db w) tok = Some (m, v))}"
proof -
  define rows where "rows = filter (\<lambda>r. ob_type r = ''secret'') (db_objects (w_db w))"
  define metas where "metas = map (\<lambda>r. projr (read_secret P k r)) rows"
  define here where "here = filter (\<lambda>m. sm_project m = sc_project scope \<and> sm_environment m = sc_environment scope) metas"
  have rd: "\<exists>m. read_secret P k r = Inr m \<and> sm_id m = ob_id r" if "r \<in> set rows" for r
    using secret_row_read [OF assms(1)] that by (simp add: rows_def)
  then have "read_rows P k scope rows = Inr here" unfolding here_def metas_def by (intro read_rows_spec) blast
  moreover have "select_objects ''secret'' (w_db w) = Inr rows"
    using inv_tables [OF assms(1), of "''encrypted_objects''"] by (simp add: select_objects_def on_table_def rows_def schema_def)
  ultimately have "ListSecrets P s scope w = (Inr (sort_key sm_name here), w)"
    by (simp add: ListSecrets_def copyKeys_def assms(2,3) run)
  moreover have "sorted (map sm_name (sort_key sm_name here))" by simp
  moreover have "map sm_id metas = map ob_id rows" using rd by (fastforce simp: metas_def)
  then have "distinct metas"
    using distinct_ids [of rows] assms(1)
    by (metis consistent_def distinct_map rows_def sorted_wrt_filter vault_inv_def)
  then have "distinct (sort_key sm_name here)" by (simp add: here_def)
  moreover have "m \<in> set metas \<longleftrightarrow> (\<exists>tok v. secret_at P k (w_db w) tok = Some (m, v))" for m
    unfolding secret_at_iff [OF assms(1)] metas_def rows_def
    using secret_row_read [OF assms(1)] by (fastforce simp: image_iff)
  then have "set (sort_key sm_name here) = {m. sm_project m = sc_project scope \<and> sm_environment m = sc_environment scope
        \<and> (\<exists>tok v. secret_at P k (w_db w) tok = Some (m, v))}"
    by (auto simp: here_def)
  ultimately show ?thesis by blast
qed

end
