(* ===== verification/VaultLive.thy ===== *)
theory VaultLive
  imports VaultCorrect
begin

section \<open>The operations of the vault succeed\<close>

text \<open>
  On a vault that satisfies the invariant, when the driver reports no fault, the random source
  delivers and its identifiers are new, the operations on secrets return a result: creating a name
  that is free, rotating and revoking a name that exists.
\<close>

text \<open>The identifier that the random source gives from its \<open>n\<close>-th byte on.\<close>

definition drawn :: "'db world \<Rightarrow> nat \<Rightarrow> string" where
  "drawn w n = format_id (take 16 (drop n (w_tape w)))"

definition at_offset :: "database world \<Rightarrow> nat \<Rightarrow> nat \<Rightarrow> database \<Rightarrow> database world" where
  "at_offset w n t d = w\<lparr>w_tape := drop n (w_tape w), w_ticks := w_ticks w + t, w_db := d\<rparr>"

lemma at_offset_simps [simp]:
  "w_tape (at_offset w n t d) = drop n (w_tape w)" "w_clock (at_offset w n t d) = w_clock w"
  "w_ticks (at_offset w n t d) = w_ticks w + t" "w_faults (at_offset w n t d) = w_faults w"
  "w_db (at_offset w n t d) = d" "(at_offset w n t d)\<lparr>w_db := d'\<rparr> = at_offset w n t d'"
  "at_offset w 0 0 (w_db w) = w"
  by (simp_all add: at_offset_def)

lemma at_offset_random:
  "f (drop n (w_tape w)) = (Inr x, drop m (drop n (w_tape w))) \<Longrightarrow>
    random f (at_offset w n t d) = (Inr x, at_offset w (m + n) t d)"
  by (simp add: random_def at_offset_def)

lemma at_offset_time: "time_now (at_offset w n t d) = (Inr (w_clock w (w_ticks w + t)), at_offset w n (Suc t) d)"
  by (simp add: time_now_def at_offset_def)

lemma Seal_run:
  "prims_ok P \<Longrightarrow> length key = KeySize \<Longrightarrow> 24 \<le> length tape \<Longrightarrow>
    Seal P key pt ad tape = (Inr (take 24 tape, p_seal P key (take 24 tape) pt ad), drop 24 tape)"
  by (simp add: Seal_Inr prims_okD(1) NonceSize_def)

lemma randomID_run: "16 \<le> length tape \<Longrightarrow> randomID tape = (Inr (format_id (take 16 tape)), drop 16 tape)"
  by (simp add: randomID_Inr)

lemma random_draw:
  "16 + n \<le> length (w_tape w) \<Longrightarrow> random randomID (at_offset w n t d) = (Inr (drawn w n), at_offset w (16 + n) t d)"
  unfolding drawn_def by (rule at_offset_random) (simp add: randomID_run)

lemma random_seal:
  assumes "prims_ok P" and "length key = KeySize" and "24 + n \<le> length (w_tape w)"
  shows "\<exists>s. random (Seal P key pt ad) (at_offset w n t d) = (Inr s, at_offset w (24 + n) t d)"
proof -
  have "24 \<le> length (drop n (w_tape w))" using assms(3) by simp
  from Seal_run [OF assms(1,2) this] show ?thesis
    using at_offset_random [of "Seal P key pt ad" n w _ 24 t d] by blast
qed

definition can_audit :: "database world \<Rightarrow> nat \<Rightarrow> nat \<Rightarrow> bool" where
  "can_audit w n t \<longleftrightarrow> w_faults w = [] \<and> 16 + n \<le> length (w_tape w) \<and> t_year (w_clock w (w_ticks w + t)) < 10000
     \<and> drawn w n \<notin> ar_id ` set (db_audit (w_db w))"

abbreviation logged :: "prims \<Rightarrow> keySet \<Rightarrow> string \<Rightarrow> string \<Rightarrow> database world \<Rightarrow> database world" where
  "logged P k op i w \<equiv> appended P (ks_audit k) (secret_event op i) w"

lemma audit_run:
  assumes "can_audit w n t" and "''audit_events'' \<in> set (db_tables d)" and "db_audit d = db_audit (w_db w)"
  shows "appendAudit P (ks_audit k) (secret_event op i) (at_offset w n t d) = (Inr (), logged P k op i (at_offset w n t d))"
proof -
  have "16 + n \<le> length (w_tape w)" using assms(1) by (simp add: can_audit_def)
  then have "16 \<le> length (drop n (w_tape w))" unfolding length_drop by linarith
  then have "can_append (at_offset w n t d)"
    using assms by (simp add: can_audit_def can_append_def drawn_def)
  then show ?thesis by (rule appendAudit_clean) (simp_all add: secret_event_def)
qed

text \<open>
  What an operation has used of the world when it succeeds: the random bytes and the readings of the
  clock, and the identifiers that it has added to the tables.
\<close>

definition grown :: "database world \<Rightarrow> database world \<Rightarrow> nat \<Rightarrow> nat \<Rightarrow> string list \<Rightarrow> string list \<Rightarrow> bool" where
  "grown w w' n t os vs \<longleftrightarrow> w_tape w' = drop (n + 16) (w_tape w) \<and> w_clock w' = w_clock w \<and> w_ticks w' = w_ticks w + t
     \<and> w_faults w' = [] \<and> map ob_id (db_objects (w_db w')) = map ob_id (db_objects (w_db w)) @ os
     \<and> map vr_id (db_versions (w_db w')) = map vr_id (db_versions (w_db w)) @ vs
     \<and> map ar_id (db_audit (w_db w')) = map ar_id (db_audit (w_db w)) @ [drawn w n]
     \<and> (\<forall>b>0. (\<forall>r\<in>set (db_objects (w_db w)). ob_revision r < b) \<longrightarrow> (\<forall>r\<in>set (db_objects (w_db w')). ob_revision r \<le> b))"

lemma grown_logged:
  assumes "w_faults w = []" and "db_audit d = db_audit (w_db w)"
    and "map ob_id (db_objects d) = map ob_id (db_objects (w_db w)) @ os"
    and "map vr_id (db_versions d) = map vr_id (db_versions (w_db w)) @ vs"
    and "\<forall>r\<in>set (db_objects d). ob_revision r \<le> 1 \<or> (\<exists>x\<in>set (db_objects (w_db w)). ob_revision r \<le> ob_revision x + 1)"
  shows "grown w (logged P k op i (at_offset w n t d)) n (Suc t) os vs"
proof -
  have "ob_revision r \<le> b" if "0 < b" "\<forall>x\<in>set (db_objects (w_db w)). ob_revision x < b" "r \<in> set (db_objects d)" for b r
    using assms(5) that by fastforce
  then show ?thesis using assms(1-4)
    by (simp add: grown_def appended_def at_offset_def audit_row_def stamped_def drawn_def add.commute)
qed

lemma inc64_le: "inc64 i \<le> i + 1"
  by (simp add: inc64_def)

lemma revisions_updated:
  assumes "x \<in> set (db_objects d')" and "db_objects d = db_objects d'"
  shows "\<forall>r\<in>set (db_objects (db_update Q sl (inc64 (ob_revision x)) at d)).
    ob_revision r \<le> 1 \<or> (\<exists>x\<in>set (db_objects d'). ob_revision r \<le> ob_revision x + 1)"
  using assms inc64_le [of "ob_revision x"] by (force simp: db_update_def set_update_where)

lemma revisions_changed:
  assumes "x \<in> set (db_objects d)" and "ch_revision ch = ob_revision x"
  shows "\<forall>r\<in>set (db_objects (db_rotate ch d)). ob_revision r \<le> 1 \<or> (\<exists>x\<in>set (db_objects d). ob_revision r \<le> ob_revision x + 1)"
    and "\<forall>r\<in>set (db_objects (db_revoke ch d)). ob_revision r \<le> 1 \<or> (\<exists>x\<in>set (db_objects d). ob_revision r \<le> ob_revision x + 1)"
  unfolding db_rotate_def db_revoke_def Let_def assms(2) by (rule revisions_updated [OF assms(1)], simp)+

lemma db_ids [simp]:
  "map ob_id (db_objects (db_update Q sl n at d)) = map ob_id (db_objects d)"
  "map vr_id (db_versions (db_retire st at i d)) = map vr_id (db_versions d)"
  "map vr_id (db_versions (db_activate at vid d)) = map vr_id (db_versions d)"
  by (simp_all add: db_update_def db_retire_def db_activate_def map_update_where)

lemma ids_changed:
  "map ob_id (db_objects (db_rotate ch d)) = map ob_id (db_objects d)"
  "map ob_id (db_objects (db_revoke ch d)) = map ob_id (db_objects d)"
  "map vr_id (db_versions (db_rotate ch d)) = map vr_id (db_versions d) @ [ch_version_id ch]"
  "map vr_id (db_versions (db_revoke ch d)) = map vr_id (db_versions d)"
  "db_audit (db_rotate ch d) = db_audit d" "db_audit (db_revoke ch d) = db_audit d"
  by (simp_all add: db_rotate_def db_revoke_def Let_def version_row_def)

lemma version_row_simps [simp]:
  "vr_id (version_row vid i n st sv at act) = vid" "vr_secret (version_row vid i n st sv at act) = i"
  "vr_number (version_row vid i n st sv at act) = n" "vr_state (version_row vid i n st sv at act) = st"
  by (simp_all add: version_row_def)

lemma free_name:
  assumes "vault_inv P k d" and "secret_at P k d tok = None" and "x \<in> set (db_objects d)" and "ob_type x = ''secret''"
  shows "ob_lookup x \<noteq> tok"
  using secret_at_row [OF assms(1,3,4)] secret_row_read [OF assms(1,3,4)] assms(2) by auto

lemma CreateSecret_succeeds:
  assumes "prims_ok P" and "st_keys s = Some k" and "keys_ok k" and "vault_inv P k (w_db w)"
    and "sm_id meta = []" and "secret_at P k (w_db w) (secret_token P k meta) = None"
    and "t_year (w_clock w (w_ticks w)) < 10000" and "can_audit w 80 1"
    and "drawn w 0 \<notin> ob_id ` set (db_objects (w_db w))" and "drawn w 40 \<notin> vr_id ` set (db_versions (w_db w))"
  shows "\<exists>m w'. CreateSecret P s meta val w = (Inr m, w') \<and> grown w w' 80 2 [drawn w 0] [drawn w 40]"
proof -
  let ?d = "w_db w" and ?m = "created meta (drawn w 0) (w_clock w (w_ticks w))"
  have len: "96 \<le> length (w_tape w)" and faults: "w_faults w = []" using assms(8) by (simp_all add: can_audit_def)
  have keys: "length (ks_metadata k) = KeySize" "length (ks_dek k) = KeySize" using assms(3) by (simp_all add: keys_ok_def)
  obtain js where js: "marshal_secret ?m = Inr js"
    using assms(7) by (simp add: marshal_secret_def created_def)
  obtain sm where sm: "random (Seal P (ks_metadata k) js (objectAAD ''secret'' (drawn w 0) 1)) (at_offset w 16 1 ?d)
      = (Inr sm, at_offset w 40 1 ?d)"
    using random_seal [OF assms(1) keys(1), of 16 w js "objectAAD ''secret'' (drawn w 0) 1" 1 ?d] len by auto
  have vid: "random randomID (at_offset w 40 1 ?d) = (Inr (drawn w 40), at_offset w 56 1 ?d)"
    using random_draw [of 40 w 1 ?d] len by simp
  obtain sv where sv: "random (Seal P (ks_dek k) val (secretAAD (drawn w 0) 1)) (at_offset w 56 1 ?d)
      = (Inr sv, at_offset w 80 1 ?d)"
    using random_seal [OF assms(1) keys(2), of 56 w val "secretAAD (drawn w 0) 1" 1 ?d] len by auto
  have i: "random randomID w = (Inr (drawn w 0), at_offset w 16 0 ?d)"
    using random_draw [of 0 w 0 ?d] len by simp
  have now: "time_now (at_offset w 16 0 ?d) = (Inr (w_clock w (w_ticks w)), at_offset w 16 1 ?d)"
    using at_offset_time [of w 16 0 ?d] by simp
  have tok: "secret_token P k ?m = secret_token P k meta" by (simp add: created_def secret_token_def)
  let ?at = "stamp (sm_created_at ?m)"
  let ?obj = "object_row (sm_id ?m) ''secret'' (secret_token P k ?m) sm ?at"
  let ?ver = "version_row (drawn w 40) (sm_id ?m) 1 ''active'' sv ?at (Some ?at)"
  have id: "sm_id ?m = drawn w 0" by (simp add: created_def)
  have "\<forall>x\<in>set (db_objects ?d). \<not> object_clash ?obj x"
  proof
    fix x assume x: "x \<in> set (db_objects ?d)"
    then have "ob_id x \<noteq> drawn w 0" using assms(9) by (metis imageI)
    moreover have "ob_type x = ''secret'' \<Longrightarrow> ob_lookup x \<noteq> secret_token P k meta" by (rule free_name [OF assms(4,6) x])
    ultimately show "\<not> object_clash ?obj x" unfolding object_clash_def tok by (auto simp: object_row_def id)
  qed
  then have ins: "insert_object ?obj ?d = Inr ((), db_insert ?obj ?d)"
    using inv_tables [OF assms(4), of "''encrypted_objects''"] by (simp add: insert_object_Inr schema_def)
  have insv: "insert_version ?ver (db_insert ?obj ?d) = Inr ((), db_version ?ver (db_insert ?obj ?d))"
  proof -
    have "vr_secret x \<noteq> drawn w 0" if "x \<in> set (db_versions ?d)" for x
      using that assms(4,9) by (metis vault_inv_def)
    moreover have "vr_id x \<noteq> drawn w 40" if "x \<in> set (db_versions ?d)" for x
      using that assms(10) by (metis imageI)
    ultimately have "\<forall>x\<in>set (db_versions ?d). \<not> version_clash ?ver x"
      unfolding id version_clash_def by (metis version_row_simps(1,2))
    then show ?thesis using inv_tables [OF assms(4), of "''secret_versions''"]
      unfolding insert_version_Inr by (auto simp: version_row_def object_row_def id schema_def)
  qed
  let ?d' = "db_version ?ver (db_insert ?obj ?d)"
  have audit: "appendAudit P (ks_audit k) (secret_event ''secret.create'' (sm_id ?m)) (at_offset w 80 1 ?d')
      = (Inr (), logged P k ''secret.create'' (sm_id ?m) (at_offset w 80 1 ?d'))"
    by (rule audit_run [OF assms(8)]) (use inv_tables [OF assms(4), of "''audit_events''"] in \<open>simp_all add: schema_def\<close>)
  have clean: "w_faults (at_offset w n t d) = []" for n t d using faults by simp
  have commit: "create_commit P k ?m (secret_token P k ?m) sm (drawn w 40) sv (at_offset w 80 1 ?d)
      = (Inr ?m, logged P k ''secret.create'' (sm_id ?m) (at_offset w 80 1 ?d'))"
    unfolding create_commit_def Let_def
    by (rule transaction_clean [OF clean])
      (simp_all add: bnd_def on_error_def exec_clean [OF clean] ins insv audit ret_def faults del: One_nat_def)
  have "grown w (logged P k ''secret.create'' (sm_id ?m) (at_offset w 80 1 ?d')) 80 2 [drawn w 0] [drawn w 40]"
    unfolding numeral_2_eq_2 One_nat_def by (rule grown_logged [OF faults]) (simp_all add: object_row_def id, force)
  then show ?thesis
    using assms(5)
    by (simp add: CreateSecret_def copyKeys_def assms(2) bnd_def lift_def Let_def created_def [symmetric]
        secret_token_def [symmetric] i now js sm vid sv commit del: at_offset_simps One_nat_def)
qed

text \<open>Finding a secret that exists.\<close>

lemma find_run:
  assumes "vault_inv P k (w_db w)" and "w_faults w = []"
    and "secret_at P k (w_db w) (scope_token P k scope name) = Some (m, v)"
  shows "\<exists>r. findSecretMetadata P k scope name w = (Inr (m, ob_revision r), w)
    \<and> found P k (w_db w) (scope_token P k scope name) r m"
proof -
  obtain r rs where rows: "secret_rows (w_db w) (scope_token P k scope name) = r # rs" and rd: "read_secret P k r = Inr m"
    using assms(3) by (auto simp: secret_at_def split: list.splits sum.splits)
  have "r \<in> set (db_objects (w_db w)) \<and> ob_type r = ''secret'' \<and> ob_lookup r = scope_token P k scope name"
    using filter_head [OF rows [unfolded secret_rows_def]] by simp
  moreover have "findSecretMetadata P k scope name w = (Inr (m, ob_revision r), w)"
    using rows rd by (simp add: findSecretMetadata_def on_error_def query_clean [OF assms(2)]
        select_object_inv [OF assms(1)] bnd_def lift_def ret_def)
  ultimately show ?thesis using rd by (auto simp: found_def)
qed

lemma no_version_clash:
  assumes "vault_inv P k d" and "found P k d tok r m" and "vid \<notin> vr_id ` set (db_versions d)"
    and "x \<in> set (db_versions d)"
  shows "\<not> version_clash (version_row vid (sm_id m) (sm_version m + 1) st sv at act) x"
proof -
  have h: "history_ok m (history d (ob_id r))" "sm_id m = ob_id r"
    using secret_row_inv [OF assms(1)] assms(2) by (auto simp: found_def secret_row_ok_def)
  have "vr_number x \<noteq> sm_version m + 1" if "vr_secret x = ob_id r"
    using history_numbers [OF h(1) assms(4) that] by simp
  moreover have "vr_id x \<noteq> vid" using assms(3,4) by (metis imageI)
  ultimately show ?thesis using h(2) by (auto simp: version_clash_def)
qed

lemma rotate_commit_run:
  assumes "vault_inv P k (w_db w)" and "can_audit w n t" and "found P k (w_db w) tok r m"
    and "sm_id (ch_meta ch) = sm_id m" and "sm_version (ch_meta ch) = sm_version m + 1" and "ch_revision ch = ob_revision r"
    and "ch_version_id ch \<notin> vr_id ` set (db_versions (w_db w))"
  shows "rotate_commit P k ch (at_offset w n t (w_db w))
    = (Inr (ch_meta ch), logged P k ''secret.rotate'' (sm_id (ch_meta ch)) (at_offset w n t (db_rotate ch (w_db w))))"
proof -
  let ?d = "w_db w" and ?m = "ch_meta ch" and ?at = "stamp (sm_updated_at (ch_meta ch))"
  let ?ver = "version_row (ch_version_id ch) (sm_id ?m) (sm_version ?m) ''pending'' (ch_sealed_value ch) ?at None"
  let ?Q = "\<lambda>r. ob_id r = sm_id ?m \<and> ob_revision r = ch_revision ch"
  let ?d1 = "db_version ?ver ?d"
  let ?d2 = "db_activate ?at (ch_version_id ch) (db_retire ''retired'' ?at (sm_id ?m) ?d1)"
  have faults: "w_faults (at_offset w n t d) = []" for d using assms(2) by (simp add: can_audit_def)
  have tables: "''secret_versions'' \<in> set (db_tables ?d)" "''encrypted_objects'' \<in> set (db_tables ?d)"
    "''audit_events'' \<in> set (db_tables ?d)"
    using inv_tables [OF assms(1)] by (simp_all add: schema_def)
  have id: "sm_id ?m = ob_id r" and inr: "r \<in> set (db_objects ?d)"
    using found_at(4) [OF assms(1,3)] assms(3,4) by (simp_all add: found_def)
  have 1: "insert_version ?ver ?d = Inr ((), ?d1)"
    unfolding insert_version_Inr using no_version_clash [OF assms(1,3,7)] inr tables
    by (simp add: id [unfolded assms(4)] assms(4,5))
  have 2: "update_retire ''retired'' ?at (sm_id ?m) ?d1 = Inr ((), db_retire ''retired'' ?at (sm_id ?m) ?d1)"
    using tables by (simp add: update_Inr)
  have 3: "update_activate ?at (ch_version_id ch) (db_retire ''retired'' ?at (sm_id ?m) ?d1) = Inr ((), ?d2)"
    using tables by (simp add: update_Inr)
  have "filter ?Q (db_objects ?d) = [r]"
    using assms(1) inr by (intro object_table.filter_unique) (auto simp: vault_inv_def object_clash_def id assms(6))
  then have 4: "update_object ?Q (fst (ch_sealed_meta ch)) (snd (ch_sealed_meta ch)) (inc64 (ch_revision ch)) ?at ?d2
      = Inr (1, db_rotate ch ?d)"
    using tables by (simp add: update_Inr db_rotate_def Let_def)
  have 5: "appendAudit P (ks_audit k) (secret_event ''secret.rotate'' (sm_id ?m)) (at_offset w n t (db_rotate ch ?d))
      = (Inr (), logged P k ''secret.rotate'' (sm_id ?m) (at_offset w n t (db_rotate ch ?d)))"
    by (rule audit_run [OF assms(2)]) (use tables in \<open>simp_all add: db_rotate_def Let_def\<close>)
  note exec_run = exec_clean [OF faults]
  show ?thesis
    unfolding rotate_commit_def Let_def
    by (rule transaction_clean [OF faults]) (use faults in \<open>simp_all add: bnd_def exec_run 1 2 3 4 5 ret_def del: One_nat_def\<close>)
qed

lemma RotateSecret_succeeds:
  assumes "prims_ok P" and "st_keys s = Some k" and "keys_ok k" and "vault_inv P k (w_db w)" and "roomy (w_db w)"
    and "secret_at P k (w_db w) (scope_token P k scope name) = Some (m, v)"
    and "t_year (w_clock w (w_ticks w)) < 10000" and "can_audit w 64 1"
    and "drawn w 0 \<notin> vr_id ` set (db_versions (w_db w))"
  shows "\<exists>m' w'. RotateSecret P s scope name profile strength val w = (Inr m', w') \<and> grown w w' 64 2 [] [drawn w 0]"
proof -
  let ?d = "w_db w" and ?now = "w_clock w (w_ticks w)"
  let ?m = "rotated m profile strength ?now" and ?tok = "scope_token P k scope name"
  have len: "80 \<le> length (w_tape w)" and faults: "w_faults w = []" using assms(8) by (simp_all add: can_audit_def)
  have keys: "length (ks_metadata k) = KeySize" "length (ks_dek k) = KeySize" using assms(3) by (simp_all add: keys_ok_def)
  obtain r where find: "findSecretMetadata P k scope name w = (Inr (m, ob_revision r), w)" and r: "found P k ?d ?tok r m"
    using find_run [OF assms(4) faults assms(6)] by blast
  have ver: "inc64 (sm_version m) = sm_version m + 1" by (rule inc64_version [OF assms(4,5) r])
  have id: "sm_id m = ob_id r" and inr: "r \<in> set (db_objects ?d)"
    using found_at(4) [OF assms(4) r] r by (simp_all add: found_def)
  have "valid_time (sm_created_at m)" using found_at(3) [OF assms(4) r] by (simp add: secret_ok_def)
  then obtain js where js: "marshal_secret ?m = Inr js"
    using assms(7) year_ok by (simp add: marshal_secret_def rotated_def)
  have now: "time_now w = (Inr ?now, at_offset w 0 1 ?d)" using at_offset_time [of w 0 0 ?d] by simp
  have vid: "random randomID (at_offset w 0 1 ?d) = (Inr (drawn w 0), at_offset w 16 1 ?d)"
    using random_draw [of 0 w 1 ?d] len by simp
  obtain sv where sv: "random (Seal P (ks_dek k) val (secretAAD (sm_id m) (inc64 (sm_version m)))) (at_offset w 16 1 ?d)
      = (Inr sv, at_offset w 40 1 ?d)"
    using random_seal [OF assms(1) keys(2), of 16 w val "secretAAD (sm_id m) (inc64 (sm_version m))" 1 ?d] len by auto
  obtain sm where sm: "random (Seal P (ks_metadata k) js (objectAAD ''secret'' (sm_id m) (inc64 (ob_revision r))))
      (at_offset w 40 1 ?d) = (Inr sm, at_offset w 64 1 ?d)"
    using random_seal [OF assms(1) keys(1), of 40 w js "objectAAD ''secret'' (sm_id m) (inc64 (ob_revision r))" 1 ?d] len
    by auto
  define ch where "ch = \<lparr>ch_meta = ?m, ch_revision = ob_revision r, ch_sealed_meta = sm,
      ch_version_id = drawn w 0, ch_sealed_value = sv\<rparr>"
  have rev: "ch_revision ch = ob_revision r" by (simp add: ch_def)
  have prep: "rotate_prepare P k scope name profile strength val w = (Inr ch, at_offset w 64 1 ?d)"
    by (simp add: rotate_prepare_def bnd_def Let_def find now vid sv rotated_def [symmetric] js lift_def sm ret_def ch_def
        del: at_offset_simps One_nat_def)
  have commit: "rotate_commit P k ch (at_offset w 64 1 ?d)
      = (Inr (ch_meta ch), logged P k ''secret.rotate'' (sm_id (ch_meta ch)) (at_offset w 64 1 (db_rotate ch ?d)))"
    by (rule rotate_commit_run [OF assms(4,8) r]) (simp_all add: ch_def rotated_def ver assms(9))
  have "grown w (logged P k ''secret.rotate'' (sm_id (ch_meta ch)) (at_offset w 64 1 (db_rotate ch ?d))) 64 2 [] [drawn w 0]"
    unfolding numeral_2_eq_2 One_nat_def
    by (rule grown_logged [OF faults]) (simp_all add: revisions_changed(1) [OF inr rev] ids_changed, simp add: ch_def)
  then show ?thesis
    using prep commit by (auto simp: RotateSecret_def copyKeys_def assms(2) bnd_def lift_def)
qed

lemma revoked_simps: "sm_id (revoked m now) = sm_id m" "sm_version (revoked m now) = sm_version m"
  by (simp_all add: revoked_def)

lemma revoke_commit_run:
  assumes "vault_inv P k (w_db w)" and "can_audit w n t"
  shows "revoke_commit P k ch (at_offset w n t (w_db w))
    = (Inr (ch_meta ch), logged P k ''secret.revoke'' (sm_id (ch_meta ch)) (at_offset w n t (db_revoke ch (w_db w))))"
proof -
  let ?d = "w_db w" and ?m = "ch_meta ch" and ?at = "stamp (sm_updated_at (ch_meta ch))"
  let ?d1 = "db_retire ''revoked'' ?at (sm_id ?m) ?d" and ?Q = "\<lambda>r. ob_id r = sm_id ?m"
  have faults: "w_faults (at_offset w n t d) = []" for d using assms(2) by (simp add: can_audit_def)
  have tables: "''secret_versions'' \<in> set (db_tables ?d)" "''encrypted_objects'' \<in> set (db_tables ?d)"
    "''audit_events'' \<in> set (db_tables ?d)"
    using inv_tables [OF assms(1)] by (simp_all add: schema_def)
  have 1: "update_retire ''revoked'' ?at (sm_id ?m) ?d = Inr ((), ?d1)"
    using tables by (simp add: update_Inr)
  have 2: "update_object ?Q (fst (ch_sealed_meta ch)) (snd (ch_sealed_meta ch)) (inc64 (ch_revision ch)) ?at ?d1
      = Inr (length (filter ?Q (db_objects ?d)), db_revoke ch ?d)"
    using tables by (simp add: update_Inr db_revoke_def Let_def)
  have 3: "appendAudit P (ks_audit k) (secret_event ''secret.revoke'' (sm_id ?m)) (at_offset w n t (db_revoke ch ?d))
      = (Inr (), logged P k ''secret.revoke'' (sm_id ?m) (at_offset w n t (db_revoke ch ?d)))"
    by (rule audit_run [OF assms(2)]) (use tables in \<open>simp_all add: db_revoke_def Let_def\<close>)
  note exec_run = exec_clean [OF faults]
  show ?thesis
    unfolding revoke_commit_def Let_def
    by (rule transaction_clean [OF faults]) (use faults in \<open>simp_all add: bnd_def exec_run 1 2 3 ret_def\<close>)
qed

lemma RevokeSecret_succeeds:
  assumes "prims_ok P" and "st_keys s = Some k" and "keys_ok k" and "vault_inv P k (w_db w)"
    and "secret_at P k (w_db w) (scope_token P k scope name) = Some (m, v)" and "can_audit w 24 1"
  shows "\<exists>m' w'. RevokeSecret P s scope name w = (Inr m', w') \<and> grown w w' 24 2 [] []"
proof -
  let ?d = "w_db w" and ?m = "revoked m (w_clock w (w_ticks w))"
  have len: "40 \<le> length (w_tape w)" and faults: "w_faults w = []" using assms(6) by (simp_all add: can_audit_def)
  obtain r where find: "findSecretMetadata P k scope name w = (Inr (m, ob_revision r), w)"
    and r: "found P k ?d (scope_token P k scope name) r m"
    using find_run [OF assms(4) faults assms(5)] by blast
  have inr: "r \<in> set (db_objects ?d)" using r by (simp add: found_def)
  have now: "time_now w = (Inr (w_clock w (w_ticks w)), at_offset w 0 1 ?d)" using at_offset_time [of w 0 0 ?d] by simp
  define js where "js = (case marshal_secret ?m of Inr b \<Rightarrow> b | Inl _ \<Rightarrow> [])"
  obtain sm where sm: "random (Seal P (ks_metadata k) js (objectAAD ''secret'' (sm_id m) (inc64 (ob_revision r))))
      (at_offset w 0 1 ?d) = (Inr sm, at_offset w 24 1 ?d)"
    using random_seal [OF assms(1), of "ks_metadata k" 0 w js "objectAAD ''secret'' (sm_id m) (inc64 (ob_revision r))" 1 ?d]
      assms(3) len by (auto simp: keys_ok_def)
  define ch where "ch = \<lparr>ch_meta = ?m, ch_revision = ob_revision r, ch_sealed_meta = sm,
      ch_version_id = [], ch_sealed_value = ([], [])\<rparr>"
  have rev: "ch_revision ch = ob_revision r" by (simp add: ch_def)
  have prep: "revoke_prepare P k scope name w = (Inr ch, at_offset w 24 1 ?d)"
    using sm revoked_simps(1) [of m "w_clock w (w_ticks w)"]
    by (simp add: revoke_prepare_def bnd_def Let_def find now revoked_def [symmetric] js_def [symmetric] ret_def ch_def
        del: at_offset_simps One_nat_def)
  have "grown w (logged P k ''secret.revoke'' (sm_id (ch_meta ch)) (at_offset w 24 1 (db_revoke ch ?d))) 24 2 [] []"
    unfolding numeral_2_eq_2 One_nat_def
    by (rule grown_logged [OF faults]) (simp_all add: revisions_changed(2) [OF inr rev] ids_changed)
  then show ?thesis using prep revoke_commit_run [OF assms(4,6), of ch] by (auto simp: RevokeSecret_def copyKeys_def assms(2) bnd_def lift_def)
qed

text \<open>Storing an action under a name that is free.\<close>

definition required_fields :: "Action \<Rightarrow> bool" where
  "required_fields a \<longleftrightarrow> ac_project a \<noteq> [] \<and> ac_environment a \<noteq> [] \<and> ac_name a \<noteq> [] \<and> ac_executable a \<noteq> []"

lemma no_action_rows:
  assumes "vault_inv P k d" and "action_at P k d tok = None"
  shows "action_rows d tok = []"
proof (cases "action_rows d tok")
  case (Cons r rs)
  then have "r \<in> set (db_objects d)" "ob_type r = ''action''"
    using filter_head [OF Cons [unfolded action_rows_def]] by simp_all
  then obtain a where "read_action P k r = Inr a" using action_row_inv [OF assms(1)] by (auto simp: action_row_ok_def)
  then show ?thesis using assms(2) Cons by (simp add: action_at_def result_option_def)
qed

lemma find_no_action:
  assumes "vault_inv P k (w_db w)" and "w_faults w = []" and "action_at P k (w_db w) tok = None"
  shows "find_action P k tok w = (Inr None, w)"
  using no_action_rows [OF assms(1,3)]
  by (simp add: find_action_def on_error_def bnd_def query_clean [OF assms(2)] select_object_inv [OF assms(1)]
      ErrNoRows_def ret_def)

lemma put_commit_run:
  assumes "vault_inv P k (w_db w)" and "can_audit w n t" and "pu_revision p = 0"
    and "action_at P k (w_db w) (pu_lookup p) = None" and "ac_id (pu_action p) \<notin> ob_id ` set (db_objects (w_db w))"
  shows "\<exists>i. put_commit P k p (at_offset w n t (w_db w))
    = (Inr (pu_action p), appended P (ks_audit k) (action_event i) (at_offset w n t (db_put p (w_db w))))"
proof -
  let ?d = "w_db w" and ?a = "pu_action p" and ?at = "stamp (ac_updated_at (pu_action p))"
  let ?obj = "object_row (ac_id ?a) ''action'' (pu_lookup p) (pu_sealed p) ?at"
  have faults: "w_faults (at_offset w n t d) = []" for d using assms(2) by (simp add: can_audit_def)
  have "\<forall>x\<in>set (db_objects ?d). \<not> (ob_type x = ''action'' \<and> ob_lookup x = pu_lookup p)"
    using no_action_rows [OF assms(1,4)] by (auto simp: action_rows_def filter_empty_conv)
  moreover have "ob_id x \<noteq> ac_id ?a" if "x \<in> set (db_objects ?d)" for x using that assms(5) by (metis imageI)
  ultimately have "\<forall>x\<in>set (db_objects ?d). \<not> object_clash ?obj x"
    by (fastforce simp: object_clash_def object_row_def)
  then have ins: "insert_object ?obj ?d = Inr ((), db_put p ?d)"
    using inv_tables [OF assms(1)] assms(3) by (simp add: insert_object_Inr db_put_def Let_def schema_def)
  have "16 + n \<le> length (w_tape w)" using assms(2) by (simp add: can_audit_def)
  then have "16 \<le> length (drop n (w_tape w))" unfolding length_drop by linarith
  then have "can_append (at_offset w n t (db_put p ?d))"
    using assms(2,3) inv_tables [OF assms(1)] by (simp add: can_audit_def can_append_def drawn_def db_put_def Let_def schema_def)
  then have audit: "appendAudit P (ks_audit k) (action_event (ac_id ?a)) (at_offset w n t (db_put p ?d))
      = (Inr (), appended P (ks_audit k) (action_event (ac_id ?a)) (at_offset w n t (db_put p ?d)))"
    by (rule appendAudit_clean) (simp_all add: action_event_def secret_event_def)
  have "put_commit P k p (at_offset w n t ?d)
      = (Inr ?a, appended P (ks_audit k) (action_event (ac_id ?a)) (at_offset w n t (db_put p ?d)))"
    unfolding put_commit_def Let_def
    by (rule transaction_clean [OF faults])
      (use faults assms(3) in \<open>simp_all add: bnd_def exec_clean [OF faults] ins audit ret_def\<close>)
  then show ?thesis by blast
qed

lemma PutAction_succeeds:
  assumes "prims_ok P" and "st_keys s = Some k" and "keys_ok k" and "vault_inv P k (w_db w)"
    and "required_fields a" and "action_at P k (w_db w) (action_token P k a) = None"
    and "t_year (w_clock w (w_ticks w)) < 10000" and "can_audit w 40 1" and "drawn w 0 \<notin> ob_id ` set (db_objects (w_db w))"
  shows "\<exists>a' w'. PutAction P s a w = (Inr a', w') \<and> w_faults w' = []"
proof -
  let ?d = "w_db w" and ?now = "w_clock w (w_ticks w)" and ?tok = "action_token P k a"
  let ?a = "stored_action a (drawn w 0) ?now ?now"
  have len: "56 \<le> length (w_tape w)" and faults: "w_faults w = []" using assms(8) by (simp_all add: can_audit_def)
  have now: "time_now w = (Inr ?now, at_offset w 0 1 ?d)" using at_offset_time [of w 0 0 ?d] by simp
  have none: "find_action P k ?tok (at_offset w 0 1 ?d) = (Inr None, at_offset w 0 1 ?d)"
    by (rule find_no_action) (use assms(4,6) faults in simp_all)
  have i: "random randomID (at_offset w 0 1 ?d) = (Inr (drawn w 0), at_offset w 16 1 ?d)"
    using random_draw [of 0 w 1 ?d] len by simp
  obtain js where js: "marshal_action ?a = Inr js"
    using assms(7) by (simp add: marshal_action_def stored_action_def)
  obtain sl where sl: "random (Seal P (ks_metadata k) js (objectAAD ''action'' (drawn w 0) (inc64 0))) (at_offset w 16 1 ?d)
      = (Inr sl, at_offset w 40 1 ?d)"
    using random_seal [OF assms(1), of "ks_metadata k" 16 w js "objectAAD ''action'' (drawn w 0) (inc64 0)" 1 ?d]
      assms(3) len by (auto simp: keys_ok_def)
  define p where "p = \<lparr>pu_action = ?a, pu_lookup = ?tok, pu_revision = 0, pu_sealed = sl\<rparr>"
  have ident: "action_identity P k a ?now None (at_offset w 0 1 ?d)
      = (Inr (a\<lparr>ac_id := drawn w 0, ac_created_at := ?now\<rparr>, 0), at_offset w 16 1 ?d)"
    by (simp add: action_identity_def bnd_def on_error_def i ret_def del: at_offset_simps One_nat_def)
  have fields: "\<not> (ac_project a = [] \<or> ac_environment a = [] \<or> ac_name a = [] \<or> ac_executable a = [])"
    using assms(5) by (simp add: required_fields_def)
  have prep: "put_prepare P k a w = (Inr p, at_offset w 40 1 ?d)"
    unfolding put_prepare_def if_not_P [OF fields] Let_def action_token_def [symmetric]
    using js sl by (simp add: bnd_def now none ident lift_def ret_def p_def stored_action_def del: at_offset_simps One_nat_def)
  obtain j where "put_commit P k p (at_offset w 40 1 ?d)
      = (Inr ?a, appended P (ks_audit k) (action_event j) (at_offset w 40 1 (db_put p ?d)))"
    using put_commit_run [OF assms(4,8), of p] assms(6,9) by (auto simp: p_def stored_action_def)
  then show ?thesis using prep faults by (simp add: PutAction_def copyKeys_def assms(2) bnd_def lift_def)
qed

end
