(* ===== verification/VaultProps.thy ===== *)
theory VaultProps
  imports VaultLive VaultInit
begin

section \<open>The properties of the vault\<close>

text \<open>
  The properties of the store as its clients see them: what each operation does to the abstract state
  (a map from lookup tokens to the metadata and the active value of a secret), that operations succeed
  and compose, that a failed operation changes nothing, and that a locked store does nothing.
\<close>

subsection \<open>A vault to try them on\<close>

definition demo_meta :: SecretMetadata where
  "demo_meta = zero_SecretMetadata\<lparr>sm_project := ''shop'', sm_environment := ''dev'', sm_name := ''db'',
     sm_profile := ''default'', sm_strength_bits := 256\<rparr>"

definition demo_scope :: Scope where
  "demo_scope = \<lparr>sc_project = ''shop'', sc_environment = ''dev''\<rparr>"

definition demo_action :: Action where
  "demo_action = zero_Action\<lparr>ac_project := ''shop'', ac_environment := ''dev'', ac_name := ''migrate'',
     ac_executable := ''/bin/true'', ac_arguments := Some [''-v''], ac_secrets := Some [(''DB'', ''db'')],
     ac_output_policy := ''metadata''\<rparr>"

abbreviation demo :: "database world" where
  "demo \<equiv> demo_world demo_clock"

lemma demo_keys_ok: "keys_ok demo_keys"
  by (simp add: keys_ok_def demo_keys_def KeySize_def)

lemma demo_inv: "vault_inv demo_prims demo_keys (w_db demo)"
  by (simp add: vault_inv_def consistent_def)

lemma demo_roomy: "roomy (w_db demo)"
  by (simp add: roomy_def)

lemma demo_empty: "secret_at P k (w_db demo) tok = None"
  by (simp add: secret_at_def secret_rows_def)

lemma demo_time: "valid_time (demo_clock n)"
  by (simp add: demo_clock_def valid_time_def days_in_def)

lemma demo_names:
  "utf8_names demo_meta" "int64 (sm_strength_bits demo_meta)" "sm_id demo_meta = []" "valid_utf8 ''alnum''"
  "sm_profile demo_meta = ''default''"
  by (simp_all add: utf8_names_def demo_meta_def zero_SecretMetadata_def int64_def ascii_valid_utf8 ascii_def)

lemma demo_drawn:
  assumes "a mod 256 \<noteq> b mod 256" and "a \<le> 600" and "b \<le> 600"
  shows "drawn demo a \<noteq> drawn demo b"
proof -
  have "take 16 (drop n demo_tape) ! 0 = (word_of_nat n :: byte)" if "n \<le> 600" for n
    using that by (simp add: demo_tape_def)
  moreover have "(word_of_nat a :: byte) \<noteq> word_of_nat b"
    using assms(1) by (simp add: word_of_nat_eq_iff take_bit_eq_mod)
  ultimately show ?thesis
    using assms(2,3) unfolding drawn_def by (intro format_id_neq) simp_all
qed

subsection \<open>What an operation does when nothing goes wrong\<close>

text \<open>
  The environment delivers: no fault, times before the year 10000, enough random bytes, and the
  identifiers that a creation, a rotation and a revocation draw are new.
\<close>

definition plenty :: "database world \<Rightarrow> bool" where
  "plenty w \<longleftrightarrow> w_faults w = [] \<and> 216 \<le> length (w_tape w) \<and> (\<forall>n. valid_time (w_clock w n))
     \<and> distinct [drawn w 80, drawn w 160, drawn w 200] \<and> drawn w 40 \<noteq> drawn w 96
     \<and> drawn w 0 \<notin> ob_id ` set (db_objects (w_db w))
     \<and> {drawn w 40, drawn w 96} \<inter> vr_id ` set (db_versions (w_db w)) = {}
     \<and> {drawn w 80, drawn w 160, drawn w 200} \<inter> ar_id ` set (db_audit (w_db w)) = {}
     \<and> length (db_versions (w_db w)) < 9223372036854775800
     \<and> (\<forall>r\<in>set (db_objects (w_db w)). ob_revision r < 9223372036854775800)"

lemma set_ids: "map f xs = map f ys @ zs \<Longrightarrow> f ` set xs = f ` set ys \<union> set zs"
  by (metis list.set_map set_append)

lemma grown_drawn: "grown w w' n t os vs \<Longrightarrow> drawn w' m = drawn w (m + (n + 16))"
  by (simp add: grown_def drawn_def add.commute)

lemma grown_ids:
  assumes "grown w w' n t os vs"
  shows "ob_id ` set (db_objects (w_db w')) = ob_id ` set (db_objects (w_db w)) \<union> set os"
    and "vr_id ` set (db_versions (w_db w')) = vr_id ` set (db_versions (w_db w)) \<union> set vs"
    and "ar_id ` set (db_audit (w_db w')) = ar_id ` set (db_audit (w_db w)) \<union> {drawn w n}"
    and "length (db_versions (w_db w')) = length (db_versions (w_db w)) + length vs"
proof -
  note g = assms [unfolded grown_def]
  show "ob_id ` set (db_objects (w_db w')) = ob_id ` set (db_objects (w_db w)) \<union> set os" by (rule set_ids) (use g in blast)
  show "vr_id ` set (db_versions (w_db w')) = vr_id ` set (db_versions (w_db w)) \<union> set vs" by (rule set_ids) (use g in blast)
  show "ar_id ` set (db_audit (w_db w')) = ar_id ` set (db_audit (w_db w)) \<union> {drawn w n}"
    using set_ids [of ar_id "db_audit (w_db w')" "db_audit (w_db w)" "[drawn w n]"] g by simp
  show "length (db_versions (w_db w')) = length (db_versions (w_db w)) + length vs"
    using g by (metis length_append length_map)
qed

lemma grown_revisions:
  "grown w w' n t os vs \<Longrightarrow> 0 < b \<Longrightarrow> (\<forall>r\<in>set (db_objects (w_db w)). ob_revision r < b) \<Longrightarrow>
    (\<forall>r\<in>set (db_objects (w_db w')). ob_revision r < b + 1)"
  by (fastforce simp: grown_def)

lemma live_create:
  assumes "prims_ok P" and "st_keys s = Some k" and "keys_ok k" and "vault_inv P k (w_db w)" and "plenty w"
    and "utf8_names meta" and "sm_id meta = []" and "int64 (sm_strength_bits meta)"
    and "secret_at P k (w_db w) (secret_token P k meta) = None"
  obtains m w' where "CreateSecret P s meta val w = (Inr m, w')" "grown w w' 80 2 [drawn w 0] [drawn w 40]"
    "\<exists>i. m = created meta i (w_clock w (w_ticks w))" "vault_inv P k (w_db w')"
    "secret_at P k (w_db w') = (secret_at P k (w_db w))(secret_token P k meta \<mapsto> (m, Some val))"
proof -
  have t: "valid_time (w_clock w n)" for n using assms(5) by (simp add: plenty_def)
  have "can_audit w 80 1" "drawn w 0 \<notin> ob_id ` set (db_objects (w_db w))" "drawn w 40 \<notin> vr_id ` set (db_versions (w_db w))"
    using assms(5) t by (simp_all add: plenty_def can_audit_def year_ok)
  from CreateSecret_succeeds [OF assms(1-4,7,9) year_ok [OF t] this]
  obtain m w' where run: "CreateSecret P s meta val w = (Inr m, w')" "grown w w' 80 2 [drawn w 0] [drawn w 40]"
    by blast
  show thesis
    using that [OF run] CreateSecret_refine [OF assms(1-4,6,8) t run(1)] by blast
qed

lemma live_rotate:
  assumes "prims_ok P" and "st_keys s = Some k" and "keys_ok k" and "vault_inv P k (w_db w)" and "roomy (w_db w)"
    and "secret_at P k (w_db w) (scope_token P k scope name) = Some (m, v)" and "can_audit w 64 1"
    and "\<forall>n. valid_time (w_clock w n)" and "drawn w 0 \<notin> vr_id ` set (db_versions (w_db w))"
    and "valid_utf8 profile" and "int64 strength"
  obtains m' w' where "RotateSecret P s scope name profile strength val w = (Inr m', w')" "grown w w' 64 2 [] [drawn w 0]"
    "sm_version m' = sm_version m + 1" "vault_inv P k (w_db w')"
    "secret_at P k (w_db w') = (secret_at P k (w_db w))(scope_token P k scope name \<mapsto> (m', Some val))"
proof -
  have t: "valid_time (w_clock w n)" for n using assms(8) by simp
  obtain m' w' where run: "RotateSecret P s scope name profile strength val w = (Inr m', w')" "grown w w' 64 2 [] [drawn w 0]"
    using RotateSecret_succeeds [OF assms(1-6) year_ok [OF t] assms(7,9)] by blast
  show thesis
    using that [OF run] RotateSecret_refine [OF assms(1-5,10,11) t run(1)] assms(6) by auto
qed

lemma live_revoke:
  assumes "prims_ok P" and "st_keys s = Some k" and "keys_ok k" and "vault_inv P k (w_db w)"
    and "secret_at P k (w_db w) (scope_token P k scope name) = Some (m, v)" and "can_audit w 24 1"
    and "\<forall>n. valid_time (w_clock w n)"
  obtains m' w' where "RevokeSecret P s scope name w = (Inr m', w')" "grown w w' 24 2 [] []"
    "sm_version m' = sm_version m" "sm_state m' = ''revoked''" "vault_inv P k (w_db w')"
    "secret_at P k (w_db w') = (secret_at P k (w_db w))(scope_token P k scope name \<mapsto> (m', None))"
proof -
  have t: "valid_time (w_clock w n)" for n using assms(7) by simp
  obtain m' w' where run: "RevokeSecret P s scope name w = (Inr m', w')" "grown w w' 24 2 [] []"
    using RevokeSecret_succeeds [OF assms(1-6)] by blast
  show thesis
    using that [OF run] RevokeSecret_refine [OF assms(1-4) t run(1)] assms(5) by (auto simp: revoked_def)
qed

definition scope_of :: "SecretMetadata \<Rightarrow> Scope" where
  "scope_of m = \<lparr>sc_project = sm_project m, sc_environment = sm_environment m\<rparr>"

lemma scope_of_token: "scope_token P k (scope_of m) (sm_name m) = secret_token P k m"
  by (simp add: scope_of_def secret_token_def)

lemma resolve_single:
  assumes "vault_inv P k (w_db w)" and "w_faults w = []" and "st_keys s = Some k"
    and "secret_at P k (w_db w) (secret_token P k m) = Some (x, v)"
  shows "ResolveSecrets P s (scope_of m) [(env, sm_name m)] w
    = (case v of Some val \<Rightarrow> Inr [(env, val)] | None \<Rightarrow> Inl (Wrap (''active version for '' @ sm_name m @ '': '') ErrNoRows), w)"
  using ResolveSecrets_spec [OF assms(1-3), of "scope_of m" "[(env, sm_name m)]"] assms(4)
  by (simp add: resolved_def scope_of_token split: option.split)

text \<open>
  C12: The life of a secret. In a vault that satisfies the invariant, with keys installed, a free name and an
  environment that delivers, creating, rotating and revoking a secret all succeed one after the other,
  and after each step the broker resolves the name to exactly the value that was stored last, or to
  an error once the secret is revoked.
\<close>

theorem life_of_a_secret:
  assumes "prims_ok P" and "st_keys s = Some k" and "keys_ok k" and "vault_inv P k (w_db w)" and "plenty w"
    and "utf8_names meta" and "sm_id meta = []" and "int64 (sm_strength_bits meta)"
    and "secret_at P k (w_db w) (secret_token P k meta) = None"
    and "valid_utf8 profile" and "int64 strength"
  shows "\<exists>m1 w1 m2 w2 m3 w3.
      CreateSecret P s meta val1 w = (Inr m1, w1)
    \<and> ResolveSecrets P s (scope_of meta) [(env, sm_name meta)] w1 = (Inr [(env, val1)], w1)
    \<and> RotateSecret P s (scope_of meta) (sm_name meta) profile strength val2 w1 = (Inr m2, w2)
    \<and> ResolveSecrets P s (scope_of meta) [(env, sm_name meta)] w2 = (Inr [(env, val2)], w2)
    \<and> RevokeSecret P s (scope_of meta) (sm_name meta) w2 = (Inr m3, w3)
    \<and> ResolveSecrets P s (scope_of meta) [(env, sm_name meta)] w3
        = (Inl (Wrap (''active version for '' @ sm_name meta @ '': '') ErrNoRows), w3)
    \<and> sm_version m1 = 1 \<and> sm_version m2 = 2 \<and> sm_version m3 = 2 \<and> sm_state m3 = ''revoked''"
proof -
  let ?tok = "secret_token P k meta" and ?max = "9223372036854775800 :: int"
  obtain m1 w1 where 1: "CreateSecret P s meta val1 w = (Inr m1, w1)" "grown w w1 80 2 [drawn w 0] [drawn w 40]"
    "\<exists>i. m1 = created meta i (w_clock w (w_ticks w))" "vault_inv P k (w_db w1)"
    "secret_at P k (w_db w1) = (secret_at P k (w_db w))(?tok \<mapsto> (m1, Some val1))"
    by (rule live_create [OF assms(1-9)])
  note g1 = grown_ids [OF 1(2)] grown_drawn [OF 1(2)] 1(2) [unfolded grown_def]
  have at1: "secret_at P k (w_db w1) ?tok = Some (m1, Some val1)" by (simp add: 1(5))
  have r1: "\<forall>r\<in>set (db_objects (w_db w1)). ob_revision r < ?max + 1"
    by (rule grown_revisions [OF 1(2)]) (use assms(5) in \<open>simp_all add: plenty_def\<close>)
  then have roomy1: "roomy (w_db w1)" using assms(5) g1(4) by (fastforce simp: roomy_def plenty_def)
  have audit1: "can_audit w1 64 1" using assms(5) g1 by (auto simp: can_audit_def plenty_def year_ok)
  have t: "\<forall>n. valid_time (w_clock w1 n)" "drawn w1 0 \<notin> vr_id ` set (db_versions (w_db w1))"
    using assms(5) g1 by (auto simp: plenty_def)
  obtain m2 w2 where 2: "RotateSecret P s (scope_of meta) (sm_name meta) profile strength val2 w1 = (Inr m2, w2)"
    "grown w1 w2 64 2 [] [drawn w1 0]" "sm_version m2 = sm_version m1 + 1" "vault_inv P k (w_db w2)"
    "secret_at P k (w_db w2) = (secret_at P k (w_db w1))(?tok \<mapsto> (m2, Some val2))"
    by (rule live_rotate [OF assms(1-3) 1(4) roomy1, where scope = "scope_of meta" and name = "sm_name meta",
          unfolded scope_of_token, OF at1 audit1 t assms(10,11)])
  note g2 = grown_ids [OF 2(2)] grown_drawn [OF 2(2)] 2(2) [unfolded grown_def]
  have at2: "secret_at P k (w_db w2) ?tok = Some (m2, Some val2)" by (simp add: 2(5))
  have audit2: "can_audit w2 24 1" using assms(5) g1 g2 by (auto simp: can_audit_def plenty_def year_ok)
  have t2: "\<forall>n. valid_time (w_clock w2 n)" using t(1) g2 by simp
  obtain m3 w3 where 3: "RevokeSecret P s (scope_of meta) (sm_name meta) w2 = (Inr m3, w3)" "grown w2 w3 24 2 [] []"
    "sm_version m3 = sm_version m2" "sm_state m3 = ''revoked''" "vault_inv P k (w_db w3)"
    "secret_at P k (w_db w3) = (secret_at P k (w_db w2))(?tok \<mapsto> (m3, None))"
    by (rule live_revoke [OF assms(1-3) 2(4), where scope = "scope_of meta" and name = "sm_name meta",
          unfolded scope_of_token, OF at2 audit2 t2])
  have at3: "secret_at P k (w_db w3) ?tok = Some (m3, None)" by (simp add: 3(6))
  have clean: "w_faults w1 = []" "w_faults w2 = []" "w_faults w3 = []" using 1(2) 2(2) 3(2) by (simp_all add: grown_def)
  have "sm_version m1 = 1" using 1(3) by (auto simp: created_def)
  then show ?thesis
    using 1(1) 2(1,3) 3(1,3,4) resolve_single [OF 1(4) clean(1) assms(2) at1, of env]
      resolve_single [OF 2(4) clean(2) assms(2) at2, of env] resolve_single [OF 3(5) clean(3) assms(2) at3, of env]
    by simp
qed

lemma demo_plenty: "plenty demo"
  using demo_drawn [of 80 160] demo_drawn [of 80 200] demo_drawn [of 160 200] demo_drawn [of 40 96]
  by (simp add: plenty_def demo_time)

theorem life_of_a_secret_witness:
  "\<exists>m1 w1 m2 w2 m3 w3.
      CreateSecret demo_prims demo_store demo_meta [1, 2] demo = (Inr m1, w1)
    \<and> ResolveSecrets demo_prims demo_store (scope_of demo_meta) [(''DB'', sm_name demo_meta)] w1 = (Inr [(''DB'', [1, 2])], w1)
    \<and> RotateSecret demo_prims demo_store (scope_of demo_meta) (sm_name demo_meta) ''alnum'' 261 [3] w1 = (Inr m2, w2)
    \<and> ResolveSecrets demo_prims demo_store (scope_of demo_meta) [(''DB'', sm_name demo_meta)] w2 = (Inr [(''DB'', [3])], w2)
    \<and> RevokeSecret demo_prims demo_store (scope_of demo_meta) (sm_name demo_meta) w2 = (Inr m3, w3)
    \<and> ResolveSecrets demo_prims demo_store (scope_of demo_meta) [(''DB'', sm_name demo_meta)] w3
        = (Inl (Wrap (''active version for '' @ sm_name demo_meta @ '': '') ErrNoRows), w3)
    \<and> sm_version m1 = 1 \<and> sm_version m2 = 2 \<and> sm_version m3 = 2 \<and> sm_state m3 = ''revoked''"
  by (rule life_of_a_secret [OF demo_prims_ok demo_keys_of demo_keys_ok demo_inv demo_plenty demo_names(1,3,2) demo_empty demo_names(4)])
    (simp add: int64_def)

subsection \<open>Refinement of the abstract state\<close>

text \<open>
  C10: Creating a secret refines the insertion into the map: when \<open>CreateSecret\<close> returns metadata, the name
  was free, the invariant holds again and the map has exactly one new entry, the metadata with its
  value as the active value; when it returns an error, for whatever fault, the database is as before.
\<close>

theorem CreateSecret_refines:
  assumes "prims_ok P" and "st_keys s = Some k" and "keys_ok k" and "vault_inv P k (w_db w)"
    and "utf8_names meta" and "int64 (sm_strength_bits meta)" and "valid_time (w_clock w (w_ticks w))"
    and "CreateSecret P s meta val w = (r, w')"
  shows "case r of
      Inl e \<Rightarrow> w_db w' = w_db w
    | Inr m \<Rightarrow> (\<exists>i. m = created meta i (w_clock w (w_ticks w))) \<and> vault_inv P k (w_db w')
        \<and> secret_at P k (w_db w) (secret_token P k meta) = None
        \<and> secret_at P k (w_db w') = (secret_at P k (w_db w))(secret_token P k meta \<mapsto> (m, Some val))"
proof (cases r)
  case (Inl e)
  then show ?thesis using atomicD [OF atomic_CreateSecret] assms(8) by fastforce
next
  case (Inr m)
  then show ?thesis using CreateSecret_refine [OF assms(1-7)] assms(8) by simp
qed

theorem CreateSecret_refines_witness:
  "\<exists>m w'. CreateSecret demo_prims demo_store demo_meta [1, 2] demo = (Inr m, w') \<and> vault_inv demo_prims demo_keys (w_db w')
    \<and> secret_at demo_prims demo_keys (w_db w') (secret_token demo_prims demo_keys demo_meta) = Some (m, Some [1, 2])"
proof -
  obtain m w' where run: "CreateSecret demo_prims demo_store demo_meta [1, 2] demo = (Inr m, w')"
    by (rule live_create [OF demo_prims_ok demo_keys_of demo_keys_ok demo_inv demo_plenty demo_names(1,3,2) demo_empty])
  show ?thesis
    using CreateSecret_refines [OF demo_prims_ok demo_keys_of demo_keys_ok demo_inv demo_names(1,2) _ run] run
    by (simp add: demo_time)
qed

text \<open>
  C11: Rotating a secret refines an update of the map: on success the name was there, its version has grown
  by one and the new value is the active one, with every other entry as before; on an error the database
  is as before.
\<close>

theorem RotateSecret_refines:
  assumes "prims_ok P" and "st_keys s = Some k" and "keys_ok k" and "vault_inv P k (w_db w)" and "roomy (w_db w)"
    and "valid_utf8 profile" and "int64 strength" and "valid_time (w_clock w (w_ticks w))"
    and "RotateSecret P s scope name profile strength val w = (r, w')"
  shows "case r of
      Inl e \<Rightarrow> w_db w' = w_db w
    | Inr m' \<Rightarrow> \<exists>m v. secret_at P k (w_db w) (scope_token P k scope name) = Some (m, v)
        \<and> m' = rotated m profile strength (w_clock w (w_ticks w)) \<and> sm_version m' = sm_version m + 1
        \<and> vault_inv P k (w_db w')
        \<and> secret_at P k (w_db w') = (secret_at P k (w_db w))(scope_token P k scope name \<mapsto> (m', Some val))"
proof (cases r)
  case (Inl e)
  then show ?thesis using atomicD [OF atomic_RotateSecret] assms(9) by fastforce
next
  case (Inr m)
  then show ?thesis using RotateSecret_refine [OF assms(1-8)] assms(9) by simp
qed

text \<open>A vault with one secret, after its creation.\<close>

lemma demo_stored:
  obtains m w where "secret_at demo_prims demo_keys (w_db w) (scope_token demo_prims demo_keys demo_scope ''db'') = Some (m, Some [1, 2])"
    "vault_inv demo_prims demo_keys (w_db w)" "roomy (w_db w)" "can_audit w 64 1" "can_audit w 24 1"
    "\<forall>n. valid_time (w_clock w n)" "drawn w 0 \<notin> vr_id ` set (db_versions (w_db w))" "w_faults w = []"
    "drawn w 0 \<notin> ob_id ` set (db_objects (w_db w))" "120 \<le> length (w_tape w)"
    "drawn w 104 \<notin> ar_id ` set (db_audit (w_db w)) \<union> {drawn w 64}"
proof -
  obtain m w where c: "grown demo w 80 2 [drawn demo 0] [drawn demo 40]" "vault_inv demo_prims demo_keys (w_db w)"
    "secret_at demo_prims demo_keys (w_db w) = (secret_at demo_prims demo_keys (w_db demo))(secret_token demo_prims demo_keys demo_meta \<mapsto> (m, Some [1, 2]))"
    by (rule live_create [OF demo_prims_ok demo_keys_of demo_keys_ok demo_inv demo_plenty demo_names(1,3,2) demo_empty])
  note g = grown_ids [OF c(1)] grown_drawn [OF c(1)] c(1) [unfolded grown_def]
  have "\<forall>r\<in>set (db_objects (w_db w)). ob_revision r < 1 + 1" by (rule grown_revisions [OF c(1)]) simp_all
  then have "roomy (w_db w)" using g(4) by (fastforce simp: roomy_def)
  moreover have "secret_token demo_prims demo_keys demo_meta = scope_token demo_prims demo_keys demo_scope ''db''"
    by (simp add: secret_token_def demo_meta_def demo_scope_def)
  moreover have "can_audit w 64 1" "can_audit w 24 1"
    using g demo_drawn [of 160 80] demo_drawn [of 120 80] by (simp_all add: can_audit_def year_ok demo_time)
  moreover have "drawn w 0 \<notin> vr_id ` set (db_versions (w_db w))" "drawn w 0 \<notin> ob_id ` set (db_objects (w_db w))"
    using g demo_drawn [of 96 40] demo_drawn [of 96 0] by simp_all
  moreover have "120 \<le> length (w_tape w)" "drawn w 104 \<notin> ar_id ` set (db_audit (w_db w)) \<union> {drawn w 64}"
    using g demo_drawn [of 200 80] demo_drawn [of 200 160] demo_plenty by (simp_all add: plenty_def)
  ultimately show thesis using that [of w m] c g by (simp add: demo_time)
qed

theorem RotateSecret_refines_witness:
  "\<exists>w m m' w'. secret_at demo_prims demo_keys (w_db w) (scope_token demo_prims demo_keys demo_scope ''db'') = Some (m, Some [1, 2])
    \<and> RotateSecret demo_prims demo_store demo_scope ''db'' ''alnum'' 261 [3] w = (Inr m', w')
    \<and> secret_at demo_prims demo_keys (w_db w') (scope_token demo_prims demo_keys demo_scope ''db'') = Some (m', Some [3])"
proof -
  obtain m w where w: "secret_at demo_prims demo_keys (w_db w) (scope_token demo_prims demo_keys demo_scope ''db'') = Some (m, Some [1, 2])"
    "vault_inv demo_prims demo_keys (w_db w)" "roomy (w_db w)" "can_audit w 64 1"
    "\<forall>n. valid_time (w_clock w n)" "drawn w 0 \<notin> vr_id ` set (db_versions (w_db w))"
    by (rule demo_stored)
  have i: "int64 261" by (simp add: int64_def)
  obtain m' w' where run: "RotateSecret demo_prims demo_store demo_scope ''db'' ''alnum'' 261 [3] w = (Inr m', w')"
    by (rule live_rotate [OF demo_prims_ok demo_keys_of demo_keys_ok w(2,3,1,4,5,6) demo_names(4) i])
  show ?thesis
    using RotateSecret_refines [OF demo_prims_ok demo_keys_of demo_keys_ok w(2,3) demo_names(4) i _ run] run w(1,5) by auto
qed

text \<open>
  C27: Revoking a secret refines an update of the map: on success the entry keeps its version, is marked
  revoked and has no active value any more; on an error the database is as before.
\<close>

theorem RevokeSecret_refines:
  assumes "prims_ok P" and "st_keys s = Some k" and "keys_ok k" and "vault_inv P k (w_db w)"
    and "valid_time (w_clock w (w_ticks w))" and "RevokeSecret P s scope name w = (r, w')"
  shows "case r of
      Inl e \<Rightarrow> w_db w' = w_db w
    | Inr m' \<Rightarrow> \<exists>m v. secret_at P k (w_db w) (scope_token P k scope name) = Some (m, v)
        \<and> m' = revoked m (w_clock w (w_ticks w)) \<and> vault_inv P k (w_db w')
        \<and> secret_at P k (w_db w') = (secret_at P k (w_db w))(scope_token P k scope name \<mapsto> (m', None))"
proof (cases r)
  case (Inl e)
  then show ?thesis using atomicD [OF atomic_RevokeSecret] assms(6) by fastforce
next
  case (Inr m)
  then show ?thesis using RevokeSecret_refine [OF assms(1-5)] assms(6) by simp
qed

theorem RevokeSecret_refines_witness:
  "\<exists>w m m' w'. secret_at demo_prims demo_keys (w_db w) (scope_token demo_prims demo_keys demo_scope ''db'') = Some (m, Some [1, 2])
    \<and> RevokeSecret demo_prims demo_store demo_scope ''db'' w = (Inr m', w')
    \<and> secret_at demo_prims demo_keys (w_db w') (scope_token demo_prims demo_keys demo_scope ''db'') = Some (m', None)"
proof -
  obtain m w where w: "secret_at demo_prims demo_keys (w_db w) (scope_token demo_prims demo_keys demo_scope ''db'') = Some (m, Some [1, 2])"
    "vault_inv demo_prims demo_keys (w_db w)" "can_audit w 24 1" "\<forall>n. valid_time (w_clock w n)"
    by (rule demo_stored)
  obtain m' w' where run: "RevokeSecret demo_prims demo_store demo_scope ''db'' w = (Inr m', w')"
    by (rule live_revoke [OF demo_prims_ok demo_keys_of demo_keys_ok w(2,1,3,4)])
  show ?thesis
    using RevokeSecret_refines [OF demo_prims_ok demo_keys_of demo_keys_ok w(2) _ run] run w(1,4) by auto
qed

text \<open>
  C28: Storing an action refines an update of the map of actions: on success the entry of its name is the
  action with a time of creation that only the first write sets, secrets are untouched and the invariant
  holds; on an error the database is as before.
\<close>

theorem PutAction_refines:
  assumes "prims_ok P" and "st_keys s = Some k" and "keys_ok k" and "vault_inv P k (w_db w)" and "roomy (w_db w)"
    and "action_input_ok a" and "valid_time (w_clock w (w_ticks w))" and "PutAction P s a w = (r, w')"
  shows "case r of
      Inl e \<Rightarrow> w_db w' = w_db w
    | Inr a' \<Rightarrow> (\<exists>i since. a' = stored_action a i since (w_clock w (w_ticks w))
          \<and> (case action_at P k (w_db w) (action_token P k a) of
               None \<Rightarrow> since = w_clock w (w_ticks w)
             | Some c \<Rightarrow> i = ac_id c \<and> since = ac_created_at c))
        \<and> vault_inv P k (w_db w') \<and> secret_at P k (w_db w') = secret_at P k (w_db w)
        \<and> action_at P k (w_db w') = (action_at P k (w_db w))(action_token P k a \<mapsto> a')"
proof (cases r)
  case (Inl e)
  then show ?thesis using atomicD [OF atomic_PutAction] assms(8) by fastforce
next
  case (Inr m)
  then show ?thesis using PutAction_refine [OF assms(1-7)] assms(8) by auto
qed

lemma demo_action_ok: "action_input_ok demo_action" "required_fields demo_action"
  by (simp_all add: action_input_ok_def action_ok_def demo_action_def zero_Action_def ascii_valid_utf8 ascii_def
      zero_time_def valid_time_def days_in_def strmap_ok_def required_fields_def)

lemma demo_no_action: "action_at P k (w_db demo) tok = None"
  by (simp add: action_at_def action_rows_def)

lemma demo_put:
  obtains a w where "PutAction demo_prims demo_store demo_action demo = (Inr a, w)" "w_faults w = []"
proof -
  have "can_audit demo 40 1" by (simp add: can_audit_def year_ok demo_time)
  then show thesis
    using PutAction_succeeds [OF demo_prims_ok demo_keys_of demo_keys_ok demo_inv demo_action_ok(2) demo_no_action] that
    by (auto simp: year_ok demo_time)
qed

theorem PutAction_refines_witness:
  "\<exists>a w. PutAction demo_prims demo_store demo_action demo = (Inr a, w) \<and> vault_inv demo_prims demo_keys (w_db w)
    \<and> action_at demo_prims demo_keys (w_db w) (action_token demo_prims demo_keys demo_action) = Some a"
proof -
  obtain a w where run: "PutAction demo_prims demo_store demo_action demo = (Inr a, w)" by (rule demo_put)
  show ?thesis
    using PutAction_refines [OF demo_prims_ok demo_keys_of demo_keys_ok demo_inv demo_roomy demo_action_ok(1) _ run] run
    by (simp add: demo_time)
qed

text \<open>
  What \<open>PutAction\<close> stored, \<open>GetAction\<close> gives back for the scope and the name of the action, in any later
  state of the world that has the same database and no fault.
\<close>

theorem GetAction_after_PutAction:
  assumes "prims_ok P" and "st_keys s = Some k" and "keys_ok k" and "vault_inv P k (w_db w)" and "roomy (w_db w)"
    and "action_input_ok a" and "valid_time (w_clock w (w_ticks w))" and "PutAction P s a w = (Inr a', w')"
    and "w_db v = w_db w'" and "w_faults v = []"
  shows "GetAction P s \<lparr>sc_project = ac_project a, sc_environment = ac_environment a\<rparr> (ac_name a) v = (Inr a', v)"
proof -
  have "action_at P k (w_db v) (action_token P k a) = Some a'" "vault_inv P k (w_db v)"
    using PutAction_refine [OF assms(1-8)] assms(9) by auto
  then show ?thesis using GetAction_spec [OF _ assms(10,2)] by (simp add: action_token_def)
qed

theorem GetAction_after_PutAction_witness:
  "\<exists>a w. PutAction demo_prims demo_store demo_action demo = (Inr a, w)
    \<and> GetAction demo_prims demo_store \<lparr>sc_project = ac_project demo_action, sc_environment = ac_environment demo_action\<rparr>
        (ac_name demo_action) w = (Inr a, w)"
proof -
  obtain a w where run: "PutAction demo_prims demo_store demo_action demo = (Inr a, w)" "w_faults w = []" by (rule demo_put)
  show ?thesis
    using GetAction_after_PutAction [OF demo_prims_ok demo_keys_of demo_keys_ok demo_inv demo_roomy demo_action_ok(1) _ run(1)
        refl run(2)] run(1)
    by (simp add: demo_time)
qed

subsection \<open>Reading\<close>

text \<open>
  Resolving is reading the abstract state: \<open>ResolveSecrets\<close> leaves the world as it is and returns, for
  every environment name of the mapping, the active value of the secret mapped to it; the first name
  without a secret, or without an active value, gives the error and no value is returned.
\<close>

theorem ResolveSecrets_reads:
  assumes "vault_inv P k (w_db w)" and "w_faults w = []" and "st_keys s = Some k"
  shows "ResolveSecrets P s scope ms w = (collect (resolved P k (w_db w) scope) ms, w)
    \<and> (ResolveSecrets P s scope ms w = (Inr rs, w) \<longleftrightarrow>
      list_all2 (\<lambda>(env, name) (env', val). env' = env
        \<and> (\<exists>m. secret_at P k (w_db w) (scope_token P k scope name) = Some (m, Some val))) ms rs)"
proof -
  have "resolved P k (w_db w) scope name = Inr val \<longleftrightarrow>
      (\<exists>m. secret_at P k (w_db w) (scope_token P k scope name) = Some (m, Some val))" for name val
    by (auto simp: resolved_def split: option.splits prod.splits)
  then show ?thesis by (simp add: ResolveSecrets_spec [OF assms] collect_Inr)
qed

theorem ResolveSecrets_reads_witness:
  "\<exists>w. ResolveSecrets demo_prims demo_store demo_scope [(''DB'', ''db'')] w = (Inr [(''DB'', [1, 2])], w)"
proof -
  obtain m and w :: "database world" where w: "secret_at demo_prims demo_keys (w_db w) (scope_token demo_prims demo_keys demo_scope ''db'') = Some (m, Some [1, 2])"
    "vault_inv demo_prims demo_keys (w_db w)" "w_faults w = []"
    by (rule demo_stored)
  show ?thesis
    using ResolveSecrets_reads [OF w(2,3) demo_keys_of, of demo_scope "[(''DB'', ''db'')]" "[(''DB'', [1, 2])]"] w(1) by auto
qed

text \<open>
  C30: Listing is complete: \<open>ListSecrets\<close> returns, sorted by name and without repetition, exactly the metadata
  of the secrets of the scope.
\<close>

theorem ListSecrets_lists:
  assumes "vault_inv P k (w_db w)" and "w_faults w = []" and "st_keys s = Some k"
  shows "\<exists>ms. ListSecrets P s scope w = (Inr ms, w) \<and> sorted (map sm_name ms) \<and> distinct ms
    \<and> set ms = {m. sm_project m = sc_project scope \<and> sm_environment m = sc_environment scope
        \<and> (\<exists>tok v. secret_at P k (w_db w) tok = Some (m, v))}"
  by (rule ListSecrets_spec [OF assms])

theorem ListSecrets_lists_witness:
  "ListSecrets demo_prims demo_store demo_scope demo = (Inr [], demo)"
  using ListSecrets_lists [OF demo_inv _ demo_keys_of, of demo_scope] by (auto simp: demo_empty)

subsection \<open>Locked\<close>

lemma locked_stops: "bnd (lift (copyKeys (snd (Lock s)))) f w = (Inl ErrLocked, w)"
  by (simp add: copyKeys_def Lock_def bnd_def lift_def split: option.split)

text \<open>
  A locked store does nothing: after \<open>Lock\<close> every operation that needs a key returns \<open>ErrLocked\<close> and the
  world, with its database, its random source and its clock, is untouched.
\<close>

theorem locked_does_nothing:
  "CreateSecret P (snd (Lock s)) meta val w = (Inl ErrLocked, w)
   \<and> RotateSecret P (snd (Lock s)) scope name profile strength val w = (Inl ErrLocked, w)
   \<and> RevokeSecret P (snd (Lock s)) scope name w = (Inl ErrLocked, w)
   \<and> ListSecrets P (snd (Lock s)) scope w = (Inl ErrLocked, w)
   \<and> ResolveSecrets P (snd (Lock s)) scope ms w = (Inl ErrLocked, w)
   \<and> PutAction P (snd (Lock s)) a w = (Inl ErrLocked, w)
   \<and> GetAction P (snd (Lock s)) scope name w = (Inl ErrLocked, w)
   \<and> ListActions P (snd (Lock s)) scope w = (Inl ErrLocked, w)
   \<and> ListAudit P (snd (Lock s)) limit w = (Inl ErrLocked, w)
   \<and> RecordAudit P (snd (Lock s)) event w = (Inl ErrLocked, w)"
  unfolding CreateSecret_def RotateSecret_def RevokeSecret_def ListSecrets_def ResolveSecrets_def PutAction_def
    GetAction_def ListActions_def ListAudit_def RecordAudit_def by (intro conjI locked_stops)

subsection \<open>Places and identifiers\<close>

lemma split_last:
  assumes "xs @ c # a = ys @ c # b" and "c \<notin> set a" and "c \<notin> set b"
  shows "xs = ys \<and> a = b"
proof -
  have "takeWhile (\<lambda>x. x \<noteq> c) (rev (zs @ c # d)) = rev d" if "c \<notin> set d" for zs d
    using that takeWhile_append2 [of "rev d" "\<lambda>x. x \<noteq> c" "c # rev zs"] by auto
  then have "a = b" using assms by (metis rev_rev_ident)
  then show ?thesis using assms(1) by simp
qed

lemma split_first:
  assumes "a @ c # xs = b @ c # ys" and "c \<notin> set a" and "c \<notin> set b"
  shows "a = b \<and> xs = ys"
  using split_last [of "rev xs" c "rev a" "rev ys" "rev b"] arg_cong [OF assms(1), of rev] assms(2,3) by simp

lemma no_colon_dec: "CHR '':'' \<notin> set (dec_int n)"
proof
  assume "CHR '':'' \<in> set (dec_int n)"
  then have "CHR '':'' \<in> set (dec_nat (nat n)) \<or> CHR '':'' \<in> set (dec_nat (nat (- n)))"
    by (auto simp: dec_int_def split: if_splits)
  then obtain d where "d < 10" "CHR '':'' = digit d" using dec_nat_digits by blast
  then have "(of_char (CHR '':'') :: nat) = 48 + d" by (simp only: of_char_digit)
  then show False using \<open>d < 10\<close> by simp
qed

text \<open>
  A sealed text is bound to its place. Two texts of associated data are equal only for the same place: the
  data of an object determines its kind, its identifier and its revision, the data of a value its
  secret and its version, and no two of the three families (the wrapped data key, objects, values)
  overlap, whatever the identifiers contain.
\<close>

theorem associated_data_unambiguous:
  "{kind, kind'} \<subseteq> {''secret'', ''action''} \<Longrightarrow>
     (objectAAD kind i n = objectAAD kind' j m \<longleftrightarrow> kind = kind' \<and> i = j \<and> n = m)
   \<and> (secretAAD i n = secretAAD j m \<longleftrightarrow> i = j \<and> n = m) \<and> (wrapperAAD i = wrapperAAD j \<longleftrightarrow> i = j)
   \<and> objectAAD kind i n \<noteq> secretAAD j m \<and> objectAAD kind i n \<noteq> wrapperAAD j \<and> secretAAD i n \<noteq> wrapperAAD j"
proof -
  assume kinds: "{kind, kind'} \<subseteq> {''secret'', ''action''}"
  then have k: "CHR '':'' \<notin> set kind" "CHR '':'' \<notin> set kind'" by auto
  have dec: "dec_int n = dec_int m \<longleftrightarrow> n = m" by (simp add: dec.enc_inject)
  have "objectAAD kind i n = objectAAD kind' j m \<longleftrightarrow>
      kind @ CHR '':'' # (i @ CHR '':'' # dec_int n) = kind' @ CHR '':'' # (j @ CHR '':'' # dec_int m)"
    by (simp add: objectAAD_def)
  also have "\<dots> \<longleftrightarrow> kind = kind' \<and> i = j \<and> n = m"
    using split_first [OF _ k] split_last [OF _ no_colon_dec no_colon_dec] dec by metis
  finally have object: "objectAAD kind i n = objectAAD kind' j m \<longleftrightarrow> kind = kind' \<and> i = j \<and> n = m" .
  have "secretAAD i n = secretAAD j m \<longleftrightarrow> i @ CHR '':'' # dec_int n = j @ CHR '':'' # dec_int m"
    by (simp add: secretAAD_def)
  also have "\<dots> \<longleftrightarrow> i = j \<and> n = m"
    using split_last [OF _ no_colon_dec no_colon_dec] dec by metis
  finally show ?thesis using object by (simp add: objectAAD_def secretAAD_def wrapperAAD_def)
qed

theorem associated_data_unambiguous_witness:
  "objectAAD ''secret'' ''a:1'' 2 \<noteq> objectAAD ''secret'' ''a'' 12 \<and> objectAAD ''secret'' ''a'' 1 \<noteq> objectAAD ''action'' ''a'' 1"
  using associated_data_unambiguous [of "''secret''" "''secret''" "''a:1''" 2 "''a''" 12]
    associated_data_unambiguous [of "''secret''" "''action''" "''a''" 1 "''a''" 1] by simp

lemma hex_encode_nth:
  "2 * n + 1 < length (hex_encode bs) \<Longrightarrow> hex_encode bs ! (2 * n) = hex_digit (unat (bs ! n) div 16)"
proof (induction bs arbitrary: n)
  case (Cons b bs)
  then show ?case by (cases n) (simp_all add: hex_byte_def)
qed simp

lemma byte_div_16: "unat (b :: byte) div 16 = unat (drop_bit 4 b)"
  by (simp add: drop_bit_eq_div unat_div)

lemma version_nibble: "unat (((b :: byte) AND 0x0f) OR 0x40) div 16 = 4"
proof -
  have "drop_bit 4 ((b AND 0x0f) OR 0x40) = (4 :: byte)"
    by (rule bit_word_eqI) (auto simp: bit_simps bit_numeral_rec elim: less_SucE)
  then show ?thesis by (simp add: byte_div_16)
qed

lemma variant_nibble: "unat (((b :: byte) AND 0x3f) OR 0x80) div 16 \<in> {8, 9, 10, 11}"
proof -
  have "drop_bit 4 ((b AND 0x3f) OR 0x80) = (8 :: byte) OR (drop_bit 4 b AND 3)"
    by (rule bit_word_eqI) (auto simp: bit_simps bit_numeral_rec elim: less_SucE)
  moreover have "drop_bit 4 b AND 3 = 0 \<or> drop_bit 4 b AND 3 = 1 \<or> drop_bit 4 b AND 3 = 2 \<or> drop_bit 4 b AND 3 = (3 :: byte)"
  proof -
    have "unat (drop_bit 4 b AND 3 :: byte) \<le> 3" using word_and_le1 [of "drop_bit 4 b" "3 :: byte"] by (simp add: word_le_nat_alt)
    then show ?thesis by (auto simp: word_unat_eq_iff)
  qed
  ultimately show ?thesis by (auto simp: byte_div_16)
qed

lemma hex_digit_char: "d < 16 \<Longrightarrow> hex_digit d \<in> set ''0123456789abcdef''"
proof -
  have "\<forall>d\<in>set [0..<16]. hex_digit d \<in> set ''0123456789abcdef''" by code_simp
  then show "d < 16 \<Longrightarrow> hex_digit d \<in> set ''0123456789abcdef''" by simp
qed

lemma hex_digits: "hex_digit 4 = CHR ''4''" "hex_digit 8 = CHR ''8''" "hex_digit 9 = CHR ''9''"
  "hex_digit 10 = CHR ''a''" "hex_digit 11 = CHR ''b''"
  by code_simp+

lemma format_id_nth:
  assumes "length b = 16" and "n < 36" and "n \<notin> {8, 13, 18, 23}"
  shows "format_id b ! n \<in> set (hex_encode (id_bits b))"
proof -
  let ?h = "hex_encode (id_bits b)"
  have h: "length ?h = 32" using assms(1) by simp
  have "n < 8 \<or> (\<exists>m<4. n = 9 + m) \<or> (\<exists>m<4. n = 14 + m) \<or> (\<exists>m<4. n = 19 + m) \<or> (\<exists>m<12. n = 24 + m)"
    using assms(2,3) by simp presburger
  then have "\<exists>m<32. format_id b ! n = ?h ! m"
  proof (elim disjE exE conjE)
    assume "n < 8"
    then show ?thesis using h by (intro exI [of _ n]) (simp add: format_id_def Let_def nth_append)
  next
    fix m assume "m < (4 :: nat)" "n = 9 + m"
    then show ?thesis using h by (intro exI [of _ "8 + m"]) (simp add: format_id_def Let_def nth_append)
  next
    fix m assume "m < (4 :: nat)" "n = 14 + m"
    then show ?thesis using h by (intro exI [of _ "12 + m"]) (simp add: format_id_def Let_def nth_append)
  next
    fix m assume "m < (4 :: nat)" "n = 19 + m"
    then show ?thesis using h by (intro exI [of _ "16 + m"]) (simp add: format_id_def Let_def nth_append)
  next
    fix m assume "m < (12 :: nat)" "n = 24 + m"
    then show ?thesis using h by (intro exI [of _ "20 + m"]) (simp add: format_id_def Let_def nth_append)
  qed
  then show ?thesis using h by (metis nth_mem)
qed

text \<open>
  C31: Identifiers are version 4 UUIDs: when \<open>randomID\<close> succeeds it has used 16 random bytes and returns 36
  characters, dashes at 8, 13, 18 and 23 and lower case hexadecimal digits elsewhere, with the version
  digit 4 and one of 8, 9, a, b as the variant digit.
\<close>

theorem randomID_format:
  assumes "randomID tape = (Inr i, tape')"
  shows "length i = 36 \<and> (\<forall>n\<in>{8, 13, 18, 23}. i ! n = CHR ''-'')
    \<and> (\<forall>n<36. n \<notin> {8, 13, 18, 23} \<longrightarrow> i ! n \<in> set ''0123456789abcdef'')
    \<and> i ! 14 = CHR ''4'' \<and> i ! 19 \<in> set ''89ab'' \<and> tape' = drop 16 tape"
proof -
  obtain b where b: "length b = 16" "i = format_id b" and tape: "tape' = drop 16 tape"
    using assms that [of "take 16 tape"] by (simp add: randomID_Inr)
  let ?h = "hex_encode (id_bits b)"
  have h: "length ?h = 32" using b(1) by simp
  have "i ! 14 = ?h ! (2 * 6)" "i ! 19 = ?h ! (2 * 8)" "\<forall>n\<in>{8, 13, 18, 23}. i ! n = CHR ''-''"
    using h by (simp_all add: b(2) format_id_def Let_def nth_append)
  moreover have "?h ! (2 * 6) = CHR ''4''"
    using hex_encode_nth [of 6 "id_bits b"] b(1)
    by (simp add: id_bits_def Let_def version_nibble hex_digits)
  moreover have "?h ! (2 * 8) \<in> set ''89ab''"
    using hex_encode_nth [of 8 "id_bits b"] b(1) variant_nibble [of "b ! 8"]
    by (auto simp: id_bits_def Let_def hex_digits)
  moreover have "i ! n \<in> set ''0123456789abcdef''" if "n < 36" "n \<notin> {8, 13, 18, 23}" for n
    using format_id_nth [OF b(1) that] hex_encode_digits hex_digit_char unfolding b(2) by metis
  ultimately show ?thesis using length_format_id [OF b(1)] tape unfolding b(2) by (intro conjI) (simp_all only:, blast)
qed

theorem randomID_format_witness:
  "\<exists>i. randomID demo_tape = (Inr i, drop 16 demo_tape) \<and> length i = 36 \<and> i ! 14 = CHR ''4''"
proof -
  have "randomID demo_tape = (Inr (format_id (take 16 demo_tape)), drop 16 demo_tape)" by (simp add: randomID_Inr)
  from randomID_format [OF this] this show ?thesis by blast
qed

end
