(* ===== verification/BrokerVault.thy ===== *)
theory BrokerVault
  imports BrokerCorrect VaultProps
begin

section \<open>Requests on an open vault\<close>

text \<open>
  The effect of a request when the broker has opened the vault: what an operation of the store on the
  database does is what the request does to the disk, and a run is the lookup of the action, the
  resolution of its secrets and the child process.
\<close>

lemma getStore_run: "br_store (bs_broker (w_db w)) = Some s \<Longrightarrow> getStore w = (Inr s, w)"
  by (simp add: getStore_def bnd_def look_def ret_def)

lemma on_vault_run:
  assumes "bs_disk (w_db w) = Some d" and "m (with_db w d) = (r, v)"
  shows "on_vault m w = (r, with_db v ((w_db w)\<lparr>bs_disk := Some (w_db v)\<rparr>))"
proof -
  have "on_file m (with_db w (Some d)) = (r, with_db v (Some (w_db v)))"
    by (rule on_file_run [where d = d]) (simp_all add: assms(2))
  then show ?thesis by (simp add: on_disk_def assms(1))
qed

lemma on_vault_stays:
  assumes "bs_disk (w_db w) = Some d" and "m (with_db w d) = (r, with_db w d)"
  shows "on_vault m w = (r, w)"
  using on_vault_run [where w = w and d = d and m = m and r = r and v = "with_db w d"] assms by simp

text \<open>The broker has the vault open and unlocked with the keys \<open>k\<close>, its file holds \<open>d\<close> and nothing fails.\<close>

definition unlocked :: "prims \<Rightarrow> keySet \<Rightarrow> Store \<Rightarrow> database \<Rightarrow> bstate world \<Rightarrow> bool" where
  "unlocked P k s d w \<longleftrightarrow> br_store (bs_broker (w_db w)) = Some s \<and> st_keys s = Some k \<and> bs_disk (w_db w) = Some d
     \<and> vault_inv P k d \<and> w_faults w = [] \<and> cn_faults (bs_conn (w_db w)) = []"

subsection \<open>Runs\<close>

text \<open>The mapped values in the order that the redacting writers get them, and the call of the action.\<close>

definition run_values :: "(string \<times> bytes) list \<Rightarrow> bytes list" where
  "run_values vals = map snd (sort_key fst vals)"

definition run_call :: "setting \<Rightarrow> Action \<Rightarrow> (string \<times> bytes) list \<Rightarrow> Invocation" where
  "run_call E action vals =
     \<lparr>iv_command = ac_executable action # (case ac_arguments action of None \<Rightarrow> [] | Some args \<Rightarrow> args),
      iv_dir = ac_directory action, iv_env = child_environment (en_environ E) vals\<rparr>"

text \<open>\<open>runs E action vals q\<close>: the events \<open>q\<close> are those of a run of the action with the values \<open>vals\<close>.\<close>

definition runs :: "setting \<Rightarrow> Action \<Rightarrow> (string \<times> bytes) list \<Rightarrow> Response list \<Rightarrow> bool" where
  "runs E action vals q \<longleftrightarrow> (if ac_output_policy action = ''redacted''
     then events_only q \<and> (\<forall>b. stream_text (event_of b) q
       = delivered (run_values vals) (written b (ch_writes (en_child E (run_call E action vals)))))
     else q = [])"

definition run_outcome :: "setting \<Rightarrow> Action \<Rightarrow> (string \<times> bytes) list \<Rightarrow> int \<times> error option" where
  "run_outcome E action vals = exit_of (en_ctx_err E) (ch_end (en_child E (run_call E action vals)))"

lemma run_process_runs:
  assumes "cn_faults (bs_conn (w_db w)) = []"
  shows "\<exists>q. run_process E action vals w
      = (Inr (run_outcome E action vals), w\<lparr>w_db := (w_db w)\<lparr>bs_conn := (bs_conn (w_db w))\<lparr>cn_sent := sent w @ q\<rparr>\<rparr>\<rparr>)
    \<and> runs E action vals q"
proof (cases "ac_output_policy action = ''redacted''")
  case True
  have "iv_command (run_call E action vals) \<noteq> []" by (simp add: run_call_def)
  from run_child_redacted [OF assms this, of "en_child E" "en_ctx_err E" "run_values vals"] show ?thesis
    using True by (auto simp: run_process_def runs_def run_outcome_def run_call_def run_values_def sent_def)
next
  case False
  have "iv_command (run_call E action vals) \<noteq> []" by (simp add: run_call_def)
  from run_child_silent [OF False this, of "en_child E" "en_ctx_err E" "run_values vals" "bs_conn (w_db w)"] show ?thesis
    using False by (simp add: run_process_def runs_def run_outcome_def run_call_def run_values_def sent_def)
qed

text \<open>What \<open>run\<close> answers: the events, then the outcome; or the error of the lookup or the resolution.\<close>

lemma do_run_found:
  assumes "unlocked (en_prims E) k s d w"
    and "unmarshal_raw action_request_fields zero_ActionRequest raw = Inr payload"
    and "action_at (en_prims E) k d (actionLookup (en_prims E) (ks_lookup k) (sc_project (aq_scope payload))
          (sc_environment (aq_scope payload)) (aq_name payload)) = Some action"
    and "collect (resolved (en_prims E) k d (aq_scope payload))
          (en_order E (case ac_secrets action of None \<Rightarrow> [] | Some m \<Rightarrow> m)) = Inr vals"
  shows "\<exists>q w'. do_run E raw w = (Inr (), w') \<and> runs E action vals q
    \<and> sent w' = sent w @ q @ [run_response action (fst (run_outcome E action vals)) (snd (run_outcome E action vals))]"
proof -
  have w: "br_store (bs_broker (w_db w)) = Some s" "st_keys s = Some k" "bs_disk (w_db w) = Some d"
    "vault_inv (en_prims E) k d" "w_faults w = []" "cn_faults (bs_conn (w_db w)) = []"
    using assms(1) by (simp_all add: unlocked_def)
  have get: "on_vault (GetAction (en_prims E) s (aq_scope payload) (aq_name payload)) w = (Inr action, w)"
    by (rule on_vault_stays [OF w(3)]) (use GetAction_spec [of "en_prims E" k "with_db w d" s] w assms(3) in simp)
  have res: "on_vault (ResolveSecrets (en_prims E) s (aq_scope payload)
      (en_order E (case ac_secrets action of None \<Rightarrow> [] | Some m \<Rightarrow> m))) w = (Inr vals, w)"
    by (rule on_vault_stays [OF w(3)]) (use ResolveSecrets_spec [of "en_prims E" k "with_db w d" s] w assms(4) in simp)
  obtain q where run: "run_process E action vals w = (Inr (run_outcome E action vals),
      w\<lparr>w_db := (w_db w)\<lparr>bs_conn := (bs_conn (w_db w))\<lparr>cn_sent := sent w @ q\<rparr>\<rparr>\<rparr>)" and q: "runs E action vals q"
    using run_process_runs [OF w(6)] by blast
  obtain code err where o: "run_outcome E action vals = (code, err)" by (cases "run_outcome E action vals")
  let ?v = "w\<lparr>w_db := (w_db w)\<lparr>bs_conn := (bs_conn (w_db w))\<lparr>cn_sent := sent w @ q\<rparr>\<rparr>\<rparr>"
  obtain r u where a: "ignore (on_vault (RecordAudit (en_prims E) s (run_event action code err))) ?v = (r, u)"
    by (cases "ignore (on_vault (RecordAudit (en_prims E) s (run_event action code err))) ?v")
  have "r = Inr ()" using ignore_Inr [of "on_vault (RecordAudit (en_prims E) s (run_event action code err))" ?v] a by simp
  moreover have c: "bs_conn (w_db u) = bs_conn (w_db ?v)"
    by (rule preservesD [OF preserves_ignore [OF preserves_conn_vault] a])
  moreover have "do_run E raw w = on_error (send (run_response action code err)) send_error u"
    using get res run a calculation getStore_run [OF w(1)] assms(2) o
    by (simp add: do_run_def runAction_def bnd_def on_error_def lift_def)
  moreover have "sent u = sent w @ q" using c by (simp add: sent_def)
  ultimately show ?thesis
    using q w(6) o by (simp add: send_clean on_error_def) (simp add: sent_def)
qed

lemma Handle_run: "rq_operation request = ''run'' \<Longrightarrow> Handle E request = do_run E (rq_payload request)"
  by (simp add: Handle_def Let_def)

subsection \<open>Creating a secret leaves the actions alone\<close>

lemma CreateSecret_actions:
  assumes "st_keys s = Some k" and "CreateSecret P s meta val w = (Inr m, w')"
  shows "action_at P k (w_db w') = action_at P k (w_db w)"
proof -
  obtain i js sm vid sv u where c: "create_commit P k m (secret_token P k m) sm vid sv u = (Inr m, w')" "w_db u = w_db w"
    by (rule CreateSecret_Inr [OF assms])
  obtain row where "w_db w' = (db_version (version_row vid (sm_id m) 1 ''active'' sv
        (stamp (sm_created_at m)) (Some (stamp (sm_created_at m))))
      (db_insert (object_row (sm_id m) ''secret'' (secret_token P k m) sm (stamp (sm_created_at m))) (w_db w)))
      \<lparr>db_audit := db_audit (w_db w) @ [row]\<rparr>"
    using c(1) unfolding c(2) [symmetric] by (rule create_commit_Inr)
  then show ?thesis
    by (intro ext) (simp add: action_at_def action_rows_def object_row_def)
qed

end
