(* ===== verification/BrokerLock.thy ===== *)
theory BrokerLock
  imports BrokerVault
begin

section \<open>What a locked broker refuses\<close>

text \<open>
  The requests that only read leave the vault file alone, and a broker whose vault is locked answers
  every request that needs a key with an error. \<open>refused\<close> is the judgement behind the second; its rules
  are syntax directed.
\<close>

subsection \<open>Requests that leave the vault file alone\<close>

lemma keeps_unwrapDEK [effect_intros]: "keeps (unwrapDEK P s password)"
  unfolding unwrapDEK_def by (intro effect_intros)

lemma keeps_Unlock [effect_intros]: "keeps (Unlock P s password)" "keeps (VerifyPassword P s password)"
  unfolding Unlock_def VerifyPassword_def by (intro effect_intros)+

lemma preserves_disk:
  "preserves bs_disk (do_unlock E raw)" "preserves bs_disk do_lock" "preserves bs_disk (do_list_secrets E raw)"
  "preserves bs_disk (do_list_actions E raw)" "preserves bs_disk (do_audit E raw)"
  unfolding do_unlock_def do_lock_def do_list_secrets_def do_list_actions_def do_audit_def
  by (intro preserve_intros effect_intros; simp add: set_store_def)+

definition writing_operations :: "string set" where
  "writing_operations = {''secret.create'', ''secret.rotate'', ''secret.revoke'', ''action.configure'', ''run''}"

lemma operation_reads:
  "rq_operation request \<notin> writing_operations \<Longrightarrow> preserves bs_disk (operation E request)"
  unfolding operation_def Let_def writing_operations_def
  by (simp add: preserves_disk preserves_status preserves_base)

subsection \<open>A locked broker\<close>

text \<open>
  \<open>refused s D c m\<close>: with the store \<open>s\<close>, the disk \<open>D\<close> and the connection \<open>c\<close> the operation fails and leaves
  all three as they are.
\<close>

definition has :: "Store \<Rightarrow> disk \<Rightarrow> conn \<Rightarrow> bstate world \<Rightarrow> bool" where
  "has s D c w \<longleftrightarrow> br_store (bs_broker (w_db w)) = Some s \<and> bs_disk (w_db w) = D \<and> bs_conn (w_db w) = c"

definition refused :: "Store \<Rightarrow> disk \<Rightarrow> conn \<Rightarrow> 'a bro \<Rightarrow> bool" where
  "refused s D c m \<longleftrightarrow> (\<forall>w. has s D c w \<longrightarrow> (\<exists>e v. m w = (Inl e, v) \<and> has s D c v))"

named_theorems refuse_intros \<open>rules for operations that are refused\<close>

lemma refused_fail [refuse_intros]: "refused s D c (fail e)"
  by (simp add: refused_def fail_def)

lemma refused_bnd [refuse_intros]:
  assumes "preserves bs_disk m" and "preserves (br_store \<circ> bs_broker) m" and "preserves bs_conn m"
    and "\<And>x. refused s D c (g x)"
  shows "refused s D c (bnd m g)"
  unfolding refused_def
proof (intro allI impI)
  fix w :: "bstate world" assume w: "has s D c w"
  obtain r v where m: "m w = (r, v)" by (cases "m w")
  have v: "has s D c v"
    using w preservesD [OF assms(1) m] preservesD [OF assms(2) m] preservesD [OF assms(3) m] by (simp add: has_def)
  show "\<exists>e u. bnd m g w = (Inl e, u) \<and> has s D c u"
    using assms(4) v m by (cases r) (simp_all add: bnd_def refused_def)
qed

lemma refused_getStore [refuse_intros]: "refused s D c (g s) \<Longrightarrow> refused s D c (bnd getStore g)"
  by (simp add: refused_def bnd_def getStore_run has_def)

lemma refused_let [refuse_intros]: "(\<And>x. refused s D c (g x)) \<Longrightarrow> refused s D c (let x = v in g x)"
  by simp

lemma refused_prod [refuse_intros]: "(\<And>x y. refused s D c (g x y)) \<Longrightarrow> refused s D c (case p of (x, y) \<Rightarrow> g x y)"
  by (cases p) simp

lemma refused_vault:
  assumes "\<And>v. m v = (Inl e, v)"
  shows "refused s D c (bnd (on_vault m) g)"
  by (auto simp: refused_def bnd_def on_disk_def on_file_def assms has_def split: option.split)

lemma refused_copyKeys: "st_keys s = None \<Longrightarrow> refused s D c (bnd (on_vault (bnd (lift (copyKeys s)) f)) g)"
  by (rule refused_vault [where e = ErrLocked]) (simp add: copyKeys_def bnd_def lift_def)

lemma refused_locked:
  assumes "st_keys s = None"
  shows "refused s D c (bnd (on_vault (CreateSecret P s meta val)) g1)"
    and "refused s D c (bnd (on_vault (RotateSecret P s scope name profile strength val)) g1)"
    and "refused s D c (bnd (on_vault (RevokeSecret P s scope name)) g1)"
    and "refused s D c (bnd (on_vault (ListSecrets P s scope)) g2)"
    and "refused s D c (bnd (on_vault (PutAction P s action)) g3)"
    and "refused s D c (bnd (on_vault (GetAction P s scope name)) g3)"
    and "refused s D c (bnd (on_vault (ListActions P s scope)) g4)"
    and "refused s D c (bnd (on_vault (ListAudit P s limit)) g5)"
  unfolding CreateSecret_def RotateSecret_def RevokeSecret_def ListSecrets_def PutAction_def GetAction_def ListActions_def
    ListAudit_def by (rule refused_copyKeys [OF assms])+

lemma preserves_store_vault [preserve_intros]: "preserves (br_store \<circ> bs_broker) (on_vault m)"
  by (intro preserve_intros) simp

lemma refused_writes:
  assumes "st_keys s = None"
  shows "refused s D c (bnd (if create then on_vault (CreateSecret P s meta val)
      else on_vault (RotateSecret P s scope name profile strength val)) g)"
  by (cases create) (simp_all add: refused_locked [OF assms])

lemmas refuse_rules = refuse_intros preserve_intros effect_intros preserves_conn_vault

lemma refused_requests:
  assumes "st_keys s = None"
  shows "refused s D c (do_write_secret E create raw)" "refused s D c (do_revoke E raw)" "refused s D c (do_list_secrets E raw)"
    "refused s D c (do_list_actions E raw)" "refused s D c (do_audit E raw)" "refused s D c (do_configure E raw)"
    "refused s D c (bnd (lift (unmarshal_raw action_request_fields zero_ActionRequest raw)) (\<lambda>payload. runAction E payload))"
  unfolding do_write_secret_def do_revoke_def do_list_secrets_def do_configure_def do_list_actions_def do_audit_def runAction_def
  by (intro refused_locked [OF assms] refused_writes [OF assms] refuse_rules)+

text \<open>The requests that are served without the keys.\<close>

definition keyless_operations :: "string set" where
  "keyless_operations = {''status'', ''unlock'', ''lock''}"

lemma locked_answer:
  assumes "has s D c w" and "st_keys s = None" and "cn_faults (bs_conn (w_db w)) = []"
    and "rq_operation request \<notin> keyless_operations"
  shows "\<exists>e w'. Handle E request w = (Inr (), w') \<and> br_store (bs_broker (w_db w')) = Some s \<and> bs_disk (w_db w') = D
    \<and> sent w' = sent w @ [zero_Response\<lparr>rs_error := publicError e, rs_final := True\<rparr>]"
proof (cases "rq_operation request = ''run''")
  case True
  let ?m = "bnd (lift (unmarshal_raw action_request_fields zero_ActionRequest (rq_payload request))) (\<lambda>payload. runAction E payload)"
  obtain e v where v: "?m w = (Inl e, v)" "has s D c v"
    using refused_requests(7) [OF assms(2)] assms(1) unfolding refused_def by blast
  then have "Handle E request w = send_error e v" by (simp add: Handle_run [OF True] do_run_def on_error_def)
  moreover have "sent v = sent w" "cn_faults (bs_conn (w_db v)) = []" using v(2) assms(1,3) by (simp_all add: has_def sent_def)
  ultimately show ?thesis using v(2) by (intro exI [of _ e]) (simp add: send_error_clean has_def sent_def)
next
  case False
  have "refused s D c (operation E request)"
    using assms(4) False unfolding operation_def Let_def keyless_operations_def
    by (simp add: refused_requests [OF assms(2)] refused_fail)
  then obtain e v where "operation E request w = (Inl e, v)" "has s D c v" using assms(1) unfolding refused_def by blast
  with Handle_answer [OF False assms(3) this(1)] show ?thesis
    by (intro exI [of _ e]) (simp add: has_def sent_def answer_of_def)
qed

end
