(* ===== verification/BrokerHold.thy ===== *)
theory BrokerHold
  imports BrokerLock
begin

section \<open>The power hold and the lock\<close>

text \<open>
  The invariant that ties the hold on idle sleep to an unlocked vault, through every request and every
  history of a broker. \<open>maintains I m\<close> says that an operation preserves a predicate of the broker's
  state; the only requests that do more than leave the part of the state it is about alone are \<open>unlock\<close>
  and \<open>lock\<close>.
\<close>

subsection \<open>The hold on idle sleep\<close>

text \<open>The power manager is in order, and it holds an inhibitor only while the vault is unlocked.\<close>

definition hold_inv :: "bstate \<Rightarrow> bool" where
  "hold_inv b \<longleftrightarrow> power_inv (br_power (bs_broker b), bs_os b)
     \<and> (Active (br_power (bs_broker b)) \<longrightarrow> (\<exists>s. br_store (bs_broker b) = Some s \<and> IsUnlocked s))"

text \<open>The part of the state that the invariant is about.\<close>

definition hold_part :: "bstate \<Rightarrow> Store option \<times> manager \<times> os" where
  "hold_part b = (br_store (bs_broker b), br_power (bs_broker b), bs_os b)"

definition maintains :: "(bstate \<Rightarrow> bool) \<Rightarrow> 'a bro \<Rightarrow> bool" where
  "maintains I m \<longleftrightarrow> (\<forall>w. I (w_db w) \<longrightarrow> I (w_db (snd (m w))))"

named_theorems maintain_intros \<open>rules for invariants of the broker's state\<close>

lemma maintainsD: "maintains I m \<Longrightarrow> m w = (r, w') \<Longrightarrow> I (w_db w) \<Longrightarrow> I (w_db w')"
  unfolding maintains_def by (metis snd_conv)

lemma maintains_bnd [maintain_intros]:
  assumes "maintains I m" and "\<And>x. maintains I (g x)"
  shows "maintains I (bnd m g)"
  unfolding maintains_def
proof (intro allI impI)
  fix w :: "bstate world" assume "I (w_db w)"
  moreover obtain r v where m: "m w = (r, v)" by (cases "m w")
  ultimately show "I (w_db (snd (bnd m g w)))"
    using maintainsD [OF assms(1) m] assms(2) by (cases r) (simp_all add: bnd_def maintains_def)
qed

lemma maintains_on_error [maintain_intros]:
  assumes "maintains I m" and "\<And>e. maintains I (h e)"
  shows "maintains I (on_error m h)"
  unfolding maintains_def
proof (intro allI impI)
  fix w :: "bstate world" assume "I (w_db w)"
  moreover obtain r v where m: "m w = (r, v)" by (cases "m w")
  ultimately show "I (w_db (snd (on_error m h w)))"
    using maintainsD [OF assms(1) m] assms(2) by (cases r) (simp_all add: on_error_def maintains_def)
qed

lemma maintains_let [maintain_intros]: "(\<And>x. maintains I (g x)) \<Longrightarrow> maintains I (let x = v in g x)"
  by simp

lemma maintains_prod [maintain_intros]: "(\<And>x y. maintains I (g x y)) \<Longrightarrow> maintains I (case p of (x, y) \<Rightarrow> g x y)"
  by (cases p) simp

lemma hold_inv_part: "hold_part b = hold_part b' \<Longrightarrow> hold_inv b \<longleftrightarrow> hold_inv b'"
  by (simp add: hold_inv_def hold_part_def)

lemma maintains_hold: "preserves hold_part m \<Longrightarrow> maintains hold_inv m"
  unfolding maintains_def preserves_def using hold_inv_part by metis

lemma preserves_send [preserve_intros]: "(\<And>b c. f (b\<lparr>bs_conn := c\<rparr>) = f b) \<Longrightarrow> preserves f (send r)"
  by (auto simp: preserves_def send_def split: prod.split)

lemma preserves_run_process [preserve_intros]:
  "(\<And>b c. f (b\<lparr>bs_conn := c\<rparr>) = f b) \<Longrightarrow> preserves f (run_process E action vals)"
  by (auto simp: preserves_def run_process_def split: prod.split)

lemma hold_part_simps [simp]:
  "hold_part (b\<lparr>bs_conn := c\<rparr>) = hold_part b" "hold_part (b\<lparr>bs_disk := d\<rparr>) = hold_part b"
  by (simp_all add: hold_part_def)

lemma preserves_hold_vault: "preserves hold_part (on_disk m)"
  by (intro preserve_intros) simp

lemma maintains_getStore: "maintains hold_inv getStore"
  unfolding maintains_def
proof (intro allI impI)
  fix w :: "bstate world" assume I: "hold_inv (w_db w)"
  show "hold_inv (w_db (snd (getStore w)))"
  proof (cases "br_store (bs_broker (w_db w))")
    case (Some s)
    then show ?thesis using I by (simp add: getStore_run)
  next
    case None
    obtain r v where o: "on_disk (OpenVault (br_vaultPath (bs_broker (w_db w)))) w = (r, v)"
      by (cases "on_disk (OpenVault (br_vaultPath (bs_broker (w_db w)))) w")
    have "hold_part (w_db v) = hold_part (w_db w)" by (rule preservesD [OF preserves_hold_vault o])
    then show ?thesis using I None o
      by (cases r) (auto simp: getStore_def bnd_def look_def wrap_error_def on_error_def fail_def change_state_def ret_def
          set_store_def hold_inv_def hold_part_def)
  qed
qed

lemma maintains_simple [maintain_intros]:
  "maintains hold_inv (ret x)" "maintains hold_inv (fail e)" "maintains hold_inv (lift r)" "maintains hold_inv (random f)"
  "maintains hold_inv (look h)" "maintains hold_inv (require eo)" "maintains hold_inv (on_disk m)"
  "maintains hold_inv (send resp)" "maintains hold_inv (run_process E action vals)"
  by (intro maintains_hold preserve_intros preserves_hold_vault; simp)+

lemma maintains_ignore [maintain_intros]: "maintains hold_inv m \<Longrightarrow> maintains hold_inv (ignore m)"
  unfolding ignore_def by (intro maintain_intros)

lemma maintains_if [maintain_intros]: "maintains I m \<Longrightarrow> maintains I n \<Longrightarrow> maintains I (if b then m else n)"
  by simp

lemma maintains_status: "maintains hold_inv do_status"
  unfolding do_status_def Broker_status_def by (intro maintain_intros maintains_getStore)

lemma Unlock_unlocks: "Unlock P s password v = (Inr s', v') \<Longrightarrow> IsUnlocked s'"
  by (auto simp: Unlock_def IsUnlocked_def ret_Inr bnd_Inr lift_Inr installKeysLocked_def and_then_Inr split: if_splits)

lemma on_vault_Inr: "on_vault m w = (Inr x, w') \<Longrightarrow> \<exists>v v'. m v = (Inr x, v')"
  by (auto simp: on_disk_def on_file_def split: prod.splits option.splits)

text \<open>Unlocking: the store that is installed is unlocked, and then the hold may start.\<close>

lemma maintains_install:
  assumes "IsUnlocked s" and "\<And>x. maintains hold_inv (g x)"
  shows "maintains hold_inv (bnd (change_state (set_store (Some s))) g)"
  using assms by (simp add: maintains_def bnd_def change_state_def set_store_def hold_inv_def)

lemma maintains_unlock_tail:
  assumes "\<And>x. IsUnlocked x \<Longrightarrow> maintains hold_inv (g x)"
  shows "maintains hold_inv (bnd (on_vault (Unlock P s password)) g)"
  unfolding maintains_def
proof (intro allI impI)
  fix w :: "bstate world" assume I: "hold_inv (w_db w)"
  obtain r v where m: "on_vault (Unlock P s password) w = (r, v)" by (cases "on_vault (Unlock P s password) w")
  have v: "hold_inv (w_db v)" by (rule maintainsD [OF maintains_simple(7) m I])
  show "hold_inv (w_db (snd (bnd (on_vault (Unlock P s password)) g w)))"
  proof (cases r)
    case (Inr x)
    then obtain u u' where "Unlock P s password u = (Inr x, u')"
      using m on_vault_Inr [of "Unlock P s password" w x v] by auto
    then have "IsUnlocked x" by (rule Unlock_unlocks)
    then show ?thesis using assms v m Inr unfolding maintains_def by (simp add: bnd_def)
  qed (use v m in \<open>simp add: bnd_def\<close>)
qed

text \<open>Starting the hold keeps the invariant only in a state whose vault is unlocked.\<close>

lemma power_Start_hold:
  assumes "inhibitor (en_acquire E)" and "hold_inv (w_db w)" and "br_store (bs_broker (w_db w)) = Some s" and "IsUnlocked s"
  shows "hold_inv (w_db (snd (power_Start E w)))"
  using inhibitor.Start_inv [OF assms(1), of "br_power (bs_broker (w_db w))" "bs_os (w_db w)" "bs_starts (w_db w)"] assms(2-4)
  by (auto simp: power_Start_def hold_inv_def Let_def split: prod.split)

lemma maintains_start:
  assumes "inhibitor (en_acquire E)" and "IsUnlocked s" and "\<And>x. maintains hold_inv (g x)"
  shows "maintains hold_inv (bnd (change_state (set_store (Some s))) (\<lambda>_. bnd (power_Start E) g))"
  unfolding maintains_def
proof (intro allI impI)
  fix w :: "bstate world" assume I: "hold_inv (w_db w)"
  let ?v = "w\<lparr>w_db := set_store (Some s) (w_db w)\<rparr>"
  have "hold_inv (w_db ?v)" using I assms(2) by (simp add: hold_inv_def set_store_def)
  from power_Start_hold [OF assms(1) this, of s] have u: "hold_inv (w_db (snd (power_Start E ?v)))"
    using assms(2) by (simp add: set_store_def)
  obtain r u where "power_Start E ?v = (r, u)" by (cases "power_Start E ?v")
  then show "hold_inv (w_db (snd (bnd (change_state (set_store (Some s))) (\<lambda>_. bnd (power_Start E) g) w)))"
    using u assms(3) by (cases r) (simp_all add: bnd_def change_state_def maintains_def)
qed

lemma maintains_stop: "(\<And>x. maintains hold_inv (g x)) \<Longrightarrow>
    maintains hold_inv (bnd (change_state (set_store so)) (\<lambda>_. bnd power_Stop g))"
  using Stop_inv by (auto simp: maintains_def bnd_def change_state_def power_Stop_def set_store_def hold_inv_def Stop_def
      Active_def Let_def)

lemma maintains_requests:
  "maintains hold_inv do_lock" "maintains hold_inv (do_write_secret E create raw)" "maintains hold_inv (do_revoke E raw)"
  "maintains hold_inv (do_list_secrets E raw)" "maintains hold_inv (do_configure E raw)"
  "maintains hold_inv (do_list_actions E raw)" "maintains hold_inv (do_audit E raw)" "maintains hold_inv (do_run E raw)"
  "maintains hold_inv (send_error e)" "maintains hold_inv (send_done v)"
  unfolding do_lock_def do_write_secret_def do_revoke_def do_list_secrets_def do_configure_def do_list_actions_def
    do_audit_def do_run_def runAction_def send_error_def send_done_def
  by (intro maintains_stop maintains_status maintains_getStore maintain_intros)+

lemma maintains_do_unlock: "inhibitor (en_acquire E) \<Longrightarrow> maintains hold_inv (do_unlock E raw)"
  unfolding do_unlock_def by (intro maintains_unlock_tail maintains_start maintains_status maintains_getStore maintain_intros)

lemma maintains_respond: "maintains hold_inv m \<Longrightarrow> maintains hold_inv (respond m)"
  unfolding maintains_def respond_def
proof (intro allI impI)
  fix w :: "bstate world" assume m: "\<forall>w. hold_inv (w_db w) \<longrightarrow> hold_inv (w_db (snd (m w)))" and I: "hold_inv (w_db w)"
  obtain r v where "m w = (r, v)" by (cases "m w")
  then show "hold_inv (w_db (snd (case m w of (Inl err, w') \<Rightarrow> send_error err w' | (Inr v, w') \<Rightarrow> send_done v w')))"
    using m I maintains_requests(9,10) unfolding maintains_def by (cases r) force+
qed

lemma maintains_Handle: "inhibitor (en_acquire E) \<Longrightarrow> maintains hold_inv (Handle E request)"
  unfolding Handle_def Let_def
  by (simp add: maintains_respond maintains_requests maintains_do_unlock maintains_status)

subsection \<open>Histories of a broker\<close>

text \<open>
  The states a broker can be in between requests: it is started on some disk, it handles requests, each
  with an environment of its own, over connections and with a vault file that others may have changed,
  and it is closed. \<open>acquire\<close> is the platform's.
\<close>

inductive reachable :: "(nat \<Rightarrow> os \<Rightarrow> acquired) \<Rightarrow> bstate \<Rightarrow> bool" for acquire where
  started: "New path w = (Inr b, w') \<Longrightarrow>
    reachable acquire \<lparr>bs_broker = b, bs_disk = w_db w', bs_os = snd boot, bs_starts = 0, bs_conn = c\<rparr>"
| handled: "reachable acquire b \<Longrightarrow> en_acquire E = acquire \<Longrightarrow> w_db w = b\<lparr>bs_disk := d, bs_conn := c\<rparr> \<Longrightarrow>
    Handle E request w = (r, w') \<Longrightarrow> reachable acquire (w_db w')"
| closed: "reachable acquire b \<Longrightarrow> w_db w = b \<Longrightarrow> Broker_Close w = (r, w') \<Longrightarrow> reachable acquire (w_db w')"

inductive_cases reachable_cases: "reachable acquire b"

lemma New_locked:
  assumes "New path w = (Inr b, w')"
  shows "br_power b = new_manager" "\<And>s. br_store b = Some s \<Longrightarrow> \<not> IsUnlocked s"
proof -
  obtain now where b: "b = \<lparr>br_vaultPath = path, br_store = None, br_startedAt = now, br_power = new_manager\<rparr>
      \<or> (\<exists>s v v'. OpenVault path v = (Inr s, v') \<and> b = \<lparr>br_vaultPath = path, br_store = Some s, br_startedAt = now, br_power = new_manager\<rparr>)"
    using assms by (auto simp: New_def bnd_Inr on_error_Inr ret_Inr fail_Inr time_now_def Let_def split: if_splits)
  then show "br_power b = new_manager" by auto
  have "st_keys s = None" if "OpenVault path v = (Inr s, v')" for s and v v' :: "disk world"
    using that by (auto simp: OpenVault_def bnd_Inr ret_Inr fail_Inr openDatabase_def split: if_splits)
  then show "\<And>s. br_store b = Some s \<Longrightarrow> \<not> IsUnlocked s" using b by (auto simp: IsUnlocked_def)
qed

lemma maintains_Close: "maintains hold_inv Broker_Close"
  using Stop_inv by (auto simp: maintains_def Broker_Close_def bnd_def change_state_def power_Stop_def hold_inv_def Stop_def
      Active_def Let_def set_store_def split: option.split)

lemma reachable_hold:
  assumes "reachable acquire b" and "inhibitor acquire"
  shows "hold_inv b"
  using assms(1)
proof (induction rule: reachable.induct)
  case (started path w b w' c)
  then show ?case using New_locked [OF started]
    by (simp add: hold_inv_def power_inv_def boot_def new_manager_def Active_def)
next
  case (handled b E w d c request r w')
  then have "hold_inv (w_db w)" by (simp add: hold_inv_def)
  then show ?case using maintainsD [OF maintains_Handle handled(4)] handled(2) assms(2) by simp
next
  case (closed b w r w')
  then show ?case using maintainsD [OF maintains_Close closed(3)] by simp
qed

end
