(* ===== verification/BrokerRace.thy ===== *)
theory BrokerRace
  imports BrokerHold
begin

section \<open>Unlocking and locking at the same time\<close>

text \<open>
  The broker serves every connection in a goroutine of its own (\<open>ipc.Serve\<close>), and neither \<open>unlock\<close> nor \<open>lock\<close>
  is one step: each changes the store under the store's mutex and then the power manager under the
  manager's. The two steps of each are tasks here, and \<open>step\<close> runs any task that is under way, so its
  sequences are the interleavings of any number of these requests.
\<close>

definition unlock_install :: "setting \<Rightarrow> jv option \<Rightarrow> unit bro" where
  "unlock_install E raw =
     bnd (lift (unmarshal_raw unlock_fields \<lparr>ur_password = None\<rparr> raw)) (\<lambda>payload.
     bnd getStore (\<lambda>store.
     bnd (on_vault (Unlock (en_prims E) store (case ur_password payload of None \<Rightarrow> [] | Some b \<Rightarrow> b))) (\<lambda>store'.
     change_state (set_store (Some store')))))"

definition lock_clear :: "unit bro" where
  "lock_clear = bnd getStore (\<lambda>store. change_state (set_store (Some (snd (Lock store)))))"

lemma bnd_assoc: "bnd (bnd m f) g = bnd m (\<lambda>x. bnd (f x) g)"
  by (rule ext) (simp add: bnd_def split: prod.split sum.split)

text \<open>The two requests are their two steps and the status they answer.\<close>

lemma unlock_lock_steps:
  "do_unlock E raw = bnd (unlock_install E raw) (\<lambda>_. bnd (power_Start E) (\<lambda>_. do_status))"
  "do_lock = bnd lock_clear (\<lambda>_. bnd power_Stop (\<lambda>_. do_status))"
  by (simp_all add: do_unlock_def unlock_install_def do_lock_def lock_clear_def bnd_assoc)

datatype task = Unlocking "jv option" | Holding | Locking | Releasing

fun stage :: "setting \<Rightarrow> task \<Rightarrow> task option bro" where
  "stage E (Unlocking raw) = bnd (unlock_install E raw) (\<lambda>_. ret (Some Holding))"
| "stage E Holding = bnd (power_Start E) (\<lambda>_. ret None)"
| "stage E Locking = bnd lock_clear (\<lambda>_. ret (Some Releasing))"
| "stage E Releasing = bnd power_Stop (\<lambda>_. ret None)"

definition follow :: "task option result \<Rightarrow> task list" where
  "follow r = (case r of Inr (Some t) \<Rightarrow> [t] | _ \<Rightarrow> [])"

inductive step :: "setting \<Rightarrow> bstate world \<times> task list \<Rightarrow> bstate world \<times> task list \<Rightarrow> bool" for E where
  stepI: "stage E t w = (r, w') \<Longrightarrow> step E (w, ts @ t # us) (w', ts @ follow r @ us)"

inductive_cases stepE: "step E (w, ts) (w', ts')"

subsection \<open>What every interleaving keeps\<close>

definition power_part :: "bstate \<Rightarrow> manager \<times> os" where
  "power_part b = (br_power (bs_broker b), bs_os b)"

lemma power_part_simps [simp]:
  "power_part (set_store s b) = power_part b" "power_part (b\<lparr>bs_disk := d\<rparr>) = power_part b"
  by (simp_all add: power_part_def set_store_def)

lemma preserves_power_part:
  "preserves power_part (unlock_install E raw)" "preserves power_part lock_clear"
  unfolding unlock_install_def lock_clear_def getStore_def by (intro preserve_intros; simp)+

lemma stage_power:
  assumes "inhibitor (en_acquire E)" and "power_inv (power_part (w_db w))" and "stage E t w = (r, w')"
  shows "power_inv (power_part (w_db w'))"
proof -
  have keep: "power_part (w_db (snd (bnd m (\<lambda>_. ret x) w))) = power_part (w_db w)"
    if "preserves power_part m" for m :: "unit bro" and x :: "task option"
  proof -
    have "preserves power_part (bnd m (\<lambda>_. ret x))" by (intro preserves_bnd that preserves_base)
    then show ?thesis by (simp add: preserves_def)
  qed
  show ?thesis
  proof (cases t)
    case (Unlocking raw)
    then show ?thesis using keep [OF preserves_power_part(1), of E raw "Some Holding"] assms(2,3) by simp
  next
    case Holding
    then show ?thesis
      using assms(2,3) inhibitor.Start_inv [OF assms(1), of "br_power (bs_broker (w_db w))" "bs_os (w_db w)" "bs_starts (w_db w)"]
      by (auto simp: power_part_def bnd_def power_Start_def ret_def Let_def split: prod.splits option.splits)
  next
    case Locking
    then show ?thesis using keep [OF preserves_power_part(2), of "Some Releasing"] assms(2,3) by simp
  next
    case Releasing
    then show ?thesis
      using assms(2,3) Stop_inv [of "br_power (bs_broker (w_db w))" "bs_os (w_db w)"]
      by (auto simp: power_part_def bnd_def power_Stop_def change_state_def ret_def split: prod.splits)
  qed
qed

lemma steps_power:
  assumes "(step E)\<^sup>*\<^sup>* (w, ts) (w', ts')" and "inhibitor (en_acquire E)" and "power_inv (power_part (w_db w))"
  shows "power_inv (power_part (w_db w'))"
  using assms(1,3)
proof (induction rule: rtranclp_induct2)
  case (step v ts1 v' ts2)
  from step.hyps(2) obtain t r where "stage E t v = (r, v')" by (auto elim: stepE)
  with stage_power [OF assms(2)] step show ?case by blast
qed simp

end
