(* ===== verification/BrokerProps.thy ===== *)
theory BrokerProps
  imports BrokerRace
begin

section \<open>The properties of the broker\<close>

text \<open>
  What a client of the broker can rely on: every request is answered once, the output of an approved
  action hides the secrets it was given, locking and the master password protect the vault, and the names
  that pass validation are unambiguous wherever they are used.
\<close>

subsection \<open>A broker to try them on\<close>

definition demo_setting :: setting where
  "demo_setting = \<lparr>en_prims = demo_prims, en_acquire = (\<lambda>_. acquire_darwin None), en_environ = [''PATH=/bin'', ''AWS_KEY=x''],
     en_child = (\<lambda>_. \<lparr>ch_writes = [(False, bytes_of ''pw=hun''), (True, bytes_of ''oops''), (False, bytes_of ''ter2!'')],
       ch_end = None\<rparr>),
     en_ctx_err = None, en_order = (\<lambda>m. m)\<rparr>"

definition demo_broker :: Broker where
  "demo_broker = \<lparr>br_vaultPath = ''vault.db'', br_store = Some demo_store, br_startedAt = demo_clock 0, br_power = new_manager\<rparr>"

definition demo_bstate :: bstate where
  "demo_bstate = \<lparr>bs_broker = demo_broker, bs_disk = Some (w_db demo), bs_os = snd boot, bs_starts = 0,
     bs_conn = \<lparr>cn_sent = [], cn_faults = []\<rparr>\<rparr>"

definition demo_session :: "bstate world" where
  "demo_session = with_db demo demo_bstate"

lemma demo_session_simps [simp]:
  "w_db demo_session = demo_bstate" "w_faults demo_session = []" "bs_conn demo_bstate = \<lparr>cn_sent = [], cn_faults = []\<rparr>"
  "bs_broker demo_bstate = demo_broker" "br_store demo_broker = Some demo_store" "bs_disk demo_bstate = Some (w_db demo)"
  "br_startedAt demo_broker = demo_clock 0"
  by (simp_all add: demo_session_def demo_bstate_def demo_broker_def)

subsection \<open>Answers\<close>

text \<open>
  C1: Every request is answered once: whatever the operation, the payload and the state, and whatever fails
  in the vault, the operating system or the child process, \<open>Handle\<close> returns after it has sent events of
  a run, none of them final, and then exactly one final response, as long as the connection takes them;
  requests other than \<open>run\<close> send nothing but the final response.
\<close>


theorem Handle_one_final:
  assumes "cn_faults (bs_conn (w_db w)) = []"
  shows "\<exists>q r w'. Handle E request w = (Inr (), w') \<and> sent w' = sent w @ q @ [r]
    \<and> rs_final r \<and> (\<forall>e\<in>set q. rs_ok e \<and> \<not> rs_final e \<and> rs_event e \<in> {''stdout'', ''stderr''})
    \<and> (rq_operation request \<noteq> ''run'' \<longrightarrow> q = [])"
proof (cases "rq_operation request = ''run''")
  case True
  obtain w' where run: "Handle E request w = (Inr (), w')"
    using Handle_Inr [of E request w] by (cases "Handle E request w") simp
  with Handle_answers [OF assms, of E request] obtain q r where
    "sent w' = sent w @ q @ [r]" "events_only q" "rs_final r" by (auto simp: answers_def)
  moreover have "rs_ok e \<and> \<not> rs_final e \<and> rs_event e \<in> {''stdout'', ''stderr''}" if e: "e \<in> set q" for e
  proof -
    obtain b p where "e = event_response (event_of b) p" using e \<open>events_only q\<close> unfolding events_only_def by blast
    then show ?thesis by (cases b) (simp_all add: event_response_def zero_Response_def)
  qed
  ultimately show ?thesis using run True by blast
next
  case False
  obtain res v where "operation E request w = (res, v)" by (cases "operation E request w")
  from Handle_answer [OF False assms this] show ?thesis by (auto simp: sent_def intro!: exI [of _ "[]"])
qed

theorem Handle_one_final_witness:
  "\<exists>r w'. Handle demo_setting (zero_Request\<lparr>rq_operation := ''status''\<rparr>) demo_session = (Inr (), w') \<and> sent w' = [r] \<and> rs_final r"
  using Handle_one_final [of demo_session demo_setting "zero_Request\<lparr>rq_operation := ''status''\<rparr>"]
  by (auto simp: sent_def)

subsection \<open>Runs\<close>

lemma run_request_decodes:
  "unmarshal_raw action_request_fields zero_ActionRequest (Some (action_request_json r)) = Inr r"
  by (cases r; cases "aq_scope r")
    (simp add: unmarshal_raw_def decode_struct_def action_request_json_def action_request_fields_def scope_json_def
      scope_fields_def find_field_def struct_field_def zero_ActionRequest_def)

definition demo_shown :: Action where
  "demo_shown = demo_action\<lparr>ac_name := ''show'', ac_output_policy := ''redacted''\<rparr>"

definition demo_secret :: bytes where
  "demo_secret = bytes_of ''hunter2!''"

definition demo_run :: Request where
  "demo_run = zero_Request\<lparr>rq_operation := ''run'',
     rq_payload := Some (action_request_json \<lparr>aq_scope = demo_scope, aq_name = ''show''\<rparr>)\<rparr>"

lemma demo_shown_ok: "action_input_ok demo_shown" "required_fields demo_shown"
  using demo_action_ok by (simp_all add: demo_shown_def action_input_ok_def action_ok_def required_fields_def ascii_valid_utf8 ascii_def)

text \<open>A vault with the secret \<open>db\<close> and the action \<open>show\<close>, which prints it.\<close>

lemma demo_vault:
  obtains m a and w :: "database world" where "secret_at demo_prims demo_keys (w_db w) (scope_token demo_prims demo_keys demo_scope ''db'') = Some (m, Some demo_secret)"
    "action_at demo_prims demo_keys (w_db w) (actionLookup demo_prims (ks_lookup demo_keys) ''shop'' ''dev'' ''show'') = Some a"
    "vault_inv demo_prims demo_keys (w_db w)" "w_faults w = []" "ac_secrets a = Some [(''DB'', ''db'')]" "ac_output_policy a = ''redacted''"
    "ac_name a = ''show''"
proof -
  obtain m v where c: "CreateSecret demo_prims demo_store demo_meta demo_secret demo = (Inr m, v)"
    "grown demo v 80 2 [drawn demo 0] [drawn demo 40]" "vault_inv demo_prims demo_keys (w_db v)"
    "secret_at demo_prims demo_keys (w_db v) = (secret_at demo_prims demo_keys (w_db demo))(secret_token demo_prims demo_keys demo_meta \<mapsto> (m, Some demo_secret))"
    by (rule live_create [OF demo_prims_ok demo_keys_of demo_keys_ok demo_inv demo_plenty demo_names(1,3,2) demo_empty])
  note g = grown_ids [OF c(2)] grown_drawn [OF c(2)] c(2) [unfolded grown_def]
  have none: "action_at demo_prims demo_keys (w_db v) tok = None" for tok
    using CreateSecret_actions [OF demo_keys_of c(1)] demo_no_action by metis
  have audit: "can_audit v 40 1" and new: "drawn v 0 \<notin> ob_id ` set (db_objects (w_db v))"
    using g demo_drawn [of 136 80] demo_drawn [of 96 0] by (simp_all add: can_audit_def year_ok demo_time)
  have clock: "valid_time (w_clock v n)" for n using g by (simp add: demo_time)
  have "\<forall>r\<in>set (db_objects (w_db v)). ob_revision r < 1 + 1" by (rule grown_revisions [OF c(2)]) simp_all
  then have roomy: "roomy (w_db v)" using g by (fastforce simp: roomy_def)
  obtain a w where put: "PutAction demo_prims demo_store demo_shown v = (Inr a, w)" "w_faults w = []"
    using PutAction_succeeds [OF demo_prims_ok demo_keys_of demo_keys_ok c(3) demo_shown_ok(2) none _ audit new] clock
    by (auto simp: year_ok)
  have r: "\<exists>i since. a = stored_action demo_shown i since (w_clock v (w_ticks v))" "vault_inv demo_prims demo_keys (w_db w)"
    "secret_at demo_prims demo_keys (w_db w) = secret_at demo_prims demo_keys (w_db v)"
    "action_at demo_prims demo_keys (w_db w) (action_token demo_prims demo_keys demo_shown) = Some a"
    using PutAction_refine [OF demo_prims_ok demo_keys_of demo_keys_ok c(3) roomy demo_shown_ok(1) clock put(1)] by auto
  show thesis
    by (rule that [of w m a])
      (use r put(2) c(4) in \<open>auto simp: action_token_def secret_token_def demo_shown_def demo_action_def demo_scope_def demo_meta_def
        zero_SecretMetadata_def stored_action_def\<close>)
qed

lemma demo_ready:
  obtains a d and w :: "bstate world" where "unlocked demo_prims demo_keys demo_store d w"
    "action_at demo_prims demo_keys d (actionLookup demo_prims (ks_lookup demo_keys) ''shop'' ''dev'' ''show'') = Some a"
    "collect (resolved demo_prims demo_keys d demo_scope) (case ac_secrets a of None \<Rightarrow> [] | Some m \<Rightarrow> m) = Inr [(''DB'', demo_secret)]"
    "ac_output_policy a = ''redacted''" "ac_name a = ''show''" "sent w = []"
proof -
  obtain m a and v :: "database world" where
    v: "secret_at demo_prims demo_keys (w_db v) (scope_token demo_prims demo_keys demo_scope ''db'') = Some (m, Some demo_secret)"
    "action_at demo_prims demo_keys (w_db v) (actionLookup demo_prims (ks_lookup demo_keys) ''shop'' ''dev'' ''show'') = Some a"
    "vault_inv demo_prims demo_keys (w_db v)" "w_faults v = []" "ac_secrets a = Some [(''DB'', ''db'')]" "ac_output_policy a = ''redacted''"
    "ac_name a = ''show''"
    by (rule demo_vault)
  have "unlocked demo_prims demo_keys demo_store (w_db v) (with_db v (demo_bstate\<lparr>bs_disk := Some (w_db v)\<rparr>))"
    using v(3,4) by (simp add: unlocked_def demo_keys_of)
  moreover have "collect (resolved demo_prims demo_keys (w_db v) demo_scope) [(''DB'', ''db'')] = Inr [(''DB'', demo_secret)]"
    using v(1) by (simp add: resolved_def and_then_def)
  ultimately show thesis using that [of "w_db v" _ a] v by (simp add: sent_def)
qed

text \<open>
  A run does what the action says. When the broker has the vault unlocked, the action exists and each of
  its secrets has an active value, \<open>run\<close> starts the action's executable with its arguments in its
  directory, and is answered with its exit code, marked OK exactly when the process succeeded; before
  that come, for the policy \<open>redacted\<close>, events whose text, stream by stream, is what a redacting writer
  makes of the writes of the child, however the two streams interleave, and for \<open>metadata\<close> nothing.
\<close>

theorem run_reports:
  assumes "unlocked (en_prims E) k s d w" and "rq_operation request = ''run''"
    and "unmarshal_raw action_request_fields zero_ActionRequest (rq_payload request) = Inr payload"
    and "action_at (en_prims E) k d (actionLookup (en_prims E) (ks_lookup k) (sc_project (aq_scope payload))
          (sc_environment (aq_scope payload)) (aq_name payload)) = Some action"
    and "collect (resolved (en_prims E) k d (aq_scope payload))
          (en_order E (case ac_secrets action of None \<Rightarrow> [] | Some m \<Rightarrow> m)) = Inr vals"
  shows "\<exists>q r w'. Handle E request w = (Inr (), w') \<and> sent w' = sent w @ q @ [r] \<and> rs_final r
    \<and> rs_data r = Some (run_result_json \<lparr>rr_action = ac_name action, rr_exit_code = fst (run_outcome E action vals)\<rparr>)
    \<and> (rs_ok r \<longleftrightarrow> ch_end (en_child E (run_call E action vals)) = None)
    \<and> (ac_output_policy action = ''redacted'' \<longrightarrow> (\<forall>b. stream_text (event_of b) q = w_dst (snd (write_all buffer_write
          (NewWriter [] (run_values vals)) (written b (ch_writes (en_child E (run_call E action vals))))))))
    \<and> (ac_output_policy action \<noteq> ''redacted'' \<longrightarrow> q = [])"
proof -
  obtain q w' where run: "do_run E (rq_payload request) w = (Inr (), w')" "runs E action vals q"
    "sent w' = sent w @ q @ [run_response action (fst (run_outcome E action vals)) (snd (run_outcome E action vals))]"
    using do_run_found [OF assms(1,3,4,5)] by blast
  then show ?thesis unfolding Handle_run [OF assms(2)]
    by (intro exI [of _ q] exI [of _ w'] exI [of _ "run_response action (fst (run_outcome E action vals)) (snd (run_outcome E action vals))"])
      (auto simp: run_response_def zero_Response_def runs_def delivered_write_all run_outcome_def exit_of_ok split: if_splits)
qed

lemma demo_run_simps:
  "rq_operation demo_run = ''run''" "en_prims demo_setting = demo_prims" "en_order demo_setting m = m"
  "rq_payload demo_run = Some (action_request_json \<lparr>aq_scope = demo_scope, aq_name = ''show''\<rparr>)"
  "ch_writes (en_child demo_setting call) = [(False, bytes_of ''pw=hun''), (True, bytes_of ''oops''), (False, bytes_of ''ter2!'')]"
  "ch_end (en_child demo_setting call) = None" "run_values [(''DB'', demo_secret)] = [demo_secret]"
  "written False [(False, x), (True, y), (False, z)] = [x, z]" "sc_project demo_scope = ''shop''" "sc_environment demo_scope = ''dev''"
  by (simp_all add: demo_run_def zero_Request_def demo_setting_def run_values_def written_def demo_scope_def)

lemma demo_output:
  "w_dst (snd (write_all buffer_write (NewWriter [] [demo_secret]) [bytes_of ''pw=hun'', bytes_of ''ter2!'']))
    = bytes_of ''pw=[REDACTED]''"
  by code_simp

theorem run_reports_witness:
  "\<exists>w q r w'. Handle demo_setting demo_run w = (Inr (), w') \<and> sent w' = q @ [r] \<and> rs_ok r
    \<and> stream_text ''stdout'' q = bytes_of ''pw=[REDACTED]''"
proof -
  obtain a d and w :: "bstate world" where w: "unlocked demo_prims demo_keys demo_store d w"
    "action_at demo_prims demo_keys d (actionLookup demo_prims (ks_lookup demo_keys) ''shop'' ''dev'' ''show'') = Some a"
    "collect (resolved demo_prims demo_keys d demo_scope) (case ac_secrets a of None \<Rightarrow> [] | Some m \<Rightarrow> m) = Inr [(''DB'', demo_secret)]"
    "ac_output_policy a = ''redacted''" "sent w = []"
    by (rule demo_ready)
  obtain q r w' where "Handle demo_setting demo_run w = (Inr (), w')" "sent w' = sent w @ q @ [r]" "rs_ok r"
    "\<forall>b. stream_text (event_of b) q = w_dst (snd (write_all buffer_write (NewWriter [] [demo_secret])
       (written b [(False, bytes_of ''pw=hun''), (True, bytes_of ''oops''), (False, bytes_of ''ter2!'')])))"
    using run_reports [of demo_setting, unfolded demo_run_simps, OF w(1) demo_run_simps(1), unfolded demo_run_simps,
        OF run_request_decodes, simplified, unfolded demo_run_simps, OF w(2,3)] w(4)
    unfolding demo_run_simps by (auto simp: demo_run_simps)
  moreover from this(4) have "stream_text (event_of False) q = bytes_of ''pw=[REDACTED]''"
    unfolding demo_output [symmetric] by (simp only: demo_run_simps)
  ultimately show ?thesis using w(5) by auto
qed


lemma demo_values_ok:
  "separated (w_values (NewWriter ([] :: bytes) [demo_secret]))" "clean_values (w_values (NewWriter ([] :: bytes) [demo_secret]))"
  by code_simp+


text \<open>
  What a program finds for a name in its environment: the last entry of the name counts, as \<open>os/exec\<close>
  keeps the last of duplicate entries.
\<close>

definition env_lookup :: "string list \<Rightarrow> string \<Rightarrow> string option" where
  "env_lookup env n = map_of (rev (map (\<lambda>e. (entry_key e, drop (Suc (length (entry_key e))) e)) env)) n"

lemma env_lookup_append: "env_lookup (xs @ ys) n = (case env_lookup ys n of None \<Rightarrow> env_lookup xs n | Some v \<Rightarrow> Some v)"
  unfolding env_lookup_def by (simp add: map_add_def)

lemma env_lookup_base: "env_lookup (baseEnvironment environ) n = (if n \<in> set allowed_names then env_lookup environ n else None)"
  by (induction environ rule: rev_induct) (auto simp: baseEnvironment_def env_lookup_def)

lemma entry_key_cut: "CHR ''='' \<notin> set n \<Longrightarrow> entry_key (n @ CHR ''='' # v) = n"
proof -
  assume "CHR ''='' \<notin> set n"
  then have "takeWhile (\<lambda>c. c \<noteq> CHR ''='') (n @ CHR ''='' # v) = n @ takeWhile (\<lambda>c. c \<noteq> CHR ''='') (CHR ''='' # v)"
    by (intro takeWhile_append2) auto
  then show ?thesis by (simp add: entry_key_def)
qed

lemma safeEnvName_no_equals: "safeEnvName n \<Longrightarrow> CHR ''='' \<notin> set n"
  by (auto simp: safeEnvName_def name_start_def is_digit_def list_all_iff split: list.splits)

lemma env_lookup_entries:
  assumes "distinct (map fst kvs)" and "\<forall>n\<in>fst ` set kvs. safeEnvName n"
  shows "env_lookup (map secret_entry kvs) n = map_option string_of (map_of kvs n)"
proof -
  have "map (\<lambda>e. (entry_key e, drop (Suc (length (entry_key e))) e)) (map secret_entry kvs) = map (apsnd string_of) kvs"
    using assms(2) by (auto simp: secret_entry_def entry_key_cut safeEnvName_no_equals)
  moreover have "map_of (rev (map (apsnd string_of) kvs)) = map_of (map (apsnd string_of) kvs)"
    using assms(1) by (subst map_of_inject_set) (simp_all add: rev_map [symmetric] comp_def)
  moreover have "map_of (map (apsnd string_of) kvs) n = map_option string_of (map_of kvs n)"
    by (induction kvs) auto
  ultimately show ?thesis unfolding env_lookup_def by metis
qed

lemma map_of_sort_key: "distinct (map fst kvs) \<Longrightarrow> map_of (sort_key fst kvs) = map_of (kvs :: (string \<times> bytes) list)"
  by (subst map_of_inject_set) (simp_all add: distinct_map distinct_sort inj_on_def)

text \<open>
  C40: The child gets the mapped values and the allowed part of the broker's environment: for distinct accepted
  names, a mapped name has its value in the child's environment, even when the broker's has the name too,
  a name of the allow list that is not mapped has what the broker's environment gives it, and no other
  name is set.
\<close>

theorem child_environment_exact:
  assumes "distinct (map fst vals)" and "\<forall>n\<in>fst ` set vals. safeEnvName n"
  shows "env_lookup (child_environment environ vals) n = (case map_of vals n of
      Some v \<Rightarrow> Some (string_of v)
    | None \<Rightarrow> if n \<in> set allowed_names then env_lookup environ n else None)"
proof -
  have d: "distinct (map fst (sort_key fst vals))"
    using assms(1) by (simp add: distinct_map distinct_sort)
  show ?thesis
    unfolding child_environment_def env_lookup_append env_lookup_base
    using env_lookup_entries [OF d] assms(2) map_of_sort_key [OF assms(1)] by (simp split: option.split)
qed

theorem child_environment_exact_witness:
  "env_lookup (child_environment [''PATH=/bin'', ''AWS_KEY=x'', ''HOME=/h''] [(''DB'', demo_secret), (''HOME'', [])]) ''DB'' = Some ''hunter2!''
   \<and> env_lookup (child_environment [''PATH=/bin'', ''AWS_KEY=x'', ''HOME=/h''] [(''DB'', demo_secret), (''HOME'', [])]) ''AWS_KEY'' = None"
proof -
  have "safeEnvName ''DB''" "safeEnvName ''HOME''" by code_simp+
  moreover have "string_of demo_secret = ''hunter2!''" by code_simp
  ultimately show ?thesis
    using child_environment_exact [of "[(''DB'', demo_secret), (''HOME'', [])]" "[''PATH=/bin'', ''AWS_KEY=x'', ''HOME=/h'']"]
    by (simp add: allowed_names_def)
qed

subsection \<open>The lock\<close>

definition demo_locked :: "bstate world" where
  "demo_locked = with_db demo (demo_bstate\<lparr>bs_broker := demo_broker\<lparr>br_store := Some (demo_store\<lparr>st_keys := None\<rparr>)\<rparr>\<rparr>)"

text \<open>
  C8: A locked broker refuses everything that needs a key: any request other than \<open>status\<close>, \<open>unlock\<close> and
  \<open>lock\<close>, whatever its payload, is answered by exactly one response, an error, and the vault file and the
  store stay as they are.
\<close>

theorem locked_broker_refuses:
  assumes "br_store (bs_broker (w_db w)) = Some s" and "\<not> IsUnlocked s" and "cn_faults (bs_conn (w_db w)) = []"
    and "rq_operation request \<notin> {''status'', ''unlock'', ''lock''}"
  shows "\<exists>e w'. Handle E request w = (Inr (), w') \<and> bs_disk (w_db w') = bs_disk (w_db w)
    \<and> br_store (bs_broker (w_db w')) = Some s
    \<and> sent w' = sent w @ [zero_Response\<lparr>rs_error := publicError e, rs_final := True\<rparr>]"
proof -
  have "has s (bs_disk (w_db w)) (bs_conn (w_db w)) w" using assms(1) by (simp add: has_def)
  from locked_answer [OF this _ assms(3), of request E] show ?thesis
    using assms(2,4) by (auto simp: IsUnlocked_def keyless_operations_def)
qed

theorem locked_broker_refuses_witness:
  "\<exists>w'. Handle demo_setting demo_run demo_locked = (Inr (), w') \<and> bs_disk (w_db w') = bs_disk (w_db demo_locked)
    \<and> (\<forall>r\<in>set (sent w'). \<not> rs_ok r)"
  using locked_broker_refuses [of demo_locked "demo_store\<lparr>st_keys := None\<rparr>" demo_run demo_setting]
  by (auto simp: demo_locked_def IsUnlocked_def demo_run_simps sent_def zero_Response_def)

text \<open>
  Requests that only read leave the vault file as it is, whatever happens: only \<open>secret.create\<close>,
  \<open>secret.rotate\<close>, \<open>secret.revoke\<close>, \<open>action.configure\<close> and \<open>run\<close>, which records its event, can change it.
\<close>

theorem reading_requests_keep_vault:
  assumes "rq_operation request \<notin> {''secret.create'', ''secret.rotate'', ''secret.revoke'', ''action.configure'', ''run''}"
  shows "bs_disk (w_db (snd (Handle E request w))) = bs_disk (w_db w)"
proof -
  obtain r v where v: "operation E request w = (r, v)" by (cases "operation E request w")
  have disk: "bs_disk (w_db v) = bs_disk (w_db w)"
    by (rule preservesD [OF operation_reads v]) (use assms in \<open>simp add: writing_operations_def\<close>)
  have "preserves bs_disk (send_error e)" "preserves bs_disk (send_done j)" for e j
    unfolding send_error_def send_done_def by (intro preserve_intros; simp)+
  then show ?thesis using disk v assms unfolding preserves_def
    by (cases r) (simp_all add: Handle_operation respond_def)
qed

theorem reading_requests_keep_vault_witness:
  "bs_disk (w_db (snd (Handle demo_setting (zero_Request\<lparr>rq_operation := ''audit.list''\<rparr>) demo_session))) = Some (w_db demo)"
  using reading_requests_keep_vault [of "zero_Request\<lparr>rq_operation := ''audit.list''\<rparr>" demo_setting demo_session] by simp

text \<open>
  C9: The hold on idle sleep follows the lock: in every state that a broker reaches by handling requests one
  after the other, with any disk, any connection and any failures, exactly one inhibitor is in force when
  the status reports the power hold and none otherwise, and while one is in force the vault is unlocked.
\<close>

theorem hold_only_while_unlocked:
  assumes "reachable acquire b" and "inhibitor acquire"
  shows "length (live (bs_os b)) = (if Active (br_power (bs_broker b)) then 1 else 0) \<and> distinct (released (bs_os b))
    \<and> (live (bs_os b) \<noteq> [] \<longrightarrow> (\<exists>s. br_store (bs_broker b) = Some s \<and> IsUnlocked s))"
  using reachable_hold [OF assms] by (auto simp: hold_inv_def power_inv_def Active_def split: if_splits)

lemma demo_acquire: "inhibitor (en_acquire demo_setting)"
  by unfold_locales (auto simp: demo_setting_def acquire_darwin_def inhibit_def)

theorem hold_only_while_unlocked_witness:
  "\<exists>b w'. reachable (en_acquire demo_setting) b \<and> br_store (bs_broker b) = None
    \<and> live (bs_os b) = [] \<and> New ''vault.db'' (with_db demo None) = (Inr (bs_broker b), w')"
proof -
  let ?b = "\<lparr>br_vaultPath = ''vault.db'', br_store = None, br_startedAt = demo_clock 0, br_power = new_manager\<rparr>"
  have "\<exists>w'. New ''vault.db'' (with_db demo None) = (Inr ?b, w')"
    by (simp add: New_def bnd_def time_now_def Let_def on_error_def OpenVault_def os_Stat_def query_def driver_def wrap_error_def
        fail_def ret_def error_is_def)
  then obtain w' where new: "New ''vault.db'' (with_db demo None) = (Inr ?b, w')" by blast
  let ?s = "\<lparr>bs_broker = ?b, bs_disk = w_db w', bs_os = snd boot, bs_starts = 0, bs_conn = \<lparr>cn_sent = [], cn_faults = []\<rparr>\<rparr>"
  have r: "reachable (en_acquire demo_setting) ?s" by (rule started [OF new])
  from hold_only_while_unlocked [OF r demo_acquire] show ?thesis
    using r new by (intro exI [of _ ?s] exI [of _ w']) auto
qed

text \<open>A broker whose vault was just created and is locked.\<close>

definition pass_request :: "bytes \<Rightarrow> Request" where
  "pass_request pw = zero_Request\<lparr>rq_operation := ''unlock'', rq_payload := Some (unlock_json \<lparr>ur_password = Some pw\<rparr>)\<rparr>"

lemma unlock_request_decodes:
  "unmarshal_raw unlock_fields \<lparr>ur_password = None\<rparr> (Some (unlock_json r)) = Inr r"
  by (cases r) (simp add: unmarshal_raw_def decode_struct_def unlock_json_def unlock_fields_def find_field_def)

lemma demo_init:
  obtains vid salt sl dek since tm k and w :: "disk world" where
    "w_db w = Some (new_vault vid DefaultKDFParams salt sl since tm)" "w_faults w = []" "expand_keys demo_prims dek = Inr k"
    "opens_with demo_prims [1, 2, 3] DefaultKDFParams salt vid sl dek" "w_clock w = demo_clock"
proof -
  let ?w = "with_db (demo_world demo_clock) None :: disk world"
  obtain s w' where run: "Initialize demo_prims ''vault.db'' [1, 2, 3] DefaultKDFParams ?w = (Inr s, w')" "w_faults w' = []"
    using Initialize_run [OF demo_prims_ok, of DefaultKDFParams "[1, 2, 3]" ?w "''vault.db''"]
    by (auto simp: ValidateKDFParams_def DefaultKDFParams_def)
  obtain vid salt sl dek since tm k where new: "w_db w' = Some (new_vault vid DefaultKDFParams salt sl since tm)"
    "expand_keys demo_prims dek = Inr k" "opens_with demo_prims [1, 2, 3] DefaultKDFParams salt vid sl dek"
    using Initialize_new [OF run(1) demo_prims_ok] by blast
  let ?v = "with_db (demo_world demo_clock) (w_db w')"
  show thesis using new by (intro that [of ?v vid salt sl since tm dek k]) simp_all
qed

lemma demo_fresh:
  obtains s0 s d and w :: "bstate world" where "br_store (bs_broker (w_db w)) = Some s0" "\<not> IsUnlocked s0"
    "bs_disk (w_db w) = Some d" "cn_faults (bs_conn (w_db w)) = []" "sent w = []" "br_power (bs_broker (w_db w)) = new_manager"
    "bs_os (w_db w) = snd boot" "Unlock demo_prims s0 [1, 2, 3] (with_db w d) = (Inr s, with_db w d)"
    "IsUnlocked s" "VerifyPassword demo_prims s [] (with_db w d) = (Inl (Errorf ''master password is empty''), with_db w d)"
proof -
  obtain vid salt sl dek since tm k and w' :: "disk world" where new:
    "w_db w' = Some (new_vault vid DefaultKDFParams salt sl since tm)" "w_faults w' = []" "expand_keys demo_prims dek = Inr k"
    "opens_with demo_prims [1, 2, 3] DefaultKDFParams salt vid sl dek"
    by (rule demo_init)
  let ?d = "new_vault vid DefaultKDFParams salt sl since tm" and ?s0 = "\<lparr>st_path = ''vault.db'', st_vaultID = vid, st_keys = None\<rparr>"
  let ?v = "with_db w' (demo_bstate\<lparr>bs_broker := demo_broker\<lparr>br_store := Some ?s0\<rparr>, bs_disk := Some ?d\<rparr>)"
  have un: "Unlock demo_prims ?s0 [1, 2, 3] (with_db ?v ?d) = (Inr (?s0\<lparr>st_keys := Some k\<rparr>), with_db ?v ?d)"
    using Unlock_new [of "with_db ?v ?d", OF _ _ _ new(4,3)] new(2) by simp
  have "select_wrapper ?d = Inr (vault_wrapper DefaultKDFParams salt sl tm)"
    by (simp add: select_wrapper_def on_table_def new_vault_def schema_def latest_def vault_wrapper_def)
  then have "VerifyPassword demo_prims (?s0\<lparr>st_keys := Some k\<rparr>) [] (with_db ?v ?d) = (Inl (Errorf ''master password is empty''), with_db ?v ?d)"
    using new(2) by (simp add: VerifyPassword_def unwrapDEK_def wrap_error_def bnd_def on_error_def query_clean lift_def
        vault_wrapper_def unmarshal_marshal_KDFParams DeriveKEK_def)
  then show thesis using un
    by (intro that [of ?v ?s0 ?d "?s0\<lparr>st_keys := Some k\<rparr>"]) (simp_all add: IsUnlocked_def sent_def demo_bstate_def demo_broker_def)
qed

text \<open>Unlocking in two steps: the keys are installed, and then the hold is started.\<close>

lemma do_unlock_steps:
  assumes "unmarshal_raw unlock_fields \<lparr>ur_password = None\<rparr> raw = Inr \<lparr>ur_password = Some pw\<rparr>"
    and "br_store (bs_broker (w_db w)) = Some s0" and "bs_disk (w_db w) = Some d"
    and "Unlock (en_prims E) s0 pw (with_db w d) = (Inr s, with_db w d)"
  shows "do_unlock E raw w = bnd (power_Start E) (\<lambda>_. do_status) (w\<lparr>w_db := set_store (Some s) (w_db w)\<rparr>)"
  using assms(1) getStore_run [OF assms(2)] on_vault_stays [where m = "Unlock (en_prims E) s0 pw" and w = w and d = d, OF assms(3,4)]
  by (simp add: do_unlock_def bnd_def lift_def change_state_def)

text \<open>
  A failed hold leaves the vault unlocked: when the password is right and the power manager cannot start
  the hold, \<open>unlock\<close> answers an error, but the keys stay installed and no inhibitor is in force. The
  error is the only trace; nothing locks the vault again.
\<close>

theorem failed_hold_leaves_unlocked:
  assumes "rq_operation request = ''unlock''" and "rq_payload request = Some (unlock_json \<lparr>ur_password = Some pw\<rparr>)"
    and "br_store (bs_broker (w_db w)) = Some s0" and "bs_disk (w_db w) = Some d" and "cn_faults (bs_conn (w_db w)) = []"
    and "Unlock (en_prims E) s0 pw (with_db w d) = (Inr s, with_db w d)"
    and "br_power (bs_broker (w_db w)) = new_manager"
    and "en_acquire E (bs_starts (w_db w)) (bs_os (w_db w)) = ((stop, act, Some err), bs_os (w_db w))"
  shows "\<exists>w'. Handle E request w = (Inr (), w') \<and> br_store (bs_broker (w_db w')) = Some s \<and> IsUnlocked s
    \<and> bs_os (w_db w') = bs_os (w_db w)
    \<and> sent w' = sent w @ [zero_Response\<lparr>rs_error := publicError err, rs_final := True\<rparr>]"
proof -
  let ?v = "w\<lparr>w_db := set_store (Some s) (w_db w)\<rparr>"
  let ?u = "?v\<lparr>w_db := (w_db ?v)\<lparr>bs_starts := Suc (bs_starts (w_db ?v))\<rparr>\<rparr>"
  have start: "power_Start E ?v = (Inl err, ?u)"
    using assms(7,8) by (simp add: power_Start_def set_store_def Start_def new_manager_def Let_def)
  have "operation E request w = (Inl err, ?u)"
    using do_unlock_steps [OF unlock_request_decodes assms(3,4,6)] start assms(1,2)
    by (simp add: operation_def bnd_def [of "power_Start E"])
  from Handle_answer [OF _ assms(5) this] show ?thesis
    using assms(1) Unlock_unlocks [OF assms(6)]
    by (simp add: set_store_def sent_def answer_of_def)
qed

theorem failed_hold_leaves_unlocked_witness:
  "\<exists>w w' s. Handle (demo_setting\<lparr>en_acquire := \<lambda>_. acquire_darwin (Some (Errorf ''no caffeinate''))\<rparr>) (pass_request [1, 2, 3]) w = (Inr (), w')
    \<and> br_store (bs_broker (w_db w')) = Some s \<and> IsUnlocked s \<and> live (bs_os (w_db w')) = []"
proof -
  obtain s0 s d and w :: "bstate world" where w: "br_store (bs_broker (w_db w)) = Some s0" "bs_disk (w_db w) = Some d"
    "cn_faults (bs_conn (w_db w)) = []" "Unlock demo_prims s0 [1, 2, 3] (with_db w d) = (Inr s, with_db w d)"
    "br_power (bs_broker (w_db w)) = new_manager" "bs_os (w_db w) = snd boot"
    by (rule demo_fresh)
  show ?thesis
    using failed_hold_leaves_unlocked [OF _ _ w(1-3), of "pass_request [1, 2, 3]" "[1, 2, 3]"
        "demo_setting\<lparr>en_acquire := \<lambda>_. acquire_darwin (Some (Errorf ''no caffeinate''))\<rparr>" s None False "Errorf ''no caffeinate''"] w(4-6)
    by (force simp: pass_request_def acquire_darwin_def demo_setting_def boot_def)
qed

text \<open>
  However many \<open>unlock\<close> and \<open>lock\<close> requests overlap, at most one inhibitor is in force, exactly when the
  manager is active, and none is ended twice.
\<close>

theorem overlapping_one_inhibitor:
  assumes "(step E)\<^sup>*\<^sup>* (w, ts) (w', ts')" and "inhibitor (en_acquire E)"
    and "br_power (bs_broker (w_db w)) = new_manager" and "bs_os (w_db w) = snd boot"
  shows "length (live (bs_os (w_db w'))) = (if Active (br_power (bs_broker (w_db w'))) then 1 else 0)
    \<and> distinct (released (bs_os (w_db w')))"
proof -
  have "power_inv (power_part (w_db w'))"
    by (rule steps_power [OF assms(1,2)]) (simp add: power_part_def assms(3,4) power_inv_def boot_def new_manager_def)
  then show ?thesis by (auto simp: power_part_def power_inv_def Active_def split: if_splits)
qed

theorem overlapping_one_inhibitor_witness:
  "\<exists>w w' ts'. step demo_setting (w, [Unlocking None, Locking]) (w', ts') \<and> live (bs_os (w_db w')) = []"
proof -
  obtain s0 s d and w :: "bstate world" where w: "br_store (bs_broker (w_db w)) = Some s0"
    "br_power (bs_broker (w_db w)) = new_manager" "bs_os (w_db w) = snd boot"
    by (rule demo_fresh)
  obtain r w' where st: "stage demo_setting Locking w = (r, w')" by (cases "stage demo_setting Locking w")
  have step: "step demo_setting (w, [Unlocking None, Locking]) (w', [Unlocking None] @ follow r @ [])"
    using stepI [OF st, of "[Unlocking None]" "[]"] by simp
  then have steps: "(step demo_setting)\<^sup>*\<^sup>* (w, [Unlocking None, Locking]) (w', [Unlocking None] @ follow r @ [])"
    by (rule r_into_rtranclp)
  have "preserves power_part (stage demo_setting Locking)"
    by (simp, intro preserves_bnd preserves_power_part preserves_base)
  then have "power_part (w_db w') = power_part (w_db w)" using st by (rule preservesD)
  then have "\<not> Active (br_power (bs_broker (w_db w')))" using w(2) by (simp add: power_part_def Active_def new_manager_def)
  with overlapping_one_inhibitor [OF steps demo_acquire w(2,3)] step show ?thesis by auto
qed

text \<open>
  C34: Locking while an unlock is under way can leave the computer awake with the vault locked: after the
  unlock has installed the keys a lock clears them and stops the power manager, which has nothing to
  stop, and then the unlock starts the hold. No step fails, the vault is locked, and an inhibitor stays
  in force.
\<close>

theorem hold_outlives_lock:
  assumes "unmarshal_raw unlock_fields \<lparr>ur_password = None\<rparr> raw = Inr \<lparr>ur_password = Some pw\<rparr>"
    and "br_store (bs_broker (w_db w)) = Some s0" and "bs_disk (w_db w) = Some d"
    and "Unlock (en_prims E) s0 pw (with_db w d) = (Inr s, with_db w d)"
    and "br_power (bs_broker (w_db w)) = new_manager" and "bs_os (w_db w) = snd boot"
    and "en_acquire E (bs_starts (w_db w)) (snd boot) = acquire_darwin None (snd boot)"
  shows "\<exists>w'. (step E)\<^sup>*\<^sup>* (w, [Unlocking raw, Locking]) (w', []) \<and> live (bs_os (w_db w')) \<noteq> []
    \<and> (\<exists>s'. br_store (bs_broker (w_db w')) = Some s' \<and> \<not> IsUnlocked s')"
proof -
  define w1 where "w1 = w\<lparr>w_db := set_store (Some s) (w_db w)\<rparr>"
  define w2 where "w2 = w1\<lparr>w_db := set_store (Some (snd (Lock s))) (w_db w1)\<rparr>"
  define w4 where "w4 = snd (power_Start E w2)"
  have 1: "stage E (Unlocking raw) w = (Inr (Some Holding), w1)"
    using assms(1) getStore_run [OF assms(2)]
      on_vault_stays [where m = "Unlock (en_prims E) s0 pw" and w = w and d = d, OF assms(3,4)]
    by (simp add: unlock_install_def bnd_def lift_def change_state_def ret_def w1_def)
  have "br_store (bs_broker (w_db w1)) = Some s" by (simp add: w1_def set_store_def)
  from getStore_run [OF this] have 2: "stage E Locking w1 = (Inr (Some Releasing), w2)"
    by (simp add: lock_clear_def bnd_def change_state_def ret_def w2_def)
  have "power_Stop w2 = (Inr (), w2)"
    by (simp add: power_Stop_def change_state_def Stop_def assms(5) w2_def w1_def set_store_def new_manager_def)
  then have 3: "stage E Releasing w2 = (Inr None, w2)" by (simp add: bnd_def ret_def)
  have 4: "stage E Holding w2 = (Inr None, w4)"
    by (simp add: bnd_def ret_def w4_def power_Start_def w2_def w1_def set_store_def assms(5,6,7) Start_def new_manager_def
        acquire_darwin_def inhibit_def Let_def)
  have "(step E)\<^sup>*\<^sup>* (w, [Unlocking raw, Locking]) (w4, [])"
    using stepI [OF 1, of "[]" "[Locking]"] stepI [OF 2, of "[Holding]" "[]"] stepI [OF 3, of "[Holding]" "[]"] stepI [OF 4, of "[]" "[]"]
    by (simp add: follow_def)
  moreover have "live (bs_os (w_db w4)) \<noteq> []" "br_store (bs_broker (w_db w4)) = Some (snd (Lock s))"
    by (simp_all add: w4_def power_Start_def w2_def w1_def set_store_def assms(5,6,7) Start_def new_manager_def
        acquire_darwin_def inhibit_def Let_def)
  moreover have "\<not> IsUnlocked (snd (Lock s))" by (simp add: IsUnlocked_def Lock_def split: option.split)
  ultimately show ?thesis by blast
qed

theorem hold_outlives_lock_witness:
  "\<exists>w w' s'. (step demo_setting)\<^sup>*\<^sup>* (w, [Unlocking (Some (unlock_json \<lparr>ur_password = Some [1, 2, 3]\<rparr>)), Locking]) (w', [])
    \<and> live (bs_os (w_db w')) \<noteq> [] \<and> br_store (bs_broker (w_db w')) = Some s' \<and> \<not> IsUnlocked s'"
proof -
  obtain s0 s d and w :: "bstate world" where w: "br_store (bs_broker (w_db w)) = Some s0" "bs_disk (w_db w) = Some d"
    "Unlock demo_prims s0 [1, 2, 3] (with_db w d) = (Inr s, with_db w d)"
    "br_power (bs_broker (w_db w)) = new_manager" "bs_os (w_db w) = snd boot"
    by (rule demo_fresh)
  show ?thesis
    using hold_outlives_lock [OF unlock_request_decodes w(1,2), of demo_setting "[1, 2, 3]" s] w(3-5)
    by (auto simp: demo_setting_def)
qed

text \<open>
  Locking takes effect at once: in any state a broker reaches, \<open>lock\<close> leaves the vault file alone, clears
  the keys, ends the inhibitor, and is answered by a status that says so.
\<close>

theorem lock_locks:
  assumes "reachable acquire (w_db w)" and "inhibitor acquire" and "br_store (bs_broker (w_db w)) = Some s"
    and "rq_operation request = ''lock''" and "cn_faults (bs_conn (w_db w)) = []"
    and "t_year (br_startedAt (bs_broker (w_db w))) < 10000"
  shows "\<exists>w' s'. Handle E request w = (Inr (), w') \<and> br_store (bs_broker (w_db w')) = Some s' \<and> \<not> IsUnlocked s'
    \<and> live (bs_os (w_db w')) = [] \<and> bs_disk (w_db w') = bs_disk (w_db w)
    \<and> sent w' = sent w @ [zero_Response\<lparr>rs_ok := True, rs_final := True, rs_data := Some (status_json
        \<lparr>su_initialized = True, su_unlocked = False, su_vault_id = st_vaultID s,
         su_started_at = br_startedAt (bs_broker (w_db w)), su_unlock_mode = ''until-broker-restart'', su_power_hold = False\<rparr>)\<rparr>]"
proof -
  let ?b = "w_db w"
  obtain m os where stop: "Stop (br_power (bs_broker ?b)) (bs_os ?b) = (m, os)" by (cases "Stop (br_power (bs_broker ?b)) (bs_os ?b)")
  have inv: "power_inv (br_power (bs_broker ?b), bs_os ?b)" using reachable_hold [OF assms(1,2)] by (simp add: hold_inv_def)
  have m: "\<not> m_active m" using stop by (auto simp: Stop_def Let_def)
  moreover have "power_inv (m, os)" using Stop_inv [OF inv] stop by simp
  ultimately have live: "live os = []" by (simp add: power_inv_def)
  let ?s = "snd (Lock s)"
  let ?v = "w\<lparr>w_db := (set_store (Some ?s) ?b)\<lparr>bs_broker := (bs_broker (set_store (Some ?s) ?b))\<lparr>br_power := m\<rparr>, bs_os := os\<rparr>\<rparr>"
  have s: "\<not> IsUnlocked ?s" "st_vaultID ?s = st_vaultID s" by (simp_all add: IsUnlocked_def Lock_def split: option.split)
  have locked: "do_lock w = do_status ?v"
    using getStore_run [OF assms(3)] stop
    by (simp add: do_lock_def bnd_def change_state_def power_Stop_def set_store_def)
  have "br_store (bs_broker (w_db ?v)) = Some ?s" by (simp add: set_store_def)
  from getStore_run [OF this] have "do_status ?v = (Inr (status_json
        \<lparr>su_initialized = True, su_unlocked = False, su_vault_id = st_vaultID s,
         su_started_at = br_startedAt (bs_broker ?b), su_unlock_mode = ''until-broker-restart'', su_power_hold = False\<rparr>), ?v)"
    using s m assms(6)
    by (simp add: do_status_def Broker_status_def bnd_def on_error_def ret_def look_def lift_def encode_status_def set_store_def
        Active_def)
  then have "operation E request w = (Inr (status_json
        \<lparr>su_initialized = True, su_unlocked = False, su_vault_id = st_vaultID s,
         su_started_at = br_startedAt (bs_broker ?b), su_unlock_mode = ''until-broker-restart'', su_power_hold = False\<rparr>), ?v)"
    using locked assms(4) by (simp add: operation_def)
  from Handle_answer [OF _ assms(5) this] show ?thesis
    using assms(4) s live by (simp add: sent_def answer_of_def set_store_def zero_Response_def)
qed

lemma demo_started:
  obtains s and w :: "bstate world" where "reachable (en_acquire demo_setting) (w_db w)" "br_store (bs_broker (w_db w)) = Some s"
    "cn_faults (bs_conn (w_db w)) = []" "br_startedAt (bs_broker (w_db w)) = demo_clock 0" "sent w = []"
proof -
  obtain vid salt sl dek since tm k and v :: "disk world" where new:
    "w_db v = Some (new_vault vid DefaultKDFParams salt sl since tm)" "w_faults v = []" "w_clock v = demo_clock"
    by (rule demo_init)
  let ?v = "v\<lparr>w_ticks := 0\<rparr>" and ?s = "\<lparr>st_path = ''vault.db'', st_vaultID = vid, st_keys = None\<rparr>"
  let ?b = "\<lparr>br_vaultPath = ''vault.db'', br_store = Some ?s, br_startedAt = demo_clock 0, br_power = new_manager\<rparr>"
  have "OpenVault ''vault.db'' (?v\<lparr>w_ticks := Suc 0\<rparr>) = (Inr ?s, ?v\<lparr>w_ticks := Suc 0\<rparr>)"
    by (rule OpenVault_new) (use new in simp_all)
  then have "New ''vault.db'' ?v = (Inr ?b, ?v\<lparr>w_ticks := Suc 0\<rparr>)"
    using new(3) by (simp add: New_def bnd_def time_now_def Let_def on_error_def ret_def)
  from started [OF this, of "en_acquire demo_setting" "\<lparr>cn_sent = [], cn_faults = []\<rparr>"]
  show thesis
    by (intro that [of "with_db demo _" ?s]) (auto simp: sent_def)
qed

theorem lock_locks_witness:
  "\<exists>w w' s'. Handle demo_setting (zero_Request\<lparr>rq_operation := ''lock''\<rparr>) w = (Inr (), w')
    \<and> br_store (bs_broker (w_db w')) = Some s' \<and> \<not> IsUnlocked s' \<and> (\<exists>r. sent w' = [r] \<and> rs_ok r)"
proof -
  obtain s and w :: "bstate world" where w: "reachable (en_acquire demo_setting) (w_db w)" "br_store (bs_broker (w_db w)) = Some s"
    "cn_faults (bs_conn (w_db w)) = []" "br_startedAt (bs_broker (w_db w)) = demo_clock 0" "sent w = []"
    by (rule demo_started)
  show ?thesis
    using lock_locks [OF w(1) demo_acquire w(2) _ w(3), of "zero_Request\<lparr>rq_operation := ''lock''\<rparr>" demo_setting] w(4,5)
    by (force simp: year_ok demo_time)
qed

text \<open>
  C35: Configuring an action needs the master password: when the password of the request does not open the
  data key, \<open>action.configure\<close> answers that error and the vault file stays as it is, even while the vault
  is unlocked.
\<close>

theorem configure_needs_password:
  assumes "rq_operation request = ''action.configure''" and "br_store (bs_broker (w_db w)) = Some s"
    and "unmarshal_raw configure_fields \<lparr>cq_action = zero_Action, cq_master_password = None\<rparr> (rq_payload request)
          = Inr \<lparr>cq_action = action, cq_master_password = Some pw\<rparr>"
    and "bs_disk (w_db w) = Some d" and "cn_faults (bs_conn (w_db w)) = []"
    and "VerifyPassword (en_prims E) s pw (with_db w d) = (Inl err, v)"
  shows "\<exists>e w'. Handle E request w = (Inr (), w') \<and> bs_disk (w_db w') = Some d
    \<and> sent w' = sent w @ [zero_Response\<lparr>rs_error := publicError e, rs_final := True\<rparr>]
    \<and> (ac_output_policy action \<noteq> [] \<and> validateAction action = None \<longrightarrow> e = err)"
proof -
  let ?action = "if ac_output_policy action = [] then action\<lparr>ac_output_policy := ''metadata''\<rparr> else action"
  have "w_db v = d" using keepsD [OF keeps_Unlock(2) assms(6)] by simp
  then have verify: "on_vault (VerifyPassword (en_prims E) s pw) w = (Inl err, with_db v ((w_db w)\<lparr>bs_disk := Some d\<rparr>))"
    using on_vault_run [where m = "VerifyPassword (en_prims E) s pw" and w = w and d = d, OF assms(4,6)] by simp
  have "\<exists>e u. operation E request w = (Inl e, u) \<and> bs_disk (w_db u) = Some d
      \<and> (ac_output_policy action \<noteq> [] \<and> validateAction action = None \<longrightarrow> e = err)"
    using verify getStore_run [OF assms(2)] assms(1,3,4)
    by (cases "validateAction ?action")
      (auto simp: operation_def do_configure_def bnd_def lift_def require_def ret_def fail_def Let_def)
  then obtain e u where "operation E request w = (Inl e, u)" "bs_disk (w_db u) = Some d"
    "ac_output_policy action \<noteq> [] \<and> validateAction action = None \<longrightarrow> e = err" by blast
  with Handle_answer [OF _ assms(5) this(1)] show ?thesis
    using assms(1) by (intro exI [of _ e]) (simp add: sent_def answer_of_def)
qed

lemma configure_request_decodes:
  "unmarshal_raw configure_fields \<lparr>cq_action = zero_Action, cq_master_password = None\<rparr>
     (Some (configure_json \<lparr>cq_action = demo_action, cq_master_password = pw\<rparr>)) = Inr \<lparr>cq_action = demo_action, cq_master_password = pw\<rparr>"
proof -
  have "valid_time zero_time" "t_year zero_time < 10000" "\<And>m. ac_secrets demo_action = Some m \<Longrightarrow> strmap_ok m"
    by (auto simp: zero_time_def valid_time_def days_in_def demo_action_def zero_Action_def strmap_ok_def)
  then have "decode_struct action_fields (action_json demo_action) zero_Action = Some demo_action"
    by (simp add: decode_struct_def action_json_def action_field_names zero_Action_def demo_action_def)
  then show ?thesis
    unfolding unmarshal_raw_def option.case decode_struct_def [of configure_fields] configure_json_def
    by (simp add: configure_fields_def find_field_def struct_field_def)
qed

theorem configure_needs_password_witness:
  "\<exists>w w' s d r. br_store (bs_broker (w_db w)) = Some s \<and> IsUnlocked s \<and> bs_disk (w_db w) = Some d
    \<and> Handle demo_setting (zero_Request\<lparr>rq_operation := ''action.configure'', rq_payload := Some (configure_json
        \<lparr>cq_action = demo_action, cq_master_password = Some []\<rparr>)\<rparr>) w = (Inr (), w')
    \<and> bs_disk (w_db w') = Some d \<and> sent w' = [r] \<and> rs_error r = ''master password is empty''"
proof -
  obtain s0 s d and w :: "bstate world" where w: "bs_disk (w_db w) = Some d" "cn_faults (bs_conn (w_db w)) = []" "sent w = []"
    "IsUnlocked s" "VerifyPassword demo_prims s [] (with_db w d) = (Inl (Errorf ''master password is empty''), with_db w d)"
    by (rule demo_fresh)
  let ?w = "w\<lparr>w_db := set_store (Some s) (w_db w)\<rparr>"
  let ?r = "zero_Request\<lparr>rq_operation := ''action.configure'', rq_payload := Some (configure_json
        \<lparr>cq_action = demo_action, cq_master_password = Some []\<rparr>)\<rparr>"
  have v: "VerifyPassword (en_prims demo_setting) s [] (with_db ?w d) = (Inl (Errorf ''master password is empty''), with_db w d)"
    using w(5) by (simp add: with_db_def demo_run_simps)
  have st: "br_store (bs_broker (w_db ?w)) = Some s" "bs_disk (w_db ?w) = Some d" "cn_faults (bs_conn (w_db ?w)) = []" "sent ?w = []"
    using w(1-3) by (simp_all add: set_store_def sent_def)
  have "validateAction demo_action = None" "ac_output_policy demo_action \<noteq> []" by code_simp+
  with configure_needs_password [of ?r ?w s demo_action "[]" d demo_setting "Errorf ''master password is empty''" "with_db w d"]
  show ?thesis using v st configure_request_decodes w(4)
    by (fastforce simp: publicError_def zero_Response_def error_is_def ErrInvalidPassword_def)
qed

subsection \<open>Names\<close>

lemma safeName_nul_free: "safeName n \<Longrightarrow> nul_free n"
  by (auto simp: safeName_def nul_free_def name_start_def name_char_def is_digit_def list_all_iff split: list.splits)

text \<open>
  Accepted names cannot be confused: the text that is authenticated for a secret that \<open>secret.create\<close>
  accepts differs from the text for any other project, environment or name, accepted or not, and from the
  text for any action, so two tokens agree only when these two texts have the same HMAC.
\<close>

theorem accepted_names_unambiguous:
  assumes "validateSecretRequest r = None" and "kind \<in> {''secret'', ''action''}"
    and "(kind, p, e, n) \<noteq> (''secret'', sc_project (sr_scope r), sc_environment (sr_scope r), sr_name r)"
  shows "lookup_message [''secret'', sc_project (sr_scope r), sc_environment (sr_scope r), sr_name r] \<noteq> lookup_message [kind, p, e, n]
    \<and> (secretLookup P key (sc_project (sr_scope r)) (sc_environment (sr_scope r)) (sr_name r)
          = (if kind = ''secret'' then secretLookup P key p e n else actionLookup P key p e n)
        \<longleftrightarrow> hmac P key (lookup_message [''secret'', sc_project (sr_scope r), sc_environment (sr_scope r), sr_name r])
          = hmac P key (lookup_message [kind, p, e, n]))"
proof -
  let ?xs = "[''secret'', sc_project (sr_scope r), sc_environment (sr_scope r), sr_name r]"
  have "safeName (sc_project (sr_scope r)) \<and> safeName (sc_environment (sr_scope r)) \<and> safeName (sr_name r)"
    using assms(1) by (auto simp: validateSecretRequest_def split: if_splits)
  then have free: "list_all nul_free ?xs" using safeName_nul_free by (simp add: nul_free_def)
  have "lookup_message ?xs \<noteq> lookup_message [kind, p, e, n]"
  proof
    assume "lookup_message ?xs = lookup_message [kind, p, e, n]"
    from lookup_message_inject [OF _ free this] show False using assms(3) by auto
  qed
  moreover have "(if kind = ''secret'' then secretLookup P key p e n else actionLookup P key p e n) = LookupToken P key [kind, p, e, n]"
    using assms(2) by (auto simp: secretLookup_def actionLookup_def)
  ultimately show ?thesis unfolding secretLookup_def [of P key "sc_project (sr_scope r)"] by (simp only: LookupToken_eq_iff) simp
qed

theorem accepted_names_unambiguous_witness:
  "lookup_message [''secret'', ''shop'', ''dev'', ''db''] \<noteq> lookup_message [''secret'', ''shop'', ''de'', ''vdb'']"
proof -
  let ?r = "\<lparr>sr_scope = demo_scope, sr_name = ''db'', sr_profile = ''alnum''\<rparr>"
  have "validateSecretRequest ?r = None" by code_simp
  from accepted_names_unambiguous [OF this, of "''secret''" "''shop''" "''de''" "''vdb''"] show ?thesis
    by (simp add: demo_scope_def)
qed

end
