(* ===== verification/JsonReader.thy ===== *)
theory JsonReader
  imports Json
begin

section \<open>What the reader of JSON accepts\<close>

text \<open>
  Facts on the parser of \<open>Json\<close> for every text, written by the program or not: it always consumes something,
  its fuel is enough, and the strings of what it returns are valid UTF-8, whatever bytes were read.
\<close>

subsection \<open>A value takes at least one character\<close>

lemma pstr_shorter: "pstr s = Some (t, r) \<Longrightarrow> length r < length s"
proof (induction s arbitrary: t rule: measure_induct_rule [of length])
  case (less s)
  have step: "length r < length s" if m: "map_option (apfst g) (pstr u) = Some (t, r)" and u: "length u < length s" for g u
  proof -
    obtain t' where "pstr u = Some (t', r)" using m by (cases "pstr u") auto
    from less.IH [OF u this] show ?thesis using u by simp
  qed
  obtain c cs where s: "s = c # cs" using less.prems by (cases s) (simp_all add: pstr.simps)
  note eq = less.prems [unfolded s pstr.simps [of "c # cs"] list.case, folded s]
  consider "c = CHR 0x22" | "c = CHR 0x5C" | "c \<noteq> CHR 0x22" "c \<noteq> CHR 0x5C" by blast
  then show ?case
  proof cases
    case 1
    then show ?thesis using eq s by simp
  next
    case 2
    then obtain out rest where u: "unescape cs = Some (out, rest)" using eq by (auto split: option.splits)
    then have "map_option (apfst ((@) out)) (pstr rest) = Some (t, r)" using eq 2 by simp
    moreover have "length rest < length s" using unescape_length [OF u] s by simp
    ultimately show ?thesis by (rule step)
  next
    case 3
    have "length cs < length s" "rune_len s \<noteq> 0 \<Longrightarrow> length (drop (rune_len s) s) < length s" using s by simp_all
    then show ?thesis using eq 3 step by (auto split: if_splits)
  qed
qed

lemma skip_shorter: "length (skip s) \<le> length s"
  by (rule length_dropWhile_le)

lemma number_shorter: "number_ok (takeWhile num_char s) \<Longrightarrow> length (dropWhile num_char s) < length s"
proof -
  assume "number_ok (takeWhile num_char s)"
  then have "takeWhile num_char s \<noteq> []" using number_first by blast
  moreover have "length s = length (takeWhile num_char s) + length (dropWhile num_char s)"
    by (metis length_append takeWhile_dropWhile_id)
  ultimately show ?thesis by simp
qed

lemma map_apfst: "map_option (apfst g) x = Some (v, r) \<longleftrightarrow> (\<exists>u. x = Some (u, r) \<and> v = g u)"
  by (cases x) auto

lemma shorter_after: "length r < length (skip (tl (skip u))) \<Longrightarrow> length u \<le> length s \<Longrightarrow> length r < length s"
  using skip_shorter [of "tl (skip u)"] skip_shorter [of u] by simp

lemma p_shorter:
  "pval n s = Some (v, r) \<Longrightarrow> length r < length s"
  "pelems n s = Some (vs, r) \<Longrightarrow> length r < length s"
  "pmembers n s = Some (ms, r) \<Longrightarrow> length r < length s"
proof (induction n s and n s and n s arbitrary: v r and vs r and ms r rule: pval_pelems_pmembers.induct)
  case (2 n s)
  obtain c u where s: "s = c # u" using "2.prems" by (cases s) simp_all
  have tl: "length (tl (skip u)) < length s" and sk: "length (skip u) < length s" using skip_shorter [of u] s by simp_all
  consider "c = CHR ''{''" | "c = CHR ''[''" | "c = CHR 0x22" | "c \<noteq> CHR ''{''" "c \<noteq> CHR ''[''" "c \<noteq> CHR 0x22" by blast
  then show ?case
  proof cases
    case 1
    show ?thesis
    proof (cases "take 1 (skip u) = ''}''")
      case False
      then obtain ms where "pmembers n (skip u) = Some (ms, r)" using "2.prems" 1 s by (auto simp: map_apfst)
      from "2.IH"(1) [OF s 1 False this] sk show ?thesis by simp
    qed (use "2.prems" 1 s tl in auto)
  next
    case 2
    show ?thesis
    proof (cases "take 1 (skip u) = '']''")
      case False
      then obtain vs where "pelems n (skip u) = Some (vs, r)" using "2.prems" 2 s by (auto simp: map_apfst)
      from "2.IH"(2) [OF s _ 2 False this] sk show ?thesis using 2 by simp
    qed (use "2.prems" 2 s tl in auto)
  next
    case 3
    then obtain t where "pstr u = Some (t, r)" using "2.prems" s by (auto simp: map_apfst)
    then show ?thesis using pstr_shorter s by fastforce
  next
    case 4
    then show ?thesis using "2.prems" s number_shorter [of s] by (auto split: if_splits)
  qed
next
  case (4 n s)
  obtain v u where v: "pval n s = Some (v, u)" using "4.prems" by (auto split: option.splits)
  have u: "length u < length s" by (rule "4.IH"(1) [OF v])
  show ?case
  proof (cases "take 1 (skip u) = '',''")
    case True
    then obtain vs' where e: "pelems n (skip (tl (skip u))) = Some (vs', r)" using "4.prems" v by (auto simp: map_apfst)
    show ?thesis by (rule shorter_after [OF "4.IH"(2) [OF v _ True e]]) (use u in simp_all)
  next
    case False
    then show ?thesis using "4.prems" v u skip_shorter [of u] by (auto split: if_splits)
  qed
next
  case (6 n s)
  obtain k t where k: "take 1 s = [CHR 0x22]" "pstr (tl s) = Some (k, t)" "take 1 (skip t) = '':''"
    using "6.prems" by (auto split: if_splits option.splits)
  have t: "length t < length s" using pstr_shorter [OF k(2)] by simp
  obtain v u where v: "pval n (skip (tl (skip t))) = Some (v, u)" using "6.prems" k by (auto split: option.splits)
  have u: "length u < length s"
    by (rule shorter_after [OF "6.IH"(1) [OF _ k(2) _ _ v]]) (use k t in simp_all)
  show ?case
  proof (cases "take 1 (skip u) = '',''")
    case True
    then obtain ms' where e: "pmembers n (skip (tl (skip u))) = Some (ms', r)" using "6.prems" k v by (auto simp: map_apfst)
    show ?thesis by (rule shorter_after [OF "6.IH"(2) [OF _ k(2) _ _ v _ True e]]) (use k u in simp_all)
  next
    case False
    then show ?thesis using "6.prems" k v u skip_shorter [of u] by (auto split: if_splits)
  qed
qed simp_all

subsection \<open>The fuel is enough\<close>

text \<open>
  Each of the three functions calls the others with one unit of fuel less, and every second call has consumed a
  character; so from twice the length on, more fuel makes no difference.
\<close>

lemma enough_fuel:
  "2 * length s + 1 \<le> n \<Longrightarrow> 2 * length s + 1 \<le> m \<Longrightarrow> pval n s = pval m s"
  "2 * length s + 2 \<le> n \<Longrightarrow> 2 * length s + 2 \<le> m \<Longrightarrow> pelems n s = pelems m s"
  "2 * length s + 2 \<le> n \<Longrightarrow> 2 * length s + 2 \<le> m \<Longrightarrow> pmembers n s = pmembers m s"
proof (induction n s and n s and n s arbitrary: m and m and m rule: pval_pelems_pmembers.induct)
  case (2 n s)
  obtain m' where m: "m = Suc m'" using "2.prems" by (cases m) simp_all
  show ?case
  proof (cases s)
    case (Cons c u)
    have "length (skip u) < length s" using skip_shorter [of u] Cons by simp
    then have le: "2 * length (skip u) + 2 \<le> n" "2 * length (skip u) + 2 \<le> m'" using "2.prems" m by simp_all
    have obj: "pmembers n (skip u) = pmembers m' (skip u)" if "c = CHR ''{''" "take 1 (skip u) \<noteq> ''}''"
      by (rule "2.IH"(1) [OF Cons that le])
    have arr: "pelems n (skip u) = pelems m' (skip u)" if "c = CHR ''[''" "take 1 (skip u) \<noteq> '']''"
      by (rule "2.IH"(2) [OF Cons _ that le]) (simp add: that(1))
    consider "c = CHR ''{''" | "c = CHR ''[''" | "c \<noteq> CHR ''{''" "c \<noteq> CHR ''[''" by blast
    then show ?thesis
    proof cases
      case 1
      then show ?thesis using obj by (cases "take 1 (skip u) = ''}''") (simp_all add: m Cons)
    next
      case 2
      then show ?thesis using arr by (cases "take 1 (skip u) = '']''") (simp_all add: m Cons)
    next
      case 3
      then show ?thesis by (simp only: m Cons pval.simps list.case if_False)
    qed
  qed (simp add: m)
next
  case (4 n s)
  obtain m' where m: "m = Suc m'" using "4.prems" by (cases m) simp_all
  have head: "pval n s = pval m' s" by (rule "4.IH"(1)) (use "4.prems" m in simp_all)
  show ?case
  proof (cases "pval n s")
    case (Some x)
    obtain v u where x: "x = (v, u)" by (cases x)
    have "length u < length s" using p_shorter(1) Some x by simp
    then have "length (skip (tl (skip u))) < length s" using skip_shorter [of "tl (skip u)"] skip_shorter [of u] by simp
    then have le: "2 * length (skip (tl (skip u))) + 2 \<le> n" "2 * length (skip (tl (skip u))) + 2 \<le> m'" using "4.prems" m by simp_all
    show ?thesis using "4.IH"(2) [OF Some x [symmetric] _ le] Some x head by (simp add: m)
  qed (use head in \<open>simp add: m\<close>)
next
  case (6 n s)
  obtain m' where m: "m = Suc m'" using "6.prems" by (cases m) simp_all
  show ?case
  proof (cases "take 1 s = [CHR 0x22]")
    case quoted: True
    show ?thesis
    proof (cases "pstr (tl s)")
      case k: (Some x)
      obtain key t where x: "x = (key, t)" by (cases x)
      have t: "length t < length s" using pstr_shorter k x by fastforce
      show ?thesis
      proof (cases "take 1 (skip t) = '':''")
        case colon: True
        have "length (skip (tl (skip t))) < length s" using t skip_shorter [of "tl (skip t)"] skip_shorter [of t] by simp
        then have le: "2 * length (skip (tl (skip t))) + 1 \<le> n" "2 * length (skip (tl (skip t))) + 1 \<le> m'" using "6.prems" m by simp_all
        have head: "pval n (skip (tl (skip t))) = pval m' (skip (tl (skip t)))"
          using "6.IH"(1) [OF _ k x [symmetric] _ le] quoted colon by simp
        show ?thesis
        proof (cases "pval n (skip (tl (skip t)))")
          case v: (Some y)
          obtain v u where y: "y = (v, u)" by (cases y)
          have "length u < length s" using p_shorter(1) [of n "skip (tl (skip t))" v u] v y shorter_after [of u t s] t by simp
          then have "length (skip (tl (skip u))) < length s" using skip_shorter [of "tl (skip u)"] skip_shorter [of u] by simp
          then have le: "2 * length (skip (tl (skip u))) + 2 \<le> n" "2 * length (skip (tl (skip u))) + 2 \<le> m'" using "6.prems" m by simp_all
          show ?thesis using "6.IH"(2) [OF _ k x [symmetric] _ v y [symmetric] _ le] quoted colon k x v y head by (simp add: m)
        qed (use quoted colon k x head in \<open>simp add: m\<close>)
      qed (use quoted k x in \<open>simp add: m\<close>)
    qed (use quoted in \<open>simp add: m\<close>)
  qed (simp add: m)
qed simp_all

text \<open>
  The parser gives its answer for every text: with any larger amount of fuel \<open>parse\<close> would accept the same
  texts with the same values, so a text is refused only because it is not JSON.
\<close>

theorem parse_fuel:
  assumes "2 * length s + 2 \<le> n"
  shows "parse s = (case pval n (skip s) of None \<Rightarrow> None | Some (v, r) \<Rightarrow> if skip r = [] then Some v else None)"
proof -
  have "pval (2 * length s + 2) (skip s) = pval n (skip s)"
    using assms skip_shorter [of s] by (intro enough_fuel(1)) simp_all
  then show ?thesis by (simp add: parse_def)
qed

theorem parse_fuel_witness:
  "parse ''[1,{}]'' = (case pval 100 ''[1,{}]'' of None \<Rightarrow> None | Some (v, r) \<Rightarrow> if skip r = [] then Some v else None)"
  using parse_fuel [of "''[1,{}]''" 100] by (simp add: is_space_def)

subsection \<open>The strings that are read\<close>

lemma valid_utf8_append: "valid_utf8 s \<Longrightarrow> valid_utf8 t \<Longrightarrow> valid_utf8 (s @ t)"
proof (induction s rule: valid_utf8.induct)
  case (1 s)
  show ?case
  proof (cases "s = []")
    case False
    then have r: "0 < rune_len s" "valid_utf8 (drop (rune_len s) s)"
      using "1.prems"(1) valid_utf8.simps [of s] by (auto split: if_splits)
    then have "valid_utf8 (drop (rune_len s) s @ t)" using "1.IH" "1.prems"(2) False by simp
    then show ?thesis using False r rune_len_append [OF r(1), of t] rune_len_le [of s]
      by (subst valid_utf8.simps) simp
  qed (use "1.prems" in simp)
qed

lemma valid_utf8_rune: "0 < rune_len s \<Longrightarrow> valid_utf8 (take (rune_len s) s)"
  using rune_len_take [of s] rune_len_le [of s] by (subst valid_utf8.simps) simp

lemma valid_utf8_one: "rune_len s = length s \<Longrightarrow> valid_utf8 s"
  by (cases "s = []") (simp_all add: valid_utf8.simps [of s])

lemma code_char [simp]: "n < 256 \<Longrightarrow> code (char_of n) = n"
  by simp

lemma valid_utf8_encode:
  assumes "n < 0x110000" and "\<not> (0xD800 \<le> n \<and> n < 0xE000)"
  shows "valid_utf8 (utf8_encode n)"
proof -
  consider "n < 128" | "128 \<le> n" "n < 2048" | "2048 \<le> n" "n < 65536" | "65536 \<le> n" by linarith
  then show ?thesis
  proof cases
    case 1
    then show ?thesis by (intro valid_utf8_one) (simp add: utf8_encode_def rune_len_def)
  next
    case 2
    then have "192 + n div 64 < 256" "128 + n mod 64 < 256" "2 \<le> n div 64" "n div 64 \<le> 31" by simp_all
    with 2 show ?thesis by (intro valid_utf8_one) (simp add: utf8_encode_def rune_len_def seq2_def cont_def)
  next
    case 3
    define h m l where hml: "h = n div 4096" "m = n div 64 mod 64" "l = n mod 64"
    have "n div 64 = 64 * h + m"
      using mult_div_mod_eq [of 64 "n div 64"] div_mult2_eq [of n 64 64] by (simp add: hml)
    moreover have "32 \<le> n div 64" using 3 by simp
    moreover have "n div 64 < 864" if "h = 13" using that assms(2) unfolding hml by linarith
    moreover have "h \<le> 15" "m < 64" "l < 64" using 3 by (simp_all add: hml)
    ultimately have "h \<le> 15" "m < 64" "l < 64" "h = 0 \<Longrightarrow> 32 \<le> m" "h = 13 \<Longrightarrow> m < 32" by linarith+
    moreover have "utf8_encode n = [char_of (224 + h), char_of (128 + m), char_of (128 + l)]"
      using 3 by (simp add: utf8_encode_def hml)
    ultimately show ?thesis by (intro valid_utf8_one) (auto simp: rune_len_def seq2_def seq3_def cont_def)
  next
    case 4
    define h k m l where hml: "h = n div 262144" "k = n div 4096 mod 64" "m = n div 64 mod 64" "l = n mod 64"
    have "n div 4096 = 64 * h + k"
      using mult_div_mod_eq [of 64 "n div 4096"] div_mult2_eq [of n 4096 64] by (simp add: hml)
    moreover have "16 \<le> n div 4096" "n div 4096 < 272" using 4 assms(1) by simp_all
    moreover have "h \<le> 4" "k < 64" "m < 64" "l < 64" using assms(1) by (simp_all add: hml)
    ultimately have "h \<le> 4" "k < 64" "m < 64" "l < 64" "h = 0 \<Longrightarrow> 16 \<le> k" "h = 4 \<Longrightarrow> k < 16" by linarith+
    moreover have "utf8_encode n = [char_of (240 + h), char_of (128 + k), char_of (128 + m), char_of (128 + l)]"
      using 4 by (simp add: utf8_encode_def hml)
    ultimately show ?thesis by (intro valid_utf8_one) (auto simp: rune_len_def seq2_def seq3_def seq4_def cont_def)
  qed
qed

lemma valid_utf8_replacement [simp]: "valid_utf8 replacement"
  unfolding replacement_utf8 [symmetric] by (rule valid_utf8_encode) simp_all

lemma unhex4_bound: "unhex4 s = Some n \<Longrightarrow> n < 65536"
proof -
  assume "unhex4 s = Some n"
  then obtain a b c d i j k l where d: "unhex_any a = Some i" "unhex_any b = Some j" "unhex_any c = Some k"
    "unhex_any d = Some l" and n: "n = join_nibbles i j k l"
    by (auto simp: unhex4_def split: list.splits option.splits)
  have "x < 16" if "unhex_any c = Some x" for c x
    using that by (auto simp: unhex_any_def unhex_digit_def undigit_def Let_def split: if_splits)
  then have "i < 16" "j < 16" "k < 16" "l < 16" using d by blast+
  then show ?thesis by (simp add: n join_nibbles_def)
qed

lemma unescape_valid: "unescape s = Some (out, rest) \<Longrightarrow> valid_utf8 out"
proof -
  have plain: "valid_utf8 [c]" if "code c < 128" for c using that by (intro valid_utf8_ascii) simp
  have pair: "valid_utf8 (utf8_encode (0x10000 + (n - 0xD800) * 1024 + (m - 0xDC00)))"
    if "n < 0xDC00" "0xD800 \<le> n" "m < 0xE000" "0xDC00 \<le> m" for n m :: nat
    using that by (intro valid_utf8_encode) auto
  show "unescape s = Some (out, rest) \<Longrightarrow> valid_utf8 out"
    using unhex4_bound [of "take 4 (tl s)"]
    by (auto simp: unescape_def plain pair valid_utf8_encode split: list.splits if_splits option.splits)
qed

lemma pstr_valid: "pstr s = Some (t, r) \<Longrightarrow> valid_utf8 t"
proof (induction s arbitrary: t rule: measure_induct_rule [of length])
  case (less s)
  have step: "valid_utf8 t" if m: "map_option (apfst ((@) v)) (pstr u) = Some (t, r)" and u: "length u < length s" and v: "valid_utf8 v" for v u
  proof -
    obtain t' where t': "pstr u = Some (t', r)" "t = v @ t'" using m by (cases "pstr u") auto
    show ?thesis unfolding t'(2) by (rule valid_utf8_append [OF v less.IH [OF u t'(1)]])
  qed
  obtain c cs where s: "s = c # cs" using less.prems by (cases s) (simp_all add: pstr.simps)
  note eq = less.prems [unfolded s pstr.simps [of "c # cs"] list.case, folded s]
  have cs: "length cs < length s" "rune_len s \<noteq> 0 \<Longrightarrow> length (drop (rune_len s) s) < length s" using s by simp_all
  consider "c = CHR 0x22" | "c = CHR 0x5C" | "c \<noteq> CHR 0x22" "c \<noteq> CHR 0x5C" by blast
  then show ?case
  proof cases
    case 1
    then show ?thesis using eq s by simp
  next
    case 2
    then obtain out rest where u: "unescape cs = Some (out, rest)" using eq by (auto split: option.splits)
    then have "map_option (apfst ((@) out)) (pstr rest) = Some (t, r)" using eq 2 by simp
    then show ?thesis by (rule step) (use unescape_length [OF u] unescape_valid [OF u] s in simp_all)
  next
    case 3
    have "valid_utf8 [c]" if "code c < 128" using that by (intro valid_utf8_ascii) simp
    then show ?thesis
      using eq 3 cs step [of "[c]" cs] step [of replacement cs] step [of "take (rune_len s) s" "drop (rune_len s) s"]
        valid_utf8_rune [of s]
      by (auto simp: append_single split: if_splits)
  qed
qed

text \<open>What is read can be written: its strings are valid and its numbers are of the grammar.\<close>

lemma p_writable:
  "pval n s = Some (v, r) \<Longrightarrow> writable v"
  "pelems n s = Some (vs, r) \<Longrightarrow> list_all writable vs"
  "pmembers n s = Some (ms, r) \<Longrightarrow> list_all (\<lambda>(k, v). valid_utf8 k \<and> writable v) ms"
proof (induction n s and n s and n s arbitrary: v r and vs r and ms r rule: pval_pelems_pmembers.induct)
  case (2 n s)
  obtain c u where s: "s = c # u" using "2.prems" by (cases s) simp_all
  consider "c = CHR ''{''" | "c = CHR ''[''" | "c = CHR 0x22" | "c \<noteq> CHR ''{''" "c \<noteq> CHR ''[''" "c \<noteq> CHR 0x22" by blast
  then show ?case
  proof cases
    case 1
    show ?thesis
    proof (cases "take 1 (skip u) = ''}''")
      case False
      then obtain ms where "pmembers n (skip u) = Some (ms, r)" "v = JObj ms" using "2.prems" 1 s by (auto simp: map_apfst)
      then show ?thesis using "2.IH"(1) [OF s 1 False] by simp
    qed (use "2.prems" 1 s in auto)
  next
    case 2
    show ?thesis
    proof (cases "take 1 (skip u) = '']''")
      case False
      then obtain vs where "pelems n (skip u) = Some (vs, r)" "v = JArr vs" using "2.prems" 2 s by (auto simp: map_apfst)
      then show ?thesis using "2.IH"(2) [OF s _ 2 False] 2 by simp
    qed (use "2.prems" 2 s in auto)
  next
    case 3
    then obtain t where "pstr u = Some (t, r)" "v = JStr t" using "2.prems" s by (auto simp: map_apfst)
    then show ?thesis using pstr_valid by simp
  next
    case 4
    then have "v = JBool True \<or> v = JBool False \<or> v = JNull \<or> v = JNum (takeWhile num_char s) \<and> number_ok (takeWhile num_char s)"
      using "2.prems" s by (auto split: if_splits)
    moreover have "list_all num_char (takeWhile num_char s)" using set_takeWhileD by (fastforce simp: list_all_iff)
    ultimately show ?thesis by (elim disjE) simp_all
  qed
next
  case (4 n s)
  obtain v u where v: "pval n s = Some (v, u)" using "4.prems" by (auto split: option.splits)
  have u: "writable v" by (rule "4.IH"(1) [OF v])
  show ?case
  proof (cases "take 1 (skip u) = '',''")
    case True
    then obtain vs' where e: "pelems n (skip (tl (skip u))) = Some (vs', r)" "vs = v # vs'" using "4.prems" v by (auto simp: map_apfst)
    then show ?thesis using "4.IH"(2) [OF v _ True e(1)] u by simp
  next
    case False
    then show ?thesis using "4.prems" v u by (auto split: if_splits)
  qed
next
  case (6 n s)
  obtain k t where k: "take 1 s = [CHR 0x22]" "pstr (tl s) = Some (k, t)" "take 1 (skip t) = '':''"
    using "6.prems" by (auto split: if_splits option.splits)
  obtain v u where v: "pval n (skip (tl (skip t))) = Some (v, u)" using "6.prems" k by (auto split: option.splits)
  have u: "valid_utf8 k" "writable v" using pstr_valid [OF k(2)] "6.IH"(1) [OF _ k(2) _ _ v] k by simp_all
  show ?case
  proof (cases "take 1 (skip u) = '',''")
    case True
    then obtain ms' where e: "pmembers n (skip (tl (skip u))) = Some (ms', r)" "ms = (k, v) # ms'"
      using "6.prems" k v by (auto simp: map_apfst)
    have "list_all (\<lambda>(k, v). valid_utf8 k \<and> writable v) ms'"
      by (rule "6.IH"(2) [OF _ k(2) _ _ v _ True e(1)]) (use k in simp_all)
    then show ?thesis using u e(2) by simp
  next
    case False
    then show ?thesis using "6.prems" k v u by (auto split: if_splits)
  qed
qed simp_all

theorem parse_writable: "parse s = Some v \<Longrightarrow> writable v"
proof -
  assume "parse s = Some v"
  then obtain r where "pval (2 * length s + 2) (skip s) = Some (v, r)"
    unfolding parse_def by (auto simp del: pval.simps split: option.splits if_splits)
  then show ?thesis by (rule p_writable(1))
qed

text \<open>So a value that was read once is written and read again as it is.\<close>

corollary parse_render_parse: "parse s = Some v \<Longrightarrow> parse (render v) = Some v"
  by (rule parse_render [OF parse_writable])

subsection \<open>Structs that are read from written values\<close>

text \<open>A struct keeps what every field of it keeps.\<close>

definition field_keeps :: "('r \<Rightarrow> bool) \<Rightarrow> 'r field_setter \<Rightarrow> bool" where
  "field_keeps I f \<longleftrightarrow> (\<forall>v r r'. writable v \<longrightarrow> I r \<longrightarrow> f v r = Some r' \<longrightarrow> I r')"

lemma find_field_in: "find_field fields k = Some f \<Longrightarrow> f \<in> snd ` set fields"
proof (cases "map_of fields k")
  case None
  assume "find_field fields k = Some f"
  then obtain n where "find (\<lambda>(n, _). fold_name n = fold_name k) fields = Some (n, f)" using None by (auto simp: find_field_def)
  then show ?thesis by (force simp: find_Some_iff in_set_conv_nth image_iff)
qed (force simp: find_field_def dest: map_of_SomeD)

lemma set_members_keeps:
  "list_all (\<lambda>(n, f). field_keeps I f) fields \<Longrightarrow> list_all (\<lambda>(k, v). writable v) ms \<Longrightarrow> I r
    \<Longrightarrow> set_members fields ms r = Some r' \<Longrightarrow> I r'"
proof (induction ms arbitrary: r)
  case (Cons m ms)
  show ?case
  proof (cases "find_field fields (fst m)")
    case None
    then show ?thesis using Cons by simp
  next
    case (Some f)
    then obtain r1 where r1: "f (snd m) r = Some r1" "set_members fields ms r1 = Some r'" using Cons.prems(4) by (auto split: option.splits)
    have "field_keeps I f" using find_field_in [OF Some] Cons.prems(1) by (auto simp: list_all_iff)
    then have "I r1" using r1(1) Cons.prems(2,3) by (auto simp: field_keeps_def case_prod_beta)
    then show ?thesis using Cons.IH Cons.prems(1,2) r1(2) by simp
  qed
qed simp

lemma decode_keeps:
  assumes "list_all (\<lambda>(n, f). field_keeps I f) fields" and "writable v" and "I r" and "decode_struct fields v r = Some r'"
  shows "I r'"
proof (cases v)
  case (JObj ms)
  then have "list_all (\<lambda>(k, v). writable v) ms" using assms(2) by (auto simp: list_all_iff)
  then show ?thesis using set_members_keeps [OF assms(1) _ assms(3)] assms(4) JObj by (simp add: decode_struct_def)
qed (use assms in \<open>simp_all add: decode_struct_def\<close>)

lemma str_elems_valid: "list_all writable vs \<Longrightarrow> str_elems vs = Some ss \<Longrightarrow> list_all valid_utf8 ss"
proof (induction vs arbitrary: ss)
  case (Cons v vs)
  then show ?case by (cases v) (auto split: option.splits)
qed simp

lemma map_put_keys: "set (map_put k v m) \<subseteq> insert (k, v) (set m)"
proof (induction m)
  case (Cons p m)
  then show ?case by (cases p) (auto split: if_splits)
qed simp

lemma map_put_sorted: "strmap_ok m \<Longrightarrow> strmap_ok (map_put k v m)"
proof (induction m)
  case (Cons p m)
  obtain k' v' where p: "p = (k', v')" by (cases p)
  have sorted: "\<forall>x\<in>set m. k' < fst x" "strmap_ok m" using Cons.prems by (simp_all add: strmap_ok_def p)
  have "\<forall>x\<in>set (map_put k v m). k' < fst x" if "k' < k" using map_put_keys [of k v m] sorted(1) that by auto
  moreover have "\<forall>x\<in>set m. k < fst x" if "k < k'" using sorted(1) that by (meson less_trans)
  ultimately show ?case
    using Cons.IH [OF sorted(2)] sorted by (auto simp: strmap_ok_def p neq_iff)
qed (simp add: strmap_ok_def)

lemma put_members_ok:
  "list_all (\<lambda>(k, v). valid_utf8 k \<and> writable v) ms \<Longrightarrow> strmap_ok m \<Longrightarrow> list_all (\<lambda>(k, v). valid_utf8 k \<and> valid_utf8 v) m
    \<Longrightarrow> put_members ms m = Some m' \<Longrightarrow> strmap_ok m' \<and> list_all (\<lambda>(k, v). valid_utf8 k \<and> valid_utf8 v) m'"
proof (induction ms arbitrary: m)
  case (Cons p ms)
  obtain k v where p: "p = (k, v)" by (cases p)
  then obtain s where s: "str_elem v = Some s" "put_members ms (map_put k s m) = Some m'" using Cons.prems(4) by (auto split: option.splits)
  then have "valid_utf8 s" "valid_utf8 k" using Cons.prems(1) p by (cases v; simp)+
  then have "list_all (\<lambda>(k, v). valid_utf8 k \<and> valid_utf8 v) (map_put k s m)"
    using Cons.prems(3) map_put_keys [of k s m] by (fastforce simp: list_all_iff)
  then show ?case using Cons.IH [OF _ map_put_sorted [OF Cons.prems(2)] _ s(2)] Cons.prems(1) by simp
qed simp

end
