(* ===== verification/Ipc.thy ===== *)
theory Ipc
  imports Api JsonReader
begin

section \<open>Requests and responses on a connection (internal/ipc/ipc.go)\<close>

text \<open>
  A client sends one request on a connection and reads responses until the final one. Both directions
  are JSON values one after the other: \<open>json.Encoder\<close> writes a value and a line end, \<open>json.Decoder\<close> reads
  the next value and leaves the rest. A stream is the text that ever arrives on it. The sockets are the
  operating system's; \<open>link\<close> says what they do to a call: the error of dialling, the error of writing,
  what the other end answers to the text it is sent, and the error that reading ends with after that, where
  None is the end of the stream, \<open>io.EOF\<close>.
\<close>

subsection \<open>Streams of values\<close>

datatype decoded = EndOfStream | Malformed | Decoded jv string

definition frame :: "jv \<Rightarrow> string" where
  "frame v = render v @ [CHR 0x0A]"

text \<open>\<open>Decode\<close>: \<open>io.EOF\<close> when only white space is left; a text that is cut off is an error.\<close>

definition next_value :: "string \<Rightarrow> (jv \<times> string) option" where
  "next_value s = pval (2 * length s + 2) s"

definition decode_next :: "string \<Rightarrow> decoded" where
  "decode_next s =
     (if skip s = [] then EndOfStream
      else case next_value (skip s) of None \<Rightarrow> Malformed | Some (v, rest) \<Rightarrow> Decoded v rest)"

lemma next_value_shorter: "next_value s = Some (v, rest) \<Longrightarrow> length rest < length s"
  unfolding next_value_def by (rule p_shorter(1))

lemma decode_next_shorter: "decode_next s = Decoded v rest \<Longrightarrow> length rest < length s"
  using skip_shorter [of s] next_value_shorter [of "skip s" v rest]
  by (auto simp: decode_next_def split: if_splits option.splits)

lemma decode_next_newline [simp]: "decode_next (CHR 0x0A # s) = decode_next s" "decode_next [] = EndOfStream"
proof -
  have "skip (CHR 0x0A # s) = skip s" by (simp add: is_space_def)
  then show "decode_next (CHR 0x0A # s) = decode_next s" by (simp only: decode_next_def)
qed (simp add: decode_next_def)

subsection \<open>The server's side of a connection\<close>

definition maxFrame :: nat where
  "maxFrame = 2 ^ 20"

text \<open>
  \<open>serveConn\<close>: one request, read from at most \<open>maxFrame\<close> bytes, and the responses that the handler sends,
  each with the identifier of the request. A request that cannot be decoded closes the connection.
\<close>

definition encode_response :: "string \<Rightarrow> Response \<Rightarrow> string" where
  "encode_response i r = frame (response_json (r\<lparr>rs_id := i\<rparr>))"

definition serveConn :: "(Request \<Rightarrow> 's \<Rightarrow> Response list \<times> 's) \<Rightarrow> string \<Rightarrow> 's \<Rightarrow> string \<times> 's" where
  "serveConn handler input s =
     (case decode_next (take maxFrame input) of
        Decoded v rest \<Rightarrow>
          (case decode_struct request_fields v zero_Request of
             None \<Rightarrow> ([], s)
           | Some request \<Rightarrow>
               (case handler request s of (rs, s') \<Rightarrow> (concat (map (encode_response (rq_id request)) rs), s')))
      | _ \<Rightarrow> ([], s))"

subsection \<open>The client's side\<close>

record link =
  lk_dial :: "error option"
  lk_write :: "error option"
  lk_reply :: "string \<Rightarrow> string"
  lk_broken :: "error option"

text \<open>The loop of \<open>Call\<close>; \<open>f\<close> is \<open>onResponse\<close> on a state of its own.\<close>

function read_responses :: "error option \<Rightarrow> ('c \<Rightarrow> Response \<Rightarrow> error option \<times> 'c) \<Rightarrow> string \<Rightarrow> 'c \<Rightarrow> error option \<times> 'c" where
  "read_responses broken f s c =
     (case decode_next s of
        EndOfStream \<Rightarrow> (broken, c)
      | Malformed \<Rightarrow> (Some json_error, c)
      | Decoded v rest \<Rightarrow>
          (case decode_struct response_fields v zero_Response of
             None \<Rightarrow> (Some json_error, c)
           | Some r \<Rightarrow>
               (case f c r of
                  (Some err, c') \<Rightarrow> (Some err, c')
                | (None, c') \<Rightarrow> if rs_final r then (None, c') else read_responses broken f rest c')))"
  by pat_completeness auto
termination
  by (relation "measure (\<lambda>(broken, f, s, c). length s)") (auto dest: decode_next_shorter)

declare read_responses.simps [simp del]

definition Call :: "link \<Rightarrow> Request \<Rightarrow> ('c \<Rightarrow> Response \<Rightarrow> error option \<times> 'c) \<Rightarrow> 'c \<Rightarrow> error option \<times> 'c" where
  "Call link request onResponse c =
     (case lk_dial link of
        Some err \<Rightarrow> (Some (Wrap ''connect to broker: '' err), c)
      | None \<Rightarrow>
          (case lk_write link of
             Some err \<Rightarrow> (Some err, c)
           | None \<Rightarrow> read_responses (lk_broken link) onResponse (lk_reply link (frame (request_json request))) c))"

subsection \<open>What is sent arrives\<close>

lemma ends_newline: "ends (CHR 0x0A # s)"
  by (simp add: ends_def num_char_def is_digit_def)

lemma decode_next_frame:
  assumes "numbers_ok v"
  shows "decode_next (frame v @ s) = Decoded (as_read v) (CHR 0x0A # s)"
proof -
  have sk: "skip (frame v @ s) = render v @ CHR 0x0A # s"
    using skip_render [OF assms, of "CHR 0x0A # s"] by (simp add: frame_def)
  obtain c r where "render v = c # r" using render_first [OF assms] by blast
  moreover have "next_value (render v @ CHR 0x0A # s) = Some (as_read v, CHR 0x0A # s)"
    unfolding next_value_def using json_fuel(1) [OF assms] by (intro parse_written(1) assms ends_newline) simp
  ultimately show ?thesis by (simp add: decode_next_def sk)
qed

lemma read_frame:
  assumes "response_numbers r"
  shows "read_responses broken f (frame (response_json r) @ s) c =
    (case f c (received r) of (Some err, c') \<Rightarrow> (Some err, c')
     | (None, c') \<Rightarrow> if rs_final r then (None, c') else read_responses broken f s c')"
proof -
  have "read_responses broken f (CHR 0x0A # s) c' = read_responses broken f s c'" for c'
    by (subst (1 2) read_responses.simps) simp
  then show ?thesis
    using decode_next_frame [OF numbers_wire(2) [OF assms], of s]
    by (subst read_responses.simps) (simp add: as_read_wire decode_response split: prod.split option.split)
qed

text \<open>What \<open>onResponse\<close> makes of a list of responses, up to the first error or final response.\<close>

primrec feed :: "('c \<Rightarrow> Response \<Rightarrow> error option \<times> 'c) \<Rightarrow> Response list \<Rightarrow> 'c \<Rightarrow> error option \<times> 'c" where
  "feed f [] c = (None, c)"
| "feed f (r # rs) c =
     (case f c r of
        (Some err, c') \<Rightarrow> (Some err, c')
      | (None, c') \<Rightarrow> if rs_final r then (None, c') else feed f rs c')"

definition wire :: "Response list \<Rightarrow> string" where
  "wire rs = concat (map (\<lambda>r. frame (response_json r)) rs)"

lemma wire_simps [simp]: "wire [] = []" "wire (r # rs) = frame (response_json r) @ wire rs"
  by (simp_all add: wire_def)

lemma read_end: "read_responses broken f [] c = (broken, c)"
  by (subst read_responses.simps) simp

lemma read_wire: "list_all response_numbers rs \<Longrightarrow> read_responses None f (wire rs) c = feed f (map received rs) c"
  by (induction rs arbitrary: c) (simp_all add: read_frame read_end split: prod.split option.split)

text \<open>A client that keeps what it is given.\<close>

definition keep :: "Response list \<Rightarrow> Response \<Rightarrow> error option \<times> Response list" where
  "keep rs r = (None, rs @ [r])"

lemma feed_keep: "list_all (\<lambda>r. \<not> rs_final r) qs \<Longrightarrow> feed keep (qs @ rs) c = feed keep rs (c @ qs)"
  by (induction qs arbitrary: c) (simp_all add: keep_def)

lemma serveConn_request:
  assumes "request_numbers request" and "length (frame (request_json request)) \<le> maxFrame"
  shows "serveConn handler (frame (request_json request) @ extra) s = (case handler (received_request request) s of
    (rs, s') \<Rightarrow> (concat (map (encode_response (rq_id (received_request request))) rs), s'))"
proof -
  have "take maxFrame (frame (request_json request) @ extra)
      = frame (request_json request) @ take (maxFrame - length (frame (request_json request))) extra"
    using assms(2) by simp
  then show ?thesis
    using decode_next_frame [OF numbers_wire(1) [OF assms(1)]]
    by (simp add: serveConn_def as_read_wire decode_request)
qed

lemma encode_responses: "concat (map (encode_response i) rs) = wire (map (rs_id_update (\<lambda>_. i)) rs)"
  by (simp add: wire_def encode_response_def [abs_def] comp_def)

text \<open>A connection without faults whose other end is \<open>serveConn\<close> with a handler.\<close>

definition served_by :: "(Request \<Rightarrow> 's \<Rightarrow> Response list \<times> 's) \<Rightarrow> 's \<Rightarrow> link" where
  "served_by handler s = \<lparr>lk_dial = None, lk_write = None, lk_reply = (\<lambda>t. fst (serveConn handler t s)), lk_broken = None\<rparr>"

lemma call_served:
  assumes "request_numbers request" and "length (frame (request_json request)) \<le> maxFrame"
    and "handler (received_request request) s = (rs, s')" and "list_all response_numbers rs"
  shows "Call (served_by handler s) request f c
    = feed f (map (\<lambda>r. received (r\<lparr>rs_id := rq_id (received_request request)\<rparr>)) rs) c"
proof -
  have "list_all response_numbers (map (rs_id_update (\<lambda>_. rq_id (received_request request))) rs)"
    using assms(4) by (auto simp: list_all_iff response_numbers_def)
  from read_wire [OF this] show ?thesis
    using serveConn_request [OF assms(1,2), of handler "[]" s]
    by (simp add: Call_def served_by_def assms(3) encode_responses comp_def)
qed

subsection \<open>Handlers that answer\<close>

text \<open>
  What a client relies on: the handler of a connection sends any number of responses that are not final and
  then a final one, with values that can be written.
\<close>

locale responder =
  fixes handler :: "Request \<Rightarrow> 's \<Rightarrow> Response list \<times> 's"
  assumes answers_once: "\<exists>q r. fst (handler request s) = q @ [r] \<and> list_all (\<lambda>r. \<not> rs_final r) q \<and> rs_final r
    \<and> list_all response_numbers (q @ [r])"
begin

lemma handler_numbers: "list_all response_numbers (fst (handler request s))"
  using answers_once [of request s] by fastforce

lemma call_delivers:
  assumes "request_numbers request" and "length (frame (request_json request)) \<le> maxFrame"
  shows "Call (served_by handler s) request keep [] =
    (None, map (\<lambda>r. received (r\<lparr>rs_id := rq_id (received_request request)\<rparr>)) (fst (handler (received_request request) s)))"
proof -
  let ?req = "received_request request" and ?got = "\<lambda>r. received (r\<lparr>rs_id := rq_id (received_request request)\<rparr>)"
  obtain q r where qr: "fst (handler ?req s) = q @ [r]" "list_all (\<lambda>r. \<not> rs_final r) q" "rs_final r"
    "list_all response_numbers (q @ [r])"
    using answers_once [of ?req s] by blast
  obtain v where served: "handler ?req s = (q @ [r], v)" using qr(1) by (cases "handler ?req s") simp
  have "list_all (\<lambda>r. \<not> rs_final r) (map ?got q)" using qr(2) by (simp add: list_all_iff)
  from feed_keep [OF this, of "[?got r]" "[]"] show ?thesis
    using call_served [where handler = handler and s = s and f = keep and c = "[]", OF assms served qr(4)] qr(1,3)
    by (simp add: keep_def)
qed

text \<open>A connection carries one final response, or nothing when no request could be decoded.\<close>

lemma connection_answered:
  assumes "serveConn handler input s = (out, s')"
  shows "(out = [] \<and> s' = s) \<or> (\<exists>request q r. fst (handler request s) = q @ [r] \<and> rs_final r
    \<and> out = wire (map (rs_id_update (\<lambda>_. rq_id request)) (q @ [r])) \<and> s' = snd (handler request s))"
proof (cases "\<exists>v rest request. decode_next (take maxFrame input) = Decoded v rest \<and> decode_struct request_fields v zero_Request = Some request")
  case True
  then obtain v rest request where req: "decode_next (take maxFrame input) = Decoded v rest"
    "decode_struct request_fields v zero_Request = Some request" by blast
  obtain rs u where served: "handler request s = (rs, u)" by fastforce
  obtain q r where "rs = q @ [r]" "rs_final r" using answers_once [of request s] served by auto
  moreover have "out = wire (map (rs_id_update (\<lambda>_. rq_id request)) rs)" "s' = u"
    using assms by (simp_all add: serveConn_def req served encode_responses)
  ultimately show ?thesis using served by (intro disjI2 exI [of _ request] exI [of _ q] exI [of _ r]) simp
next
  case False
  then have "serveConn handler input s = ([], s)" by (fastforce simp: serveConn_def split: decoded.split option.split)
  then show ?thesis using assms by simp
qed

end

end
