(* ===== verification/Endpoint.thy ===== *)
theory Endpoint
  imports Ipc
begin

section \<open>Serving an endpoint (internal/ipc/ipc.go, transport_unix.go, transport_windows.go)\<close>

text \<open>
  The loop that accepts connections, the polling of \<open>Wait\<close> and the Unix socket an endpoint is. What the
  operating system answers is an argument: the outcomes of \<open>Accept\<close>, of each attempt to dial, and the
  errors of the calls on the file system. Connections are served by goroutines; the model serves them one
  after the other, in the order in which they are accepted.
\<close>

subsection \<open>Serve and Wait\<close>

definition ErrClosed :: error where
  "ErrClosed = Sentinel ''use of closed network connection''"

text \<open>\<open>Accept\<close> gives a connection, of which all that the client sends is known, or an error, and then the context may be done.\<close>

datatype accepted = Connection string | AcceptError error bool

text \<open>The result is None while the loop is waiting; the outputs are those of the connections served.\<close>

fun Serve_loop :: "(Request \<Rightarrow> 's \<Rightarrow> Response list \<times> 's) \<Rightarrow> accepted list \<Rightarrow> 's \<Rightarrow> error option option \<times> string list \<times> 's" where
  "Serve_loop handler [] s = (None, [], s)"
| "Serve_loop handler (Connection input # evs) s =
     (case serveConn handler input s of (out, s') \<Rightarrow>
        (case Serve_loop handler evs s' of (res, outs, s'') \<Rightarrow> (res, out # outs, s'')))"
| "Serve_loop handler (AcceptError err ctx_done # evs) s =
     (if ctx_done \<or> error_is err ErrClosed then (Some None, [], s) else (Some (Some err), [], s))"

definition Serve :: "error option \<Rightarrow> (Request \<Rightarrow> 's \<Rightarrow> Response list \<times> 's) \<Rightarrow> accepted list \<Rightarrow> 's
    \<Rightarrow> error option option \<times> string list \<times> 's" where
  "Serve listen_err handler evs s =
     (case listen_err of Some err \<Rightarrow> (Some (Some err), [], s) | None \<Rightarrow> Serve_loop handler evs s)"

text \<open>Each attempt of \<open>Wait\<close>: whether dialling succeeds, and the error of the context if it is done before the next tick.\<close>

fun Wait :: "(bool \<times> error option) list \<Rightarrow> error option option" where
  "Wait [] = None"
| "Wait ((True, _) # _) = Some None"
| "Wait ((False, Some err) # _) = Some (Some err)"
| "Wait ((False, None) # attempts) = Wait attempts"

lemma Serve_loop_all:
  "Serve_loop handler (map Connection inputs @ evs) s =
     (case fold (\<lambda>i (outs, s). case serveConn handler i s of (out, s') \<Rightarrow> (outs @ [out], s')) inputs ([], s) of
        (outs, s') \<Rightarrow> (case Serve_loop handler evs s' of (res, outs', s'') \<Rightarrow> (res, outs @ outs', s'')))"
proof -
  have gen: "fold (\<lambda>i (outs, s). case serveConn handler i s of (out, s') \<Rightarrow> (outs @ [out], s')) xs (ps @ qs, t)
      = apfst ((@) ps) (fold (\<lambda>i (outs, s). case serveConn handler i s of (out, s') \<Rightarrow> (outs @ [out], s')) xs (qs, t))"
    for xs ps qs t
    by (induction xs arbitrary: qs t) (simp_all split: prod.split)
  show ?thesis
  proof (induction inputs arbitrary: s)
    case (Cons i inputs)
    then show ?case using gen [of _ "[_]" "[]"] by (auto simp: apfst_def split: prod.splits)
  qed simp
qed

subsection \<open>The Unix socket\<close>

text \<open>The file at the endpoint: none, or a socket with or without a process that listens on it, and its permissions.\<close>

datatype node = Absent | Socket bool nat

record sys =
  sy_mkdir :: "error option"
  sy_remove :: "error option"
  sy_listen :: "error option"
  sy_chmod :: "error option"

definition owner_only :: nat where
  "owner_only = 6 * 64"

text \<open>\<open>net.Listen\<close> makes the socket with the permissions \<open>mode\<close> that the umask leaves; a listener that is closed again removes it.\<close>

definition bind_socket :: "sys \<Rightarrow> node \<Rightarrow> unit result \<times> node" where
  "bind_socket y n =
     (case sy_listen y of
        Some err \<Rightarrow> (Inl err, n)
      | None \<Rightarrow> (case sy_chmod y of Some err \<Rightarrow> (Inl err, Absent) | None \<Rightarrow> (Inr (), Socket True owner_only)))"

definition listen :: "sys \<Rightarrow> string \<Rightarrow> node \<Rightarrow> unit result \<times> node" where
  "listen y endpoint n =
     (case sy_mkdir y of
        Some err \<Rightarrow> (Inl err, n)
      | None \<Rightarrow>
          (case n of
             Absent \<Rightarrow> bind_socket y n
           | Socket listening mode \<Rightarrow>
               if listening then (Inl (Errorf (''broker is already listening at '' @ endpoint)), n)
               else (case sy_remove y of Some err \<Rightarrow> (Inl err, n) | None \<Rightarrow> bind_socket y Absent)))"

text \<open>
  \<open>Close\<close> of the listener: the listening socket is closed, which reports an error the second time, and the
  file at the path is removed, whoever bound it; the error of \<open>Remove\<close> is dropped.
\<close>

definition cleanup_Close :: "sys \<Rightarrow> bool \<Rightarrow> node \<Rightarrow> error option \<times> node" where
  "cleanup_Close y closed n =
     (if closed then Some ErrClosed else None, if sy_remove y = None then Absent else n)"

text \<open>\<open>dial\<close>: \<open>DialContext\<close> of a dialer, by network and address.\<close>

definition dial_unix :: "(string \<Rightarrow> string \<Rightarrow> 'c result) \<Rightarrow> string \<Rightarrow> 'c result" where
  "dial_unix dial_context endpoint = dial_context ''unix'' endpoint"

subsection \<open>The named pipe of Windows (transport_windows.go)\<close>

text \<open>The pipe is go-winio's: \<open>ListenPipe\<close> and \<open>DialPipeContext\<close> are arguments, the configuration is the program's.\<close>

record PipeConfig =
  SecurityDescriptor :: string
  MessageMode :: bool
  InputBufferSize :: int
  OutputBufferSize :: int

definition pipe_config :: PipeConfig where
  "pipe_config = \<lparr>SecurityDescriptor = ''D:P(A;;GA;;;SY)(A;;GA;;;BA)(A;;GA;;;OW)'', MessageMode = False,
     InputBufferSize = 65536, OutputBufferSize = 65536\<rparr>"

definition listen_pipe :: "(string \<Rightarrow> PipeConfig \<Rightarrow> 'l result) \<Rightarrow> string \<Rightarrow> 'l result" where
  "listen_pipe ListenPipe endpoint = ListenPipe endpoint pipe_config"

definition dial_pipe :: "(string \<Rightarrow> 'c result) \<Rightarrow> string \<Rightarrow> 'c result" where
  "dial_pipe DialPipeContext endpoint = DialPipeContext endpoint"

lemma listen_Inr: "listen y endpoint n = (Inr u, n') \<Longrightarrow> n' = Socket True owner_only \<and> (\<forall>mode. n \<noteq> Socket True mode)"
  by (auto simp: listen_def bind_socket_def split: option.splits node.splits if_splits)

lemma listen_keeps_live: "snd (listen y endpoint (Socket True mode)) = Socket True mode"
  by (simp add: listen_def split: option.split)

end
