(* ===== verification/Cli.thy ===== *)
theory Cli
  imports Endpoint VaultInit
begin

section \<open>The command line client (cmd/vcsm/main.go)\<close>

text \<open>
  A command is a function from its arguments and the state of the shell to an exit code and the new state:
  what was written to standard output and standard error, the passwords that are typed at the terminal,
  and the world with the disk, which only \<open>init\<close> works on. The broker is behind the link of the
  endpoint. How \<open>json.MarshalIndent\<close> lays out a value is an argument, and what the \<open>flag\<close> package writes
  about a bad flag is left out.
\<close>

record options =
  op_vault :: string
  op_endpoint :: string

record shell =
  sh_world :: "disk world"
  sh_terminal :: bool
  sh_typed :: "bytes result list"
  sh_out :: string
  sh_err :: string

record tool =
  tl_prims :: prims
  tl_link :: "string \<Rightarrow> link"
  tl_pretty :: "jv \<Rightarrow> string"

definition newline :: string where
  "newline = [CHR 0x0A]"

definition print_out :: "string \<Rightarrow> shell \<Rightarrow> shell" where
  "print_out t sh = sh\<lparr>sh_out := sh_out sh @ t\<rparr>"

definition print_err :: "string \<Rightarrow> shell \<Rightarrow> shell" where
  "print_err t sh = sh\<lparr>sh_err := sh_err sh @ t\<rparr>"

subsection \<open>Messages\<close>

definition printError :: "error \<Rightarrow> shell \<Rightarrow> int \<times> shell" where
  "printError err sh = (1, print_err (''error: '' @ error_text err @ newline) sh)"

definition printCallResult :: "error option \<Rightarrow> shell \<Rightarrow> int \<times> shell" where
  "printCallResult err sh = (case err of None \<Rightarrow> (0, sh) | Some e \<Rightarrow> printError e sh)"

definition usage_lines :: "string list" where
  "usage_lines =
     [''VCSM protected-mode CLI'', [], ''Usage:'', ''  vcsm init'', ''  vcsm status | unlock | lock'',
      ''  vcsm secret create|rotate <project> <environment> <name> [--profile default|alnum|password|database]'',
      ''  vcsm secret revoke <project> <environment> <name>'', ''  vcsm secret list <project> <environment>'',
      ''  vcsm action configure <project> <environment> <name> [--cwd dir] [--secret ENV=secret] [--output metadata|redacted] -- executable [args...]'',
      ''  vcsm action list <project> <environment>'', ''  vcsm run <project> <environment> <approved-action>'',
      ''  vcsm audit [limit]'', [], ''Global options --vault and --endpoint must appear before the command.'']"

definition usage :: "shell \<Rightarrow> shell" where
  "usage = print_err (concat (map (\<lambda>l. l @ newline) usage_lines))"

subsection \<open>Passwords\<close>

definition promptPassword :: "string \<Rightarrow> shell \<Rightarrow> bytes result \<times> shell" where
  "promptPassword label sh =
     (if \<not> sh_terminal sh
      then (Inl (Errorf ''master password requires a local interactive terminal; it cannot be piped, passed as an argument, or read from an environment variable''), sh)
      else let sh = print_err label sh;
               (r, typed) = (case sh_typed sh of [] \<Rightarrow> (Inl (Sentinel ''EOF''), []) | r # rs \<Rightarrow> (r, rs))
           in (r, print_err newline (sh\<lparr>sh_typed := typed\<rparr>)))"

subsection \<open>Calls\<close>

definition request_id :: "shell \<Rightarrow> string \<times> shell" where
  "request_id sh =
     (case rand_read 8 (w_tape (sh_world sh)) of
        (r, tape) \<Rightarrow> (hex_encode (case r of Inl _ \<Rightarrow> replicate 8 0 | Inr b \<Rightarrow> b), sh\<lparr>sh_world := (sh_world sh)\<lparr>w_tape := tape\<rparr>\<rparr>))"

definition call :: "tool \<Rightarrow> options \<Rightarrow> string \<Rightarrow> jv \<Rightarrow> ('c \<Rightarrow> Response \<Rightarrow> error option \<times> 'c) \<Rightarrow> (shell \<Rightarrow> 'c) \<Rightarrow> shell
    \<Rightarrow> error option \<times> 'c" where
  "call T opts operation payload handler start sh =
     (case request_id sh of (i, sh) \<Rightarrow>
        Call (tl_link T (op_endpoint opts)) \<lparr>rq_id = i, rq_operation = operation, rq_payload = Some payload\<rparr> handler (start sh))"

definition print_response :: "tool \<Rightarrow> shell \<Rightarrow> Response \<Rightarrow> error option \<times> shell" where
  "print_response T sh response =
     (if \<not> rs_ok response then (Some (Errorf (rs_error response)), sh)
      else (None, case rs_data response of
                    Some v \<Rightarrow> if rs_final response then print_out (tl_pretty T v @ newline) sh else sh
                  | None \<Rightarrow> sh))"

definition callAndPrint :: "tool \<Rightarrow> options \<Rightarrow> string \<Rightarrow> jv \<Rightarrow> shell \<Rightarrow> int \<times> shell" where
  "callAndPrint T opts operation payload sh =
     (case call T opts operation payload (print_response T) (\<lambda>sh. sh) sh of (err, sh) \<Rightarrow> printCallResult err sh)"

subsection \<open>init and unlock\<close>

definition initVault :: "tool \<Rightarrow> options \<Rightarrow> string list \<Rightarrow> shell \<Rightarrow> int \<times> shell" where
  "initVault T opts args sh =
     (if args \<noteq> [] then (2, print_err (''usage: vcsm init'' @ newline) sh)
      else case promptPassword ''New VCSM master password: '' sh of
        (Inl err, sh) \<Rightarrow> printError err sh
      | (Inr password, sh) \<Rightarrow>
          (case promptPassword ''Confirm master password: '' sh of
             (Inl err, sh) \<Rightarrow> printError err sh
           | (Inr confirmation, sh) \<Rightarrow>
               if password \<noteq> confirmation then printError (Errorf ''passwords do not match'') sh
               else if length password < 15 then printError (Errorf ''master password must be at least 15 characters'') sh
               else if length password > 256 then printError (Errorf ''master password must be at most 256 characters'') sh
               else (case Initialize (tl_prims T) (op_vault opts) password DefaultKDFParams (sh_world sh) of
                       (Inl err, w) \<Rightarrow> printError err (sh\<lparr>sh_world := w\<rparr>)
                     | (Inr store, w) \<Rightarrow>
                         (0, print_out (''Initialized protected vault '' @ st_vaultID store @ '' at '' @ op_vault opts @ newline
                               @ ''Restart or start vcsm-broker, then run vcsm unlock.'' @ newline) (sh\<lparr>sh_world := w\<rparr>)))))"

definition unlock :: "tool \<Rightarrow> options \<Rightarrow> shell \<Rightarrow> int \<times> shell" where
  "unlock T opts sh =
     (case promptPassword ''VCSM master password: '' sh of
        (Inl err, sh) \<Rightarrow> printError err sh
      | (Inr password, sh) \<Rightarrow> callAndPrint T opts ''unlock'' (unlock_json \<lparr>ur_password = Some password\<rparr>) sh)"

subsection \<open>secret and audit\<close>

definition secretCommand :: "tool \<Rightarrow> options \<Rightarrow> string list \<Rightarrow> shell \<Rightarrow> int \<times> shell" where
  "secretCommand T opts args sh =
     (case args of
        verb # project # environment # rest \<Rightarrow>
          (let scope = \<lparr>sc_project = project, sc_environment = environment\<rparr> in
           if verb = ''list''
           then (if rest \<noteq> [] then (2, sh)
                 else callAndPrint T opts ''secret.list'' (scope_request_json \<lparr>sq_scope = scope\<rparr>) sh)
           else (case rest of
                   [] \<Rightarrow> (2, sh)
                 | name # opt_args \<Rightarrow>
                     (case (case opt_args of
                              [] \<Rightarrow> Some ''default''
                            | [flag, profile] \<Rightarrow> if flag = ''--profile'' then Some profile else None
                            | _ \<Rightarrow> None) of
                        None \<Rightarrow> (2, sh)
                      | Some profile \<Rightarrow>
                          if verb = ''create'' \<or> verb = ''rotate'' \<or> verb = ''revoke''
                          then callAndPrint T opts (''secret.'' @ verb)
                                 (secret_request_json \<lparr>sr_scope = scope, sr_name = name, sr_profile = profile\<rparr>) sh
                          else (2, sh))))
      | _ \<Rightarrow> (2, print_err (''usage: vcsm secret {create|rotate|revoke|list} <project> <environment> [name] [--profile profile]'' @ newline) sh))"

text \<open>\<open>strconv.Atoi\<close>: an optional sign and decimal digits, within the range of an \<open>int\<close>.\<close>

definition Atoi :: "string \<Rightarrow> int option" where
  "Atoi t =
     (let negative = (t \<noteq> [] \<and> hd t = CHR ''-'');
          digits = (if t \<noteq> [] \<and> (hd t = CHR ''-'' \<or> hd t = CHR ''+'') then tl t else t)
      in if digits = [] then None
         else case undec_from 0 digits of
           None \<Rightarrow> None
         | Some n \<Rightarrow> (let i = (if negative then - int n else int n) in if int64 i then Some i else None))"

definition auditCommand :: "tool \<Rightarrow> options \<Rightarrow> string list \<Rightarrow> shell \<Rightarrow> int \<times> shell" where
  "auditCommand T opts args sh =
     (case (case args of [] \<Rightarrow> Some 100 | [a] \<Rightarrow> Atoi a | _ \<Rightarrow> None) of
        None \<Rightarrow> (2, sh)
      | Some limit \<Rightarrow> callAndPrint T opts ''audit.list'' (audit_request_json \<lparr>lq_limit = limit\<rparr>) sh)"

subsection \<open>action\<close>

text \<open>\<open>strings.Cut(s, "=")\<close>.\<close>

definition cut_equals :: "string \<Rightarrow> (string \<times> string) option" where
  "cut_equals s =
     (if CHR ''='' \<in> set s
      then Some (takeWhile (\<lambda>c. c \<noteq> CHR ''='') s, tl (dropWhile (\<lambda>c. c \<noteq> CHR ''='') s))
      else None)"

text \<open>The options of \<open>configure\<close> up to the double dash; the rest starts with it.\<close>

fun action_flags :: "string list \<Rightarrow> Action \<Rightarrow> (Action \<times> string list) option" where
  "action_flags [] action = Some (action, [])"
| "action_flags (flag # args) action =
     (if flag = ''--'' then Some (action, flag # args)
      else if flag = ''--cwd''
      then (case args of [] \<Rightarrow> None | dir # rest \<Rightarrow> action_flags rest (action\<lparr>ac_directory := dir\<rparr>))
      else if flag = ''--secret''
      then (case args of
              [] \<Rightarrow> None
            | entry # rest \<Rightarrow>
                (case cut_equals entry of
                   None \<Rightarrow> None
                 | Some (envName, secretName) \<Rightarrow>
                     action_flags rest (action\<lparr>ac_secrets :=
                       Some (map_put envName secretName (case ac_secrets action of None \<Rightarrow> [] | Some m \<Rightarrow> m))\<rparr>)))
      else if flag = ''--output''
      then (case args of [] \<Rightarrow> None | policy # rest \<Rightarrow> action_flags rest (action\<lparr>ac_output_policy := policy\<rparr>))
      else None)"

definition configure_action :: "string list \<Rightarrow> Action option" where
  "configure_action args =
     (case args of
        verb # project # environment # name # tail \<Rightarrow>
          if verb \<noteq> ''configure'' \<or> length args < 6 then None
          else (case action_flags tail (zero_Action\<lparr>ac_project := project, ac_environment := environment, ac_name := name,
                       ac_secrets := Some [], ac_output_policy := ''metadata''\<rparr>) of
                  Some (action, _ # executable # arguments) \<Rightarrow>
                    Some (action\<lparr>ac_executable := executable, ac_arguments := (if arguments = [] then None else Some arguments)\<rparr>)
                | _ \<Rightarrow> None)
      | _ \<Rightarrow> None)"

definition actionCommand :: "tool \<Rightarrow> options \<Rightarrow> string list \<Rightarrow> shell \<Rightarrow> int \<times> shell" where
  "actionCommand T opts args sh =
     (case args of
        verb # project # environment # rest \<Rightarrow>
          if verb = ''list''
          then (if rest \<noteq> [] then (2, sh)
                else callAndPrint T opts ''action.list''
                  (scope_request_json \<lparr>sq_scope = \<lparr>sc_project = project, sc_environment = environment\<rparr>\<rparr>) sh)
          else (case configure_action args of
                  None \<Rightarrow> (2, sh)
                | Some action \<Rightarrow>
                    (case promptPassword ''Approve action with master password: '' sh of
                       (Inl err, sh) \<Rightarrow> printError err sh
                     | (Inr password, sh) \<Rightarrow>
                         callAndPrint T opts ''action.configure''
                           (configure_json \<lparr>cq_action = action, cq_master_password = Some password\<rparr>) sh))
      | _ \<Rightarrow> (2, print_err (''usage: vcsm action list <project> <environment> | vcsm action configure ...'' @ newline) sh))"

subsection \<open>run\<close>

definition unmarshal_string :: "jv option \<Rightarrow> string result" where
  "unmarshal_string data =
     (case data of Some (JStr t) \<Rightarrow> Inr t | Some JNull \<Rightarrow> Inr [] | _ \<Rightarrow> Inl json_error)"

text \<open>
  The exit code of the final response: the error of \<open>Unmarshal\<close> is ignored, so a member that does not fit
  leaves its field zero and the others are still read.
\<close>

definition set_loosely :: "(string \<times> 'r field_setter) list \<Rightarrow> (string \<times> jv) list \<Rightarrow> 'r \<Rightarrow> 'r" where
  "set_loosely fs = fold (\<lambda>(k, v) r. case set_members fs [(k, v)] r of None \<Rightarrow> r | Some r' \<Rightarrow> r')"

definition result_exit_code :: "jv option \<Rightarrow> int" where
  "result_exit_code data =
     (case data of
        Some (JObj ms) \<Rightarrow> rr_exit_code (set_loosely run_result_fields ms \<lparr>rr_action = [], rr_exit_code = 0\<rparr>)
      | _ \<Rightarrow> 0)"

definition run_response_handler :: "int \<times> shell \<Rightarrow> Response \<Rightarrow> error option \<times> (int \<times> shell)" where
  "run_response_handler c response =
     (case c of (exit_code, sh) \<Rightarrow>
        if rs_event response = ''stdout'' \<or> rs_event response = ''stderr''
        then (case unmarshal_string (rs_data response) of
                Inl err \<Rightarrow> (Some err, c)
              | Inr output \<Rightarrow>
                  (None, exit_code, (if rs_event response = ''stdout'' then print_out else print_err) output sh))
        else if rs_final response
        then (if rs_ok response then None else Some (Errorf (rs_error response)), result_exit_code (rs_data response), sh)
        else (None, c))"

definition runCommand :: "tool \<Rightarrow> options \<Rightarrow> string list \<Rightarrow> shell \<Rightarrow> int \<times> shell" where
  "runCommand T opts args sh =
     (case args of
        [project, environment, name] \<Rightarrow>
          (case call T opts ''run'' (action_request_json
                  \<lparr>aq_scope = \<lparr>sc_project = project, sc_environment = environment\<rparr>, aq_name = name\<rparr>)
                  run_response_handler (\<lambda>sh. (1, sh)) sh of
             (None, exit_code, sh) \<Rightarrow> (exit_code, sh)
           | (Some err, exit_code, sh) \<Rightarrow>
               (if exit_code = 0 then 1 else exit_code, print_err (''error: '' @ error_text err @ newline) sh))
      | _ \<Rightarrow> (2, print_err (''usage: vcsm run <project> <environment> <approved-action>'' @ newline) sh))"

subsection \<open>The whole command line\<close>

text \<open>
  \<open>flag.FlagSet.Parse\<close> with the two string flags: one or two dashes, the value after an equals sign or as
  the next argument, up to the first argument that is not a flag or a double dash. \<open>BadFlags True\<close> is
  the request for help.
\<close>

datatype flags = BadFlags bool | Flags options "string list"

definition flag_name :: "string \<Rightarrow> string" where
  "flag_name arg = (if take 2 arg = ''--'' then drop 2 arg else drop 1 arg)"

definition set_flag :: "string \<Rightarrow> string \<Rightarrow> options \<Rightarrow> options" where
  "set_flag key v opts = (if key = ''vault'' then opts\<lparr>op_vault := v\<rparr> else opts\<lparr>op_endpoint := v\<rparr>)"

fun parse_flags :: "options \<Rightarrow> string list \<Rightarrow> flags" where
  "parse_flags opts [] = Flags opts []"
| "parse_flags opts (arg # args) =
     (if length arg < 2 \<or> hd arg \<noteq> CHR ''-'' then Flags opts (arg # args)
      else if arg = ''--'' then Flags opts args
      else let name = flag_name arg in
        if name = [] \<or> hd name = CHR ''-'' \<or> hd name = CHR ''='' then BadFlags False
        else let (key, val) = (case cut_equals name of Some (key, v) \<Rightarrow> (key, Some v) | None \<Rightarrow> (name, None)) in
          if key \<noteq> ''vault'' \<and> key \<noteq> ''endpoint'' then BadFlags (key = ''help'' \<or> key = ''h'')
          else case (val, args) of
            (Some v, _) \<Rightarrow> parse_flags (set_flag key v opts) args
          | (None, v # rest) \<Rightarrow> parse_flags (set_flag key v opts) rest
          | (None, []) \<Rightarrow> BadFlags False)"

definition run_cli :: "tool \<Rightarrow> options result \<Rightarrow> string list \<Rightarrow> shell \<Rightarrow> int \<times> shell" where
  "run_cli T paths args sh =
     (case paths of
        Inl err \<Rightarrow> printError err sh
      | Inr defaults \<Rightarrow>
          (case parse_flags defaults args of
             BadFlags help \<Rightarrow> (2, sh)
           | Flags opts [] \<Rightarrow> (2, usage sh)
           | Flags opts (command # args) \<Rightarrow>
               if command = ''init'' then initVault T opts args sh
               else if command = ''status'' then callAndPrint T opts ''status'' JNull sh
               else if command = ''unlock'' then unlock T opts sh
               else if command = ''lock'' then callAndPrint T opts ''lock'' JNull sh
               else if command = ''secret'' then secretCommand T opts args sh
               else if command = ''action'' then actionCommand T opts args sh
               else if command = ''run'' then runCommand T opts args sh
               else if command = ''audit'' then auditCommand T opts args sh
               else if command = ''help'' \<or> command = ''-h'' \<or> command = ''--help'' then (0, usage sh)
               else (2, usage (print_err (''unknown command '' @ go_quote command @ newline) sh))))"

end
