(* ===== verification/Platform.thy ===== *)
theory Platform
  imports Json
begin

section \<open>Paths (internal/platform/path.go)\<close>

text \<open>
  Where the vault and the endpoint are by default, and the expansion of a path. The environment is a map;
  \<open>filepath.Clean\<close> and \<open>filepath.Join\<close> are those of Unix, and the \<open>Join\<close> of Windows is an argument.
\<close>

type_synonym environ = "string \<Rightarrow> string option"

definition Getenv :: "environ \<Rightarrow> string \<Rightarrow> string" where
  "Getenv env name = (case env name of None \<Rightarrow> [] | Some v \<Rightarrow> v)"

definition UserHomeDir :: "string \<Rightarrow> environ \<Rightarrow> string result" where
  "UserHomeDir goos env =
     (let (var, msg) = (if goos = ''windows'' then (''USERPROFILE'', ''%userprofile% is not defined'') else (''HOME'', ''$HOME is not defined''))
      in if Getenv env var \<noteq> [] then Inr (Getenv env var) else Inl (Errorf msg))"

subsection \<open>Clean and Join\<close>

fun split_slash :: "string \<Rightarrow> string list" where
  "split_slash [] = [[]]"
| "split_slash (c # cs) =
     (if c = CHR ''/'' then [] # split_slash cs
      else (case split_slash cs of [] \<Rightarrow> [[c]] | p # ps \<Rightarrow> (c # p) # ps))"

fun join_slash :: "string list \<Rightarrow> string" where
  "join_slash [] = []"
| "join_slash [p] = p"
| "join_slash (p # q # ps) = p @ ''/'' @ join_slash (q # ps)"

text \<open>The elements kept so far are on a stack, the last one first.\<close>

definition clean_step :: "bool \<Rightarrow> string \<Rightarrow> string list \<Rightarrow> string list" where
  "clean_step rooted p stack =
     (if p = [] \<or> p = ''.'' then stack
      else if p = ''..''
      then (case stack of
              [] \<Rightarrow> if rooted then [] else [''..'']
            | last_dir # below \<Rightarrow> if last_dir = ''..'' then ''..'' # stack else below)
      else p # stack)"

definition Clean :: "string \<Rightarrow> string" where
  "Clean path =
     (let rooted = (path \<noteq> [] \<and> hd path = CHR ''/'');
          body = join_slash (rev (fold (clean_step rooted) (split_slash path) []))
      in if rooted then CHR ''/'' # body else if body = [] then ''.'' else body)"

definition Join :: "string list \<Rightarrow> string" where
  "Join ps = (case dropWhile (\<lambda>p. p = []) ps of [] \<Rightarrow> [] | qs \<Rightarrow> Clean (join_slash qs))"

subsection \<open>ExpandEnv\<close>

definition alpha_num :: "char \<Rightarrow> bool" where
  "alpha_num c \<longleftrightarrow> c = CHR ''_'' \<or> is_digit c \<or> 97 \<le> code c \<and> code c \<le> 122 \<or> 65 \<le> code c \<and> code c \<le> 90"

definition special_var :: "char \<Rightarrow> bool" where
  "special_var c \<longleftrightarrow> c \<in> set ''*#$@!?-'' \<or> is_digit c"

text \<open>The name after a dollar sign and how many characters it takes.\<close>

definition getShellName :: "string \<Rightarrow> string \<times> nat" where
  "getShellName s =
     (if s \<noteq> [] \<and> hd s = CHR ''{''
      then (if 2 < length s \<and> special_var (s ! 1) \<and> s ! 2 = CHR ''}'' then ([s ! 1], 3)
            else if CHR ''}'' \<in> set (tl s)
            then (let name = takeWhile (\<lambda>c. c \<noteq> CHR ''}'') (tl s) in if name = [] then ([], 2) else (name, length name + 2))
            else ([], 1))
      else if s \<noteq> [] \<and> special_var (hd s) then ([hd s], 1)
      else (takeWhile alpha_num s, length (takeWhile alpha_num s)))"

function ExpandEnv :: "environ \<Rightarrow> string \<Rightarrow> string" where
  "ExpandEnv env [] = []"
| "ExpandEnv env (c # s) =
     (if c = CHR ''$'' \<and> s \<noteq> []
      then (case getShellName s of (name, w) \<Rightarrow>
              (if name \<noteq> [] then Getenv env name else if 0 < w then [] else ''$'') @ ExpandEnv env (drop w s))
      else c # ExpandEnv env s)"
  by pat_completeness auto
termination
  by (relation "measure (\<lambda>(env, s). length s)") auto

definition ExpandPath :: "string \<Rightarrow> environ \<Rightarrow> string \<Rightarrow> string result" where
  "ExpandPath goos env path =
     (let home = (case UserHomeDir goos env of Inl err \<Rightarrow> Inl (Wrap ''failed to resolve home directory: '' err) | Inr h \<Rightarrow> Inr h)
      in if path = [] then Inr []
         else if path = ''~'' then home
         else if prefix ''~/'' path
         then and_then home (\<lambda>h. Inr (Clean (ExpandEnv env (Join [h, drop 2 path]))))
         else Inr (Clean (ExpandEnv env path)))"

subsection \<open>The default paths\<close>

record Paths =
  pa_data :: string
  pa_vault :: string
  pa_endpoint :: string

definition DefaultPaths :: "string \<Rightarrow> (string list \<Rightarrow> string) \<Rightarrow> environ \<Rightarrow> Paths result" where
  "DefaultPaths goos join env =
     and_then (UserHomeDir goos env) (\<lambda>home.
     let (data, endpoint) =
       (if goos = ''darwin''
        then (join [home, ''Library'', ''Application Support'', ''VCSM''],
              join [home, ''Library'', ''Caches'', ''VCSM'', ''broker.sock''])
        else if goos = ''windows''
        then (join [if Getenv env ''LOCALAPPDATA'' = [] then join [home, ''AppData'', ''Local''] else Getenv env ''LOCALAPPDATA'', ''VCSM''],
              replicate 2 (CHR 0x5C) @ ''.'' @ [CHR 0x5C] @ ''pipe'' @ [CHR 0x5C] @ ''vcsm-broker'')
        else let data = join [if Getenv env ''XDG_STATE_HOME'' = [] then join [home, ''.local'', ''state''] else Getenv env ''XDG_STATE_HOME'', ''vcsm'']
             in (data, join [if Getenv env ''XDG_RUNTIME_DIR'' = [] then data else Getenv env ''XDG_RUNTIME_DIR'', ''vcsm'', ''broker.sock'']))
     in Inr \<lparr>pa_data = data, pa_vault = join [data, ''vault.db''], pa_endpoint = endpoint\<rparr>)"

subsection \<open>Clean paths\<close>

text \<open>A clean stack: no empty or dot elements, and parents only at the bottom of a relative path.\<close>

definition clean_stack :: "bool \<Rightarrow> string list \<Rightarrow> bool" where
  "clean_stack rooted stack \<longleftrightarrow> (\<forall>p\<in>set stack. p \<noteq> [] \<and> p \<noteq> ''.'' \<and> CHR ''/'' \<notin> set p)
     \<and> (\<exists>names n. stack = names @ replicate n ''..'' \<and> ''..'' \<notin> set names \<and> (rooted \<longrightarrow> n = 0))"

lemma split_no_slash: "p \<in> set (split_slash s) \<Longrightarrow> CHR ''/'' \<notin> set p"
  by (induction s arbitrary: p) (auto split: if_splits list.splits)

lemma clean_step_stack:
  assumes "clean_stack rooted stack" and "CHR ''/'' \<notin> set p"
  shows "clean_stack rooted (clean_step rooted p stack)"
proof -
  obtain names n where st: "stack = names @ replicate n ''..''" "''..'' \<notin> set names" "rooted \<longrightarrow> n = 0"
    and ok: "\<forall>p\<in>set stack. p \<noteq> [] \<and> p \<noteq> ''.'' \<and> CHR ''/'' \<notin> set p"
    using assms(1) by (auto simp: clean_stack_def)
  consider (skip) "p = [] \<or> p = ''.''" | (parent) "p = ''..''" | (name) "p \<noteq> []" "p \<noteq> ''.''" "p \<noteq> ''..''" by blast
  then show ?thesis
  proof cases
    case skip
    then show ?thesis using assms(1) by (auto simp: clean_step_def)
  next
    case name
    then have "clean_step rooted p stack = (p # names) @ replicate n ''..''" using st(1) by (simp add: clean_step_def)
    moreover have "\<forall>q\<in>set (p # stack). q \<noteq> [] \<and> q \<noteq> ''.'' \<and> CHR ''/'' \<notin> set q" using ok name assms(2) by simp
    moreover have "''..'' \<notin> set (p # names)" using st(2) name by simp
    ultimately show ?thesis unfolding clean_stack_def using st(1,3) by (metis append_Cons)
  next
    case parent
    show ?thesis
    proof (cases names)
      case Nil
      then have "clean_step rooted p stack = replicate (if rooted then 0 else Suc n) ''..''"
        using parent st by (cases n) (simp_all add: clean_step_def)
      then show ?thesis by (auto simp: clean_stack_def intro!: exI [of _ "[]"] exI [of _ "if rooted then 0 else Suc n"])
    next
      case (Cons q qs)
      then have "clean_step rooted p stack = qs @ replicate n ''..''" using parent st by (auto simp: clean_step_def)
      then show ?thesis using st ok Cons by (auto simp: clean_stack_def)
    qed
  qed
qed

lemma clean_fold: "\<forall>p\<in>set ps. CHR ''/'' \<notin> set p \<Longrightarrow> clean_stack rooted stack \<Longrightarrow> clean_stack rooted (fold (clean_step rooted) ps stack)"
  by (induction ps arbitrary: stack) (simp_all add: clean_step_stack)

lemma clean_nil: "clean_stack rooted []"
  by (auto simp: clean_stack_def intro!: exI [of _ 0])

lemma split_join: "ps \<noteq> [] \<Longrightarrow> \<forall>p\<in>set ps. CHR ''/'' \<notin> set p \<Longrightarrow> split_slash (join_slash ps) = ps"
proof (induction ps rule: join_slash.induct)
  case (2 p)
  then show ?case by (induction p) auto
next
  case (3 p q ps)
  have "split_slash (u @ ''/'' @ t) = u # split_slash t" if "CHR ''/'' \<notin> set u" for u t
    using that by (induction u) auto
  then show ?case using 3 by simp
qed simp

lemma fold_parents: "fold (clean_step False) (replicate n ''..'') (replicate m ''..'') = replicate (n + m) ''..''"
proof (induction n arbitrary: m)
  case (Suc n)
  have "clean_step False ''..'' (replicate m ''..'') = replicate (Suc m) ''..''" by (cases m) (simp_all add: clean_step_def)
  then show ?case using Suc [of "Suc m"] by simp
qed simp

lemma fold_names:
  "\<forall>p\<in>set ps. p \<noteq> [] \<and> p \<noteq> ''.'' \<and> p \<noteq> ''..'' \<Longrightarrow> fold (clean_step rooted) ps stack = rev ps @ stack"
  by (induction ps arbitrary: stack) (simp_all add: clean_step_def)

lemma clean_again: "clean_stack rooted stack \<Longrightarrow> fold (clean_step rooted) (rev stack) [] = stack"
proof -
  assume "clean_stack rooted stack"
  then obtain names n where st: "stack = names @ replicate n ''..''" "''..'' \<notin> set names" "rooted \<longrightarrow> n = 0"
    and ok: "\<forall>p\<in>set stack. p \<noteq> [] \<and> p \<noteq> ''.''" by (auto simp: clean_stack_def)
  have "fold (clean_step rooted) (replicate n ''..'') [] = replicate n ''..''"
    using fold_parents [of n 0] st(3) by (cases rooted) simp_all
  then show ?thesis
    using fold_names [of "rev names" rooted "replicate n ''..''"] st ok by auto
qed

text \<open>Cleaning is idempotent: the result of \<open>Clean\<close> is clean.\<close>

lemma Clean_idempotent: "Clean (Clean path) = Clean path"
proof -
  define rooted where "rooted = (path \<noteq> [] \<and> hd path = CHR ''/'')"
  define stack where "stack = fold (clean_step rooted) (split_slash path) []"
  have clean: "clean_stack rooted stack"
    unfolding stack_def by (intro clean_fold clean_nil) (use split_no_slash in blast)
  then have slash: "\<forall>p\<in>set (rev stack). CHR ''/'' \<notin> set p" and ne: "\<forall>p\<in>set (rev stack). p \<noteq> []" by (auto simp: clean_stack_def)
  have path: "Clean path = (if rooted then CHR ''/'' # join_slash (rev stack)
      else if join_slash (rev stack) = [] then ''.'' else join_slash (rev stack))"
    by (simp add: Clean_def Let_def rooted_def stack_def)
  show ?thesis
  proof (cases "rev stack = []")
    case True
    then show ?thesis unfolding path by (auto simp: Clean_def clean_step_def)
  next
    case False
    then obtain p ps where ps: "rev stack = p # ps" by (cases "rev stack") auto
    then obtain c u where p: "p = c # u" "c \<noteq> CHR ''/''" using slash ne by (cases p) auto
    have j: "\<exists>t. join_slash (rev stack) = c # t" unfolding ps p by (cases ps) auto
    have again: "fold (clean_step rooted) (split_slash (join_slash (rev stack))) [] = stack"
      using split_join [OF False slash] clean_again [OF clean] by simp
    show ?thesis
    proof (cases rooted)
      case True
      have "fold (clean_step True) (split_slash (CHR ''/'' # join_slash (rev stack))) [] = stack"
        using again True by (simp add: clean_step_def)
      then show ?thesis using True unfolding path by (simp add: Clean_def Let_def)
    next
      case no: False
      obtain t where t: "join_slash (rev stack) = c # t" using j by blast
      then have "Clean (join_slash (rev stack)) = join_slash (rev stack)"
        using again no p(2) by (simp add: Clean_def Let_def)
      then show ?thesis using no t unfolding path by simp
    qed
  qed
qed

end
