(* ===== verification/Service.thy ===== *)
theory Service
  imports BrokerVault Cli Platform
begin

section \<open>The broker behind its endpoint, and a client in front of it\<close>

text \<open>
  The broker daemon (cmd/vcsm-broker/main.go) serves its endpoint with \<open>Handle\<close>; a client calls it through
  a connection. Here the pieces meet: a request that a command sends is decoded, handled and answered, and
  the responses are printed.
\<close>

subsection \<open>The daemon\<close>

text \<open>\<open>Handle\<close> as the handler of a connection of its own; the responses it sends are what the connection carries.\<close>

definition serve_request :: "setting \<Rightarrow> Request \<Rightarrow> bstate world \<Rightarrow> Response list \<times> bstate world" where
  "serve_request E request w =
     (case Handle E request (w\<lparr>w_db := (w_db w)\<lparr>bs_conn := \<lparr>cn_sent = [], cn_faults = []\<rparr>\<rparr>\<rparr>) of (_, w') \<Rightarrow> (sent w', w'))"

text \<open>
  \<open>main\<close>: the exit code, or None while the daemon serves, and what it sent on each connection. On an error
  of \<open>Serve\<close> it exits at once; when it is interrupted the deferred \<open>Close\<close> runs.
\<close>

definition main :: "setting \<Rightarrow> options result \<Rightarrow> string list \<Rightarrow> error option \<Rightarrow> accepted list \<Rightarrow> disk world
    \<Rightarrow> int option \<times> string list \<times> bstate world option" where
  "main E paths args listen_err evs w =
     (case paths of
        Inl err \<Rightarrow> (Some 1, [], None)
      | Inr defaults \<Rightarrow>
          (case parse_flags defaults args of
             BadFlags help \<Rightarrow> (Some (if help then 0 else 2), [], None)
           | Flags opts _ \<Rightarrow>
               (case New (op_vault opts) w of
                  (Inl err, _) \<Rightarrow> (Some 1, [], None)
                | (Inr b, w') \<Rightarrow>
                    (let start = with_db w' \<lparr>bs_broker = b, bs_disk = w_db w', bs_os = snd boot, bs_starts = 0,
                           bs_conn = \<lparr>cn_sent = [], cn_faults = []\<rparr>\<rparr>
                     in case Serve listen_err (serve_request E) evs start of
                          (None, outs, v) \<Rightarrow> (None, outs, Some v)
                        | (Some None, outs, v) \<Rightarrow> (Some 0, outs, Some (snd (Broker_Close v)))
                        | (Some (Some err), outs, v) \<Rightarrow> (Some 1, outs, Some v)))))"

subsection \<open>Calls on the broker\<close>

lemma serve_request_answers:
  "\<exists>q r. fst (serve_request E request w) = q @ [r] \<and> events_only q \<and> rs_final r \<and> rs_event r = [] \<and> response_numbers r"
proof -
  let ?w = "w\<lparr>w_db := (w_db w)\<lparr>bs_conn := \<lparr>cn_sent = [], cn_faults = []\<rparr>\<rparr>\<rparr>"
  have "answers ?w (snd (Handle E request ?w))" by (rule Handle_answers) simp
  moreover have "sent ?w = []" by (simp add: sent_def)
  ultimately show ?thesis by (auto simp: answers_def serve_request_def split: prod.split)
qed

lemma events_not_final: "events_only q \<Longrightarrow> list_all (\<lambda>r. \<not> rs_final r) q"
  by (auto simp: events_only_def list_all_iff event_response_def zero_Response_def)

lemma events_numbers: "events_only q \<Longrightarrow> list_all response_numbers q"
  by (fastforce simp: events_only_def list_all_iff event_response_def zero_Response_def response_numbers_def)

interpretation daemon: responder "serve_request E" for E
proof
  fix request s
  obtain q r where "fst (serve_request E request s) = q @ [r]" "events_only q" "rs_final r" "response_numbers r"
    using serve_request_answers [of E request s] by blast
  then show "\<exists>q r. fst (serve_request E request s) = q @ [r] \<and> list_all (\<lambda>r. \<not> rs_final r) q \<and> rs_final r
      \<and> list_all response_numbers (q @ [r])"
    using events_not_final [of q] events_numbers [of q] by (intro exI [of _ q] exI [of _ r]) simp
qed

text \<open>
  What the handler of \<open>run\<close> makes of events: the text of each event is printed as it was received, every
  byte in it that begins no character as U+FFFD.
\<close>

definition chunks :: "string \<Rightarrow> Response list \<Rightarrow> bytes list" where
  "chunks event rs = map response_text (filter (\<lambda>r. rs_event r = event \<and> \<not> rs_final r) rs)"

definition shown :: "bytes list \<Rightarrow> string" where
  "shown ps = concat (map (\<lambda>p. to_valid (string_of p)) ps)"

lemma shown_simps [simp]: "shown [] = []" "shown (p # ps) = to_valid (string_of p) @ shown ps"
  by (simp_all add: shown_def)

lemma concat_chunks: "concat (chunks ev q) = stream_text ev q"
  by (simp add: chunks_def stream_text_def)

lemma chunks_event: "chunks ev (event_response (event_of b) p # q) = (if ev = event_of b then [p] else []) @ chunks ev q"
  by (simp add: chunks_def event_response_def response_text_def zero_Response_def)

lemma print_order: "print_err t (print_out u sh) = print_out u (print_err t sh)"
  by (simp add: print_err_def print_out_def)

lemma print_append: "print_out u (print_out t sh) = print_out (t @ u) sh" "print_err u (print_err t sh) = print_err (t @ u) sh"
  "print_out [] sh = sh" "print_err [] sh = sh"
  by (simp_all add: print_err_def print_out_def)

lemma event_names: "to_valid ''stdout'' = ''stdout''" "to_valid ''stderr'' = ''stderr''"
  by (rule to_valid_same, simp add: ascii_valid_utf8 ascii_def)+

lemma print_event:
  "run_response_handler (c, sh) (received ((event_response (event_of b) p)\<lparr>rs_id := i\<rparr>)) =
     (None, c, (if b then print_err else print_out) (to_valid (string_of p)) sh)"
  "\<not> rs_final ((event_response (event_of b) p)\<lparr>rs_id := i\<rparr>)"
  by (cases b; simp add: run_response_handler_def received_def event_response_def zero_Response_def unmarshal_string_def event_names)+

lemma feed_events:
  assumes "events_only q"
  shows "feed run_response_handler (map (\<lambda>r. received (r\<lparr>rs_id := i\<rparr>)) q @ rs) (c, sh) = feed run_response_handler rs
    (c, print_err (shown (chunks ''stderr'' q)) (print_out (shown (chunks ''stdout'' q)) sh))"
  using assms
proof (induction q arbitrary: sh)
  case Nil
  then show ?case by (simp add: chunks_def print_append)
next
  case (Cons e q)
  obtain b p where e: "e = event_response (event_of b) p" using Cons.prems by (auto simp: events_only_def)
  have q: "events_only q" using Cons.prems by (simp add: events_only_def)
  have step: "feed run_response_handler (map (\<lambda>r. received (r\<lparr>rs_id := i\<rparr>)) (e # q) @ rs) (c, sh)
      = feed run_response_handler (map (\<lambda>r. received (r\<lparr>rs_id := i\<rparr>)) q @ rs)
          (c, (if b then print_err else print_out) (to_valid (string_of p)) sh)"
    by (simp add: e print_event)
  show ?case unfolding step Cons.IH [OF q] unfolding e chunks_event
    by (cases b) (simp_all add: print_order print_append)
qed

lemma exit_code_read: "int64 n \<Longrightarrow> result_exit_code (Some (run_result_json \<lparr>rr_action = a, rr_exit_code = n\<rparr>)) = n"
  by (simp add: result_exit_code_def run_result_json_def set_loosely_def run_result_fields_def find_field_def)

lemma as_read_jint: "as_read (jint n) = jint n"
  by (rule as_read_same) simp

lemma run_result_received:
  "as_read (run_result_json r) = run_result_json (r\<lparr>rr_action := to_valid (rr_action r)\<rparr>)"
  by (simp add: run_result_json_def as_read_jint to_valid_same)

lemma print_final:
  "int64 n \<Longrightarrow> run_response_handler (c, sh) (received ((run_response action n err)\<lparr>rs_id := i\<rparr>)) =
     ((case err of None \<Rightarrow> None | Some e \<Rightarrow> Some (Errorf (to_valid (error_text e)))), n, sh)"
  by (simp add: run_response_handler_def run_response_def received_def zero_Response_def run_result_received exit_code_read
      errorText_def split: option.split)

lemma feed_final: "feed run_response_handler [r] c = run_response_handler c r"
  by (simp split: prod.split option.split)

text \<open>The exit code of \<open>vcsm run\<close> and what it prints, from the outcome of the run and its events.\<close>

definition run_exit :: "int \<times> error option \<Rightarrow> int" where
  "run_exit outcome = (if snd outcome \<noteq> None \<and> fst outcome = 0 then 1 else fst outcome)"

definition run_message :: "int \<times> error option \<Rightarrow> string" where
  "run_message outcome = (case snd outcome of None \<Rightarrow> [] | Some e \<Rightarrow> ''error: '' @ to_valid (error_text e) @ newline)"

definition run_request :: "string \<Rightarrow> string \<Rightarrow> string \<Rightarrow> shell \<Rightarrow> Request" where
  "run_request project environment name sh = \<lparr>rq_id = fst (request_id sh), rq_operation = ''run'',
     rq_payload = Some (action_request_json
       \<lparr>aq_scope = \<lparr>sc_project = project, sc_environment = environment\<rparr>, aq_name = name\<rparr>)\<rparr>"

lemma runCommand_served:
  assumes "tl_link T (op_endpoint opts) = served_by (serve_request E) w"
    and "request_ok (run_request project environment name sh)"
    and "length (frame (request_json (run_request project environment name sh))) \<le> maxFrame"
    and "fst (serve_request E (run_request project environment name sh) w) = q @ [run_response action (fst outcome) (snd outcome)]"
    and "events_only q" and "int64 (fst outcome)"
  shows "\<exists>sh'. runCommand T opts [project, environment, name] sh = (run_exit outcome, sh')
    \<and> sh_out sh' = sh_out sh @ shown (chunks ''stdout'' q)
    \<and> sh_err sh' = sh_err sh @ shown (chunks ''stderr'' q) @ run_message outcome"
proof -
  let ?req = "run_request project environment name sh" and ?r = "run_response action (fst outcome) (snd outcome)"
  note got = received_same(1) [OF assms(2)]
  obtain w' where served: "serve_request E (received_request ?req) w = (q @ [?r], w')"
    using assms(4) unfolding got by (cases "serve_request E ?req w") simp
  have numbers: "list_all response_numbers (q @ [?r])" using daemon.handler_numbers [of E ?req w] assms(4) by simp
  let ?sh = "snd (request_id sh)"
  let ?sh' = "print_err (shown (chunks ''stderr'' q)) (print_out (shown (chunks ''stdout'' q)) ?sh)"
  have same: "sh_out ?sh = sh_out sh" "sh_err ?sh = sh_err sh" by (simp_all add: request_id_def split: prod.split)
  have "call T opts ''run'' (action_request_json \<lparr>aq_scope = \<lparr>sc_project = project, sc_environment = environment\<rparr>, aq_name = name\<rparr>)
      run_response_handler (\<lambda>sh. (1, sh)) sh = Call (served_by (serve_request E) w) ?req run_response_handler (1, ?sh)"
    by (simp add: call_def assms(1) run_request_def split: prod.split)
  also have "\<dots> = ((case snd outcome of None \<Rightarrow> None | Some e \<Rightarrow> Some (Errorf (to_valid (error_text e)))), fst outcome, ?sh')"
    unfolding call_served [where handler = "serve_request E" and s = w, OF numbers_of_ok(1) [OF assms(2)] assms(3) served numbers]
      map_append list.map feed_events [OF assms(5)] feed_final
    by (rule print_final [OF assms(6)])
  finally show ?thesis
    using same by (cases "snd outcome") (simp_all add: runCommand_def run_exit_def run_message_def print_err_def print_out_def)
qed

end
