(* ===== verification/ServiceProps.thy ===== *)
theory ServiceProps
  imports BrokerProps Service
begin

section \<open>The properties of the client and the connection\<close>

text \<open>
  From the command line to the vault and back: what \<open>vcsm run\<close> prints and returns, that responses arrive as
  they were sent, and what happens when none arrives.
\<close>

subsection \<open>Responses arrive\<close>

text \<open>
  C14: What the broker sends is what the client gets: for a request that fits in a frame, \<open>Call\<close> hands the
  client every response that \<open>Handle\<close> sends for it, in their order, with the identifier of the request, and
  with each text as JSON carries it (valid UTF-8 as it is, any other byte as U+FFFD), and ends without an
  error after the final one.
\<close>

theorem Call_delivers:
  assumes "request_numbers request" and "length (frame (request_json request)) \<le> maxFrame"
  shows "Call (served_by (serve_request E) w) request keep [] =
    (None, map (\<lambda>r. received (r\<lparr>rs_id := rq_id (received_request request)\<rparr>)) (fst (serve_request E (received_request request) w)))"
  by (rule daemon.call_delivers [OF assms])

definition odd_request :: Request where
  "odd_request = \<lparr>rq_id = ''7'', rq_operation = ''x'', rq_payload = None\<rparr>"

lemma odd_answer:
  "fst (serve_request E odd_request w) = [zero_Response\<lparr>rs_error := ''unknown operation '' @ [CHR 0x22, CHR ''x'', CHR 0x22], rs_final := True\<rparr>]"
proof -
  have "go_quote ''x'' = [CHR 0x22, CHR ''x'', CHR 0x22]" by code_simp
  then show ?thesis
    by (simp add: serve_request_def odd_request_def Handle_def Let_def send_error_clean sent_def publicError_def)
qed

theorem Call_delivers_witness:
  "Call (served_by (serve_request demo_setting) demo_session) odd_request keep [] =
    (None, [zero_Response\<lparr>rs_id := ''7'', rs_error := ''unknown operation '' @ [CHR 0x22, CHR ''x'', CHR 0x22], rs_final := True\<rparr>])"
proof -
  have ok: "request_ok odd_request" by (simp add: request_ok_def odd_request_def ascii_valid_utf8 ascii_def)
  have "length (frame (request_json odd_request)) \<le> 100" by code_simp
  then have small: "length (frame (request_json odd_request)) \<le> maxFrame" by (simp add: maxFrame_def)
  have "response_ok (zero_Response\<lparr>rs_error := ''unknown operation '' @ [CHR 0x22, CHR ''x'', CHR 0x22], rs_final := True\<rparr>)"
    by (simp add: response_ok_def zero_Response_def ascii_valid_utf8 ascii_def)
  from received_same(2) [OF this] show ?thesis
    using Call_delivers [OF numbers_of_ok(1) [OF ok] small, of demo_setting demo_session]
    unfolding received_same(1) [OF ok] odd_answer
    by (simp add: received_def odd_request_def zero_Response_def to_valid_same ascii_valid_utf8 ascii_def)
qed

text \<open>
  C38: An unanswered call looks like a success: when the connection ends before the final response, as it does
  when the broker dies or closes a connection whose request it could not decode, \<open>Call\<close> reports no error;
  the responses that did arrive are handled, and a command that got none prints nothing and exits with 0,
  whatever the operation, \<open>lock\<close> included.
\<close>

theorem unanswered_call_succeeds:
  assumes "lk_dial (tl_link T (op_endpoint opts)) = None" and "lk_write (tl_link T (op_endpoint opts)) = None"
    and "lk_broken (tl_link T (op_endpoint opts)) = None"
    and "lk_reply (tl_link T (op_endpoint opts)) = (\<lambda>_. wire qs)" and "events_only qs"
  shows "\<exists>sh'. callAndPrint T opts op payload sh = (0, sh') \<and> sh_out sh' = sh_out sh \<and> sh_err sh' = sh_err sh"
proof -
  have "feed (print_response T) (map received qs) c = (None, c)" for c
    using assms(5) by (induction qs) (auto simp: events_only_def print_response_def event_response_def zero_Response_def received_def)
  moreover have "list_all response_numbers qs" using assms(5) by (rule events_numbers)
  ultimately show ?thesis
    by (simp add: callAndPrint_def call_def request_id_def Call_def assms(1-4) read_wire printCallResult_def split: prod.split)
qed

definition demo_shell :: shell where
  "demo_shell = \<lparr>sh_world = with_db (demo\<lparr>w_tape := []\<rparr>) None, sh_terminal = True, sh_typed = [], sh_out = [], sh_err = []\<rparr>"

definition demo_options :: options where
  "demo_options = \<lparr>op_vault = ''vault.db'', op_endpoint = ''broker.sock''\<rparr>"

definition demo_tool :: "link \<Rightarrow> tool" where
  "demo_tool link = \<lparr>tl_prims = demo_prims, tl_link = (\<lambda>_. link), tl_pretty = render\<rparr>"

theorem unanswered_call_succeeds_witness:
  "\<exists>sh'. callAndPrint (demo_tool \<lparr>lk_dial = None, lk_write = None, lk_reply = (\<lambda>_. wire []), lk_broken = None\<rparr>) demo_options ''lock'' JNull demo_shell = (0, sh')
    \<and> sh_out sh' = [] \<and> sh_err sh' = []"
  using unanswered_call_succeeds [of "demo_tool \<lparr>lk_dial = None, lk_write = None, lk_reply = (\<lambda>_. wire []), lk_broken = None\<rparr>" demo_options "[]" "''lock''" JNull demo_shell]
  by (simp add: demo_tool_def demo_shell_def)

subsection \<open>vcsm run\<close>

definition seen :: "setting \<Rightarrow> Action \<Rightarrow> (string \<times> bytes) list \<Rightarrow> bool \<Rightarrow> bytes" where
  "seen E action vals is_err = (if ac_output_policy action = ''redacted''
     then w_dst (snd (write_all buffer_write (NewWriter [] (run_values vals))
            (written is_err (ch_writes (en_child E (run_call E action vals))))))
     else [])"

lemma run_served:
  assumes "unlocked (en_prims E) k s d w"
    and "action_at (en_prims E) k d (actionLookup (en_prims E) (ks_lookup k) project environment name) = Some action"
    and "collect (resolved (en_prims E) k d \<lparr>sc_project = project, sc_environment = environment\<rparr>)
          (en_order E (case ac_secrets action of None \<Rightarrow> [] | Some m \<Rightarrow> m)) = Inr vals"
  obtains q where "fst (serve_request E (run_request project environment name sh) w)
      = q @ [run_response action (fst (run_outcome E action vals)) (snd (run_outcome E action vals))]"
    "events_only q" "\<And>b. stream_text (event_of b) q = seen E action vals b"
proof -
  let ?req = "run_request project environment name sh" and ?o = "run_outcome E action vals"
  let ?w = "w\<lparr>w_db := (w_db w)\<lparr>bs_conn := \<lparr>cn_sent = [], cn_faults = []\<rparr>\<rparr>\<rparr>"
  have un: "unlocked (en_prims E) k s d ?w" using assms(1) by (simp add: unlocked_def)
  have op: "rq_operation ?req = ''run''" by (simp add: run_request_def)
  have dec: "unmarshal_raw action_request_fields zero_ActionRequest (rq_payload ?req)
      = Inr \<lparr>aq_scope = \<lparr>sc_project = project, sc_environment = environment\<rparr>, aq_name = name\<rparr>"
    by (simp add: run_request_def run_request_decodes)
  let ?p = "\<lparr>aq_scope = \<lparr>sc_project = project, sc_environment = environment\<rparr>, aq_name = name\<rparr>"
  have found: "action_at (en_prims E) k d (actionLookup (en_prims E) (ks_lookup k) (sc_project (aq_scope ?p))
      (sc_environment (aq_scope ?p)) (aq_name ?p)) = Some action"
    "collect (resolved (en_prims E) k d (aq_scope ?p)) (en_order E (case ac_secrets action of None \<Rightarrow> [] | Some m \<Rightarrow> m)) = Inr vals"
    using assms(2,3) by simp_all
  obtain q w' where run: "do_run E (rq_payload ?req) ?w = (Inr (), w')" "runs E action vals q"
    "sent w' = sent ?w @ q @ [run_response action (fst ?o) (snd ?o)]"
    using do_run_found [OF un dec found] by blast
  have served: "fst (serve_request E ?req w) = q @ [run_response action (fst ?o) (snd ?o)]"
    using run(1,3) by (simp add: serve_request_def Handle_run [OF op] sent_def)
  have events: "events_only q" using run(2) by (auto simp: runs_def split: if_splits)
  have "stream_text (event_of b) q = seen E action vals b" for b
    using run(2) by (auto simp: runs_def delivered_write_all stream_text_def seen_def split: if_splits)
  with served events show thesis by (rule that)
qed

text \<open>
  C7: \<open>vcsm run\<close>, from the command line to the child and back: when the broker behind the endpoint has the vault
  unlocked, the action exists and its secrets resolve, the command prints on each of its streams what the
  redacting writer makes of the same stream of the child (nothing for the policy \<open>metadata\<close>), cut into the
  pieces in which that writer passed it on, each of them as JSON carries it; it adds the error of a failed
  run on standard error, and exits with the exit code of the child, or with 1 when a failed run has the
  code 0.
\<close>

theorem run_command_end_to_end:
  assumes "tl_link T (op_endpoint opts) = served_by (serve_request E) w"
    and "unlocked (en_prims E) k s d w"
    and "action_at (en_prims E) k d (actionLookup (en_prims E) (ks_lookup k) project environment name) = Some action"
    and "collect (resolved (en_prims E) k d \<lparr>sc_project = project, sc_environment = environment\<rparr>)
          (en_order E (case ac_secrets action of None \<Rightarrow> [] | Some m \<Rightarrow> m)) = Inr vals"
    and "request_ok (run_request project environment name sh)"
    and "length (frame (request_json (run_request project environment name sh))) \<le> maxFrame"
    and "int64 (fst (run_outcome E action vals))"
  shows "\<exists>outs errs sh'. runCommand T opts [project, environment, name] sh = (run_exit (run_outcome E action vals), sh')
    \<and> concat outs = seen E action vals False \<and> concat errs = seen E action vals True
    \<and> sh_out sh' = sh_out sh @ shown outs
    \<and> sh_err sh' = sh_err sh @ shown errs @ run_message (run_outcome E action vals)"
proof -
  obtain q where served: "fst (serve_request E (run_request project environment name sh) w)
      = q @ [run_response action (fst (run_outcome E action vals)) (snd (run_outcome E action vals))]"
    "events_only q" "\<And>b. stream_text (event_of b) q = seen E action vals b"
    using run_served [OF assms(2-4), of sh] by metis
  show ?thesis
    using runCommand_served [OF assms(1,5,6) served(1,2) assms(7)] concat_chunks [of _ q] served(3) [of False] served(3) [of True]
    by (intro exI [of _ "chunks ''stdout'' q"] exI [of _ "chunks ''stderr'' q"]) simp
qed

text \<open>ASCII text is carried as it is, however it is cut.\<close>

lemma shown_ascii: "list_all (\<lambda>x. x < 128) (concat ps) \<Longrightarrow> shown ps = string_of (concat ps)"
proof (induction ps)
  case (Cons p ps)
  then have "valid_utf8 (string_of p)"
    by (intro valid_utf8_ascii) (force simp: string_of_def list_all_iff word_less_nat_alt char_of_byte_def)
  then show ?case using Cons by (simp add: to_valid_same string_of_def)
qed (simp add: string_of_def)

lemma demo_request: "run_request ''shop'' ''dev'' ''show'' demo_shell = \<lparr>rq_id = ''0000000000000000'', rq_operation = ''run'',
     rq_payload = Some (action_request_json \<lparr>aq_scope = demo_scope, aq_name = ''show''\<rparr>)\<rparr>"
proof -
  have "hex_encode (replicate 8 0) = ''0000000000000000''" by code_simp
  then show ?thesis by (simp add: run_request_def request_id_def demo_shell_def rand_read_def demo_scope_def)
qed

lemma demo_request_fits:
  "request_ok (run_request ''shop'' ''dev'' ''show'' demo_shell)"
  "length (frame (request_json (run_request ''shop'' ''dev'' ''show'' demo_shell))) \<le> maxFrame"
proof -
  show "request_ok (run_request ''shop'' ''dev'' ''show'' demo_shell)"
    by (simp add: demo_request request_ok_def action_request_json_def scope_json_def demo_scope_def ascii_valid_utf8 ascii_def)
  have "length (frame (request_json \<lparr>rq_id = ''0000000000000000'', rq_operation = ''run'',
     rq_payload = Some (action_request_json \<lparr>aq_scope = demo_scope, aq_name = ''show''\<rparr>)\<rparr>)) \<le> 200"
    by code_simp
  then show "length (frame (request_json (run_request ''shop'' ''dev'' ''show'' demo_shell))) \<le> maxFrame"
    by (simp add: demo_request maxFrame_def)
qed

theorem run_command_end_to_end_witness:
  "\<exists>w sh'. runCommand (demo_tool (served_by (serve_request demo_setting) w)) demo_options [''shop'', ''dev'', ''show''] demo_shell = (0, sh')
    \<and> sh_out sh' = ''pw=[REDACTED]''"
proof -
  obtain a d and w :: "bstate world" where w: "unlocked demo_prims demo_keys demo_store d w"
    "action_at demo_prims demo_keys d (actionLookup demo_prims (ks_lookup demo_keys) ''shop'' ''dev'' ''show'') = Some a"
    "collect (resolved demo_prims demo_keys d demo_scope) (case ac_secrets a of None \<Rightarrow> [] | Some m \<Rightarrow> m) = Inr [(''DB'', demo_secret)]"
    "ac_output_policy a = ''redacted''" "ac_name a = ''show''"
    by (rule demo_ready)
  let ?T = "demo_tool (served_by (serve_request demo_setting) w)" and ?vals = "[(''DB'', demo_secret)]"
  have un: "unlocked (en_prims demo_setting) demo_keys demo_store d w" using w(1) by (simp add: demo_run_simps)
  have act: "action_at (en_prims demo_setting) demo_keys d (actionLookup (en_prims demo_setting) (ks_lookup demo_keys) ''shop'' ''dev'' ''show'') = Some a"
    using w(2) by (simp add: demo_run_simps)
  have col: "collect (resolved (en_prims demo_setting) demo_keys d \<lparr>sc_project = ''shop'', sc_environment = ''dev''\<rparr>)
      (en_order demo_setting (case ac_secrets a of None \<Rightarrow> [] | Some m \<Rightarrow> m)) = Inr ?vals"
    using w(3) by (simp add: demo_run_simps demo_scope_def)
  have out: "seen demo_setting a ?vals False = bytes_of ''pw=[REDACTED]''"
    using w(4) demo_output by (simp add: seen_def demo_run_simps)
  have outcome: "run_outcome demo_setting a ?vals = (0, None)" by (simp add: run_outcome_def demo_run_simps exit_of_def)
  have "tl_link ?T (op_endpoint demo_options) = served_by (serve_request demo_setting) w" by (simp add: demo_tool_def)
  from run_command_end_to_end [OF this un act col demo_request_fits] obtain outs sh' where run:
    "runCommand ?T demo_options [''shop'', ''dev'', ''show''] demo_shell = (run_exit (run_outcome demo_setting a ?vals), sh')"
    "concat outs = bytes_of ''pw=[REDACTED]''" "sh_out sh' = sh_out demo_shell @ shown outs"
    by (auto simp: outcome out int64_def)
  have "list_all (\<lambda>x. x < 128) (bytes_of ''pw=[REDACTED]'')" by code_simp
  then have "shown outs = ''pw=[REDACTED]''" using shown_ascii [of outs] run(2) by simp
  then show ?thesis using run by (auto simp: outcome run_exit_def demo_shell_def)
qed

end
