(* ===== verification/CliProps.thy ===== *)
theory CliProps
  imports ServiceProps
begin

section \<open>The properties of the commands\<close>

text \<open>
  What \<open>vcsm init\<close> accepts and leaves behind, which action \<open>vcsm action configure\<close> reads from its arguments,
  and what becomes of output that is cut inside a character.
\<close>

subsection \<open>vcsm init\<close>

text \<open>The password that is typed twice at the terminal, when it has an acceptable length in bytes.\<close>

definition accepted_password :: "shell \<Rightarrow> bytes option" where
  "accepted_password sh =
     (if sh_terminal sh
      then (case sh_typed sh of
              Inr p # Inr q # _ \<Rightarrow> if p = q \<and> 15 \<le> length p \<and> length p \<le> 256 then Some p else None
            | _ \<Rightarrow> None)
      else None)"

lemma promptPassword_state [simp]:
  "sh_world (snd (promptPassword label sh)) = sh_world sh"
  "sh_terminal (snd (promptPassword label sh)) = sh_terminal sh"
  "sh_typed (snd (promptPassword label sh)) = (if sh_terminal sh then tl (sh_typed sh) else sh_typed sh)"
  by (auto simp: promptPassword_def print_err_def Let_def split: list.splits)

lemma promptPassword_typed:
  "fst (promptPassword label sh) = Inr p \<longleftrightarrow> sh_terminal sh \<and> (\<exists>ts. sh_typed sh = Inr p # ts)"
  by (auto simp: promptPassword_def print_err_def Let_def split: list.splits)

lemma printError_simps [simp]: "printError err sh = (1, sh\<lparr>sh_err := sh_err sh @ ''error: '' @ error_text err @ newline\<rparr>)"
  by (simp add: printError_def print_err_def)

lemma initVault_cases:
  obtains (refused) sh' where "accepted_password sh = None" "initVault T opts [] sh = (1, sh')" "sh_world sh' = sh_world sh"
  | (created) p s w sh' where "accepted_password sh = Some p"
      "Initialize (tl_prims T) (op_vault opts) p DefaultKDFParams (sh_world sh) = (Inr s, w)"
      "initVault T opts [] sh = (0, sh')" "sh_world sh' = w"
  | (failed) p err w sh' where "accepted_password sh = Some p"
      "Initialize (tl_prims T) (op_vault opts) p DefaultKDFParams (sh_world sh) = (Inl err, w)"
      "initVault T opts [] sh = (1, sh')" "sh_world sh' = w"
proof -
  let ?one = "promptPassword ''New VCSM master password: '' sh"
  obtain r1 sh1 where one: "?one = (r1, sh1)" by fastforce
  obtain r2 sh2 where two: "promptPassword ''Confirm master password: '' sh1 = (r2, sh2)" by fastforce
  have p1: "r1 = Inr p \<longleftrightarrow> sh_terminal sh \<and> (\<exists>ts. sh_typed sh = Inr p # ts)" for p
    using promptPassword_typed [of _ sh p] one by (metis fst_conv)
  have p2: "r2 = Inr p \<longleftrightarrow> sh_terminal sh1 \<and> (\<exists>ts. sh_typed sh1 = Inr p # ts)" for p
    using promptPassword_typed [of _ sh1 p] two by (metis fst_conv)
  have w1: "sh_world sh1 = sh_world sh" "sh_terminal sh1 = sh_terminal sh"
    "sh_terminal sh \<Longrightarrow> sh_typed sh1 = tl (sh_typed sh)"
    using promptPassword_state [of "''New VCSM master password: ''" sh] unfolding one by simp_all
  have w2: "sh_world sh2 = sh_world sh" using promptPassword_state(1) [of "''Confirm master password: ''" sh1] w1 unfolding two by simp
  show thesis
  proof (cases "accepted_password sh")
    case None
    have "fst (initVault T opts [] sh) = 1 \<and> sh_world (snd (initVault T opts [] sh)) = sh_world sh"
    proof (cases "\<exists>p q. r1 = Inr p \<and> r2 = Inr q")
      case True
      then obtain p q ts where pq: "r1 = Inr p" "r2 = Inr q" "sh_terminal sh" "sh_typed sh = Inr p # Inr q # ts"
        using p1 p2 w1 by auto
      then show ?thesis using None w2 by (auto simp: initVault_def one two accepted_password_def not_le split: if_splits)
    next
      case False
      then show ?thesis using w1 w2 one two by (cases r1; cases r2) (simp_all add: initVault_def)
    qed
    with None refused show thesis by (metis prod.collapse)
  next
    case (Some p)
    then obtain ts where typed: "sh_terminal sh" "sh_typed sh = Inr p # Inr p # ts" "15 \<le> length p" "length p \<le> 256"
      by (auto simp: accepted_password_def split: if_splits list.splits sum.splits)
    then have r: "r1 = Inr p" "r2 = Inr p" using p1 p2 w1 by auto
    show thesis
    proof (cases "Initialize (tl_prims T) (op_vault opts) p DefaultKDFParams (sh_world sh)")
      case (Pair res w')
      then show thesis
        using r w2 typed one two created [OF Some] failed [OF Some]
        by (cases res) (auto simp: initVault_def print_out_def Let_def)
    qed
  qed
qed

lemma accepted_length: "accepted_password sh = Some p \<Longrightarrow> 15 \<le> length p \<and> length p \<le> 256"
  by (auto simp: accepted_password_def split: if_splits list.splits sum.splits)

lemma kdf_default: "ValidateKDFParams DefaultKDFParams = None"
  by (simp add: ValidateKDFParams_def DefaultKDFParams_def)

lemma Initialize_existing:
  "w_faults w = [] \<Longrightarrow> w_db w = Some d \<Longrightarrow>
    Initialize P path p DefaultKDFParams w = (Inl (Errorf (''vault already exists at '' @ path)), w)"
  by (simp add: Initialize_def kdf_default bnd_def os_Stat_def query_clean fail_def)

text \<open>A vault that was created is what the daemon opens, locked, and the password unlocks it.\<close>

lemma created_opens:
  assumes "prims_ok P" and "Initialize P path p params w = (Inr s, w')"
  shows "\<exists>d k. w_db w' = Some d \<and> vault_inv P k d
    \<and> (\<forall>v. w_db v = Some d \<longrightarrow> w_faults v = [] \<longrightarrow> (\<exists>b v' s s'. New path v = (Inr b, v') \<and> br_store b = Some s
        \<and> \<not> IsUnlocked s \<and> fst (Unlock P s p (with_db v' d)) = Inr s' \<and> st_keys s' = Some k))"
proof -
  obtain vid salt sl dek since made k where new: "w_db w' = Some (new_vault vid params salt sl since made)"
    "expand_keys P dek = Inr k" "opens_with P p params salt vid sl dek"
    using Initialize_new [OF assms(2,1)] by blast
  let ?d = "new_vault vid params salt sl since made" and ?s = "\<lparr>st_path = path, st_vaultID = vid, st_keys = None\<rparr>"
  have "\<exists>b v' s s'. New path v = (Inr b, v') \<and> br_store b = Some s
        \<and> \<not> IsUnlocked s \<and> fst (Unlock P s p (with_db v' ?d)) = Inr s' \<and> st_keys s' = Some k"
    if v: "w_db v = Some ?d" "w_faults v = []" for v
  proof -
    let ?v = "v\<lparr>w_ticks := Suc (w_ticks v)\<rparr>"
    have opened: "OpenVault path ?v = (Inr ?s, ?v)" using OpenVault_new v by simp
    have "Unlock P ?s p (with_db ?v ?d) = (Inr (?s\<lparr>st_keys := Some k\<rparr>), with_db ?v ?d)"
      using Unlock_new [of "with_db ?v ?d", OF _ _ _ new(3,2)] v(2) by simp
    then have "fst (Unlock P ?s p (with_db ?v ?d)) = Inr (?s\<lparr>st_keys := Some k\<rparr>)" by simp
    then show ?thesis using opened
      by (intro exI [of _ "\<lparr>br_vaultPath = path, br_store = Some ?s, br_startedAt = w_clock v (w_ticks v), br_power = new_manager\<rparr>"]
          exI [of _ ?v] exI [of _ ?s] exI [of _ "?s\<lparr>st_keys := Some k\<rparr>"])
        (simp add: New_def bnd_def time_now_def on_error_def ret_def IsUnlocked_def)
  qed
  then show ?thesis using new(1) new_vault_inv [of P k vid params salt sl since made] by (intro exI [of _ ?d] exI [of _ k]) simp
qed

text \<open>
  C16: \<open>vcsm init\<close> asks for the password twice and accepts it only when both are equal and have 15 to 256
  bytes (the messages count characters): otherwise it exits with 1 and has not touched the disk. An accepted
  password creates the vault exactly when none is there, and a vault that \<open>init\<close> has created is what the
  daemon opens: the store it starts with is locked and comes up with that password, and its database
  satisfies the invariant of the vault.
\<close>

theorem init_command:
  assumes "prims_ok (tl_prims T)" and "w_faults (sh_world sh) = []" and "88 \<le> length (w_tape (sh_world sh))"
    and "initVault T opts [] sh = (e, sh')"
  shows "case accepted_password sh of
      None \<Rightarrow> e = 1 \<and> sh_world sh' = sh_world sh
    | Some p \<Rightarrow>
        if w_db (sh_world sh) \<noteq> None then e = 1 \<and> w_db (sh_world sh') = w_db (sh_world sh)
        else e = 0 \<and> (\<exists>d k. w_db (sh_world sh') = Some d \<and> vault_inv (tl_prims T) k d
          \<and> (\<forall>w. w_db w = Some d \<longrightarrow> w_faults w = [] \<longrightarrow>
                (\<exists>b w' s s'. New (op_vault opts) w = (Inr b, w') \<and> br_store b = Some s \<and> \<not> IsUnlocked s
                  \<and> fst (Unlock (tl_prims T) s p (with_db w' d)) = Inr s' \<and> st_keys s' = Some k)))"
proof (cases rule: initVault_cases [of sh T opts])
  case refused
  then show ?thesis using assms(4) by simp
next
  case (created p s w u)
  have none: "w_db (sh_world sh) = None"
    using created(2) kdf_default by (cases "w_db (sh_world sh)") (simp_all add: Initialize_existing assms(2))
  obtain d k where "w_db w = Some d" "vault_inv (tl_prims T) k d"
    "\<And>v. w_db v = Some d \<Longrightarrow> w_faults v = [] \<Longrightarrow> \<exists>b v' s s'. New (op_vault opts) v = (Inr b, v') \<and> br_store b = Some s
      \<and> \<not> IsUnlocked s \<and> fst (Unlock (tl_prims T) s p (with_db v' d)) = Inr s' \<and> st_keys s' = Some k"
    using created_opens [OF assms(1) created(2)] by blast
  then show ?thesis using created assms(4) none by auto
next
  case (failed p err w u)
  have "w_db (sh_world sh) \<noteq> None"
    using failed(2) Initialize_run [OF assms(1) kdf_default, of p "sh_world sh" "op_vault opts"]
      accepted_length [OF failed(1)] assms(2,3) by fastforce
  moreover from this have "w_db w = w_db (sh_world sh)"
    using failed(2) by (auto simp: Initialize_existing assms(2))
  ultimately show ?thesis using failed assms(4) by auto
qed

definition careful_shell :: shell where
  "careful_shell = \<lparr>sh_world = with_db (demo_world demo_clock) None, sh_terminal = True,
     sh_typed = [Inr (replicate 15 42), Inr (replicate 15 42)], sh_out = [], sh_err = []\<rparr>"

theorem init_command_witness:
  "\<exists>sh' d k. initVault (demo_tool \<lparr>lk_dial = None, lk_write = None, lk_reply = (\<lambda>_. []), lk_broken = None\<rparr>) demo_options [] careful_shell = (0, sh')
    \<and> w_db (sh_world sh') = Some d \<and> vault_inv demo_prims k d"
proof -
  let ?T = "demo_tool \<lparr>lk_dial = None, lk_write = None, lk_reply = (\<lambda>_. []), lk_broken = None\<rparr>"
  obtain e sh' where run: "initVault ?T demo_options [] careful_shell = (e, sh')" by fastforce
  have typed: "accepted_password careful_shell = Some (replicate 15 42)" by (simp add: accepted_password_def careful_shell_def)
  have "prims_ok (tl_prims ?T)" "w_faults (sh_world careful_shell) = []" "88 \<le> length (w_tape (sh_world careful_shell))"
    "w_db (sh_world careful_shell) = None" "tl_prims ?T = demo_prims"
    by (simp_all add: careful_shell_def demo_tool_def demo_prims_ok)
  with init_command [OF this(1-3) run] typed have "e = 0 \<and> (\<exists>d k. w_db (sh_world sh') = Some d \<and> vault_inv demo_prims k d)"
    by auto
  with run show ?thesis by blast
qed

subsection \<open>vcsm action configure\<close>

text \<open>The command line that describes an action.\<close>

definition configure_arguments :: "Action \<Rightarrow> string list" where
  "configure_arguments a =
     [''configure'', ac_project a, ac_environment a, ac_name a, ''--cwd'', ac_directory a, ''--output'', ac_output_policy a]
     @ concat (map (\<lambda>(envName, secretName). [''--secret'', envName @ ''='' @ secretName])
         (case ac_secrets a of None \<Rightarrow> [] | Some m \<Rightarrow> m))
     @ [''--'', ac_executable a] @ (case ac_arguments a of None \<Rightarrow> [] | Some args \<Rightarrow> args)"

lemma cut_entry: "CHR ''='' \<notin> set k \<Longrightarrow> cut_equals (k @ ''='' @ v) = Some (k, v)"
  unfolding cut_equals_def by (induction k) auto

lemma env_name_no_equals: "safeEnvName s \<Longrightarrow> CHR ''='' \<notin> set s"
  by (cases s) (auto simp: safeEnvName_def name_start_def is_digit_def list_all_iff)

lemma action_flags_secrets:
  assumes "ac_secrets a = Some m" and "sorted_wrt (<) (map fst (m @ ms))" and "\<forall>(k, v)\<in>set ms. CHR ''='' \<notin> set k"
  shows "action_flags (concat (map (\<lambda>(k, v). [''--secret'', k @ ''='' @ v]) ms) @ ''--'' # rest) a
    = Some (a\<lparr>ac_secrets := Some (m @ ms)\<rparr>, ''--'' # rest)"
  using assms
proof (induction ms arbitrary: m a)
  case (Cons p ms)
  obtain k v where p: "p = (k, v)" by (cases p)
  have "map_put k v m = m @ [(k, v)]"
    using Cons.prems(2) p by (intro map_put_last) (auto simp: sorted_wrt_append)
  moreover have "cut_equals (k @ ''='' @ v) = Some (k, v)" using Cons.prems(3) p by (intro cut_entry) simp
  ultimately show ?case
    using Cons.IH [of "a\<lparr>ac_secrets := Some (m @ [(k, v)])\<rparr>" "m @ [(k, v)]"] Cons.prems p by simp
qed simp

lemma decode_configure:
  assumes "action_ok a"
  shows "unmarshal_raw configure_fields \<lparr>cq_action = zero_Action, cq_master_password = None\<rparr>
    (Some (as_read (configure_json \<lparr>cq_action = a, cq_master_password = pw\<rparr>))) = Inr \<lparr>cq_action = a, cq_master_password = pw\<rparr>"
proof -
  have "decode_struct action_fields (action_json a) zero_Action = Some a"
    using assms by (simp add: decode_struct_def action_json_def action_ok_def action_field_names zero_Action_def)
  moreover have "writable (configure_json \<lparr>cq_action = a, cq_master_password = pw\<rparr>)"
    using assms by (simp add: configure_json_def action_json_def action_ok_def writable_strs writable_strmap)
  ultimately show ?thesis
    unfolding unmarshal_raw_def option.case decode_struct_def [of configure_fields] configure_json_def
    by (simp only: as_read_same) (simp add: configure_fields_def find_field_def struct_field_def)
qed

lemma configure_action_arguments:
  assumes "validateAction a = None" and "ac_secrets a = Some m" and "strmap_ok m" and "ac_arguments a \<noteq> Some []"
    and "ac_id a = []" and "ac_created_at a = zero_time" and "ac_updated_at a = zero_time"
  shows "configure_action (configure_arguments a) = Some a"
proof -
  have names: "\<forall>(k, v)\<in>set m. CHR ''='' \<notin> set k"
    using assms(1,2) env_name_no_equals by (fastforce simp: validateAction_def list_all_iff split: if_splits)
  let ?start = "zero_Action\<lparr>ac_project := ac_project a, ac_environment := ac_environment a, ac_name := ac_name a,
      ac_secrets := Some [], ac_output_policy := ac_output_policy a, ac_directory := ac_directory a\<rparr>"
  have "action_flags (concat (map (\<lambda>(k, v). [''--secret'', k @ ''='' @ v]) m) @ ''--'' # rest) ?start
      = Some (?start\<lparr>ac_secrets := Some m\<rparr>, ''--'' # rest)" for rest
    using action_flags_secrets [of ?start "[]" m rest] assms(3) names by (simp add: strmap_ok_def)
  moreover have "(case ac_arguments a of None \<Rightarrow> [] | Some args \<Rightarrow> args) = [] \<longleftrightarrow> ac_arguments a = None"
    using assms(4) by (cases "ac_arguments a") auto
  ultimately show ?thesis
    using assms(2,5-7)
    by (cases a; cases "ac_arguments a") (simp_all add: configure_action_def configure_arguments_def zero_Action_def)
qed

text \<open>
  C17: The command line can say every action the broker accepts, and says exactly it: from the arguments that
  describe a valid action, \<open>action configure\<close> reads that action back, asks for the master password at the
  terminal and sends both in one request, whose payload the broker decodes to this action and this password.
\<close>

theorem configure_command:
  assumes "validateAction a = None" and "action_ok a" and "ac_secrets a = Some m" and "ac_arguments a \<noteq> Some []"
    and "ac_id a = []" and "ac_created_at a = zero_time" and "ac_updated_at a = zero_time"
    and "sh_terminal sh" and "sh_typed sh = Inr password # typed"
  shows "\<exists>payload sh1. actionCommand T opts (configure_arguments a) sh = callAndPrint T opts ''action.configure'' payload sh1
    \<and> unmarshal_raw configure_fields \<lparr>cq_action = zero_Action, cq_master_password = None\<rparr> (Some (as_read payload))
        = Inr \<lparr>cq_action = a, cq_master_password = Some password\<rparr>
    \<and> sh_typed sh1 = typed \<and> sh_out sh1 = sh_out sh \<and> sh_world sh1 = sh_world sh"
proof -
  have "strmap_ok m" using assms(2,3) by (simp add: action_ok_def)
  then have read: "configure_action (configure_arguments a) = Some a"
    by (intro configure_action_arguments) (use assms in simp_all)
  let ?sh = "print_err newline ((print_err ''Approve action with master password: '' sh)\<lparr>sh_typed := typed\<rparr>)"
  have "promptPassword ''Approve action with master password: '' sh = (Inr password, ?sh)"
    using assms(8,9) by (simp add: promptPassword_def print_err_def)
  moreover obtain rest where "configure_arguments a = ''configure'' # ac_project a # ac_environment a # rest"
    by (simp add: configure_arguments_def)
  ultimately have "actionCommand T opts (configure_arguments a) sh
      = callAndPrint T opts ''action.configure'' (configure_json \<lparr>cq_action = a, cq_master_password = Some password\<rparr>) ?sh"
    using read by (simp add: actionCommand_def)
  then show ?thesis using decode_configure [OF assms(2)]
    by (intro exI [of _ "configure_json \<lparr>cq_action = a, cq_master_password = Some password\<rparr>"] exI [of _ ?sh])
      (simp add: print_err_def)
qed

definition wanted_action :: Action where
  "wanted_action = zero_Action\<lparr>ac_project := ''shop'', ac_environment := ''dev'', ac_name := ''show'', ac_executable := ''/bin/env'',
     ac_secrets := Some [(''DB'', ''db-password'')], ac_output_policy := ''redacted''\<rparr>"

theorem configure_command_witness:
  "\<exists>payload sh1. actionCommand (demo_tool \<lparr>lk_dial = None, lk_write = None, lk_reply = (\<lambda>_. []), lk_broken = None\<rparr>) demo_options
      [''configure'', ''shop'', ''dev'', ''show'', ''--cwd'', [], ''--output'', ''redacted'', ''--secret'', ''DB=db-password'', ''--'', ''/bin/env''] careful_shell
    = callAndPrint (demo_tool \<lparr>lk_dial = None, lk_write = None, lk_reply = (\<lambda>_. []), lk_broken = None\<rparr>) demo_options ''action.configure'' payload sh1
    \<and> sh_out sh1 = []"
proof -
  have "validateAction wanted_action = None" by code_simp
  moreover have "action_ok wanted_action"
    by (simp add: action_ok_def wanted_action_def zero_Action_def ascii_valid_utf8 ascii_def strmap_ok_def zero_time_def
        valid_time_def days_in_def)
  moreover have "configure_arguments wanted_action = [''configure'', ''shop'', ''dev'', ''show'', ''--cwd'', [], ''--output'', ''redacted'',
      ''--secret'', ''DB=db-password'', ''--'', ''/bin/env'']"
    by (simp add: configure_arguments_def wanted_action_def zero_Action_def)
  ultimately show ?thesis
    using configure_command [of wanted_action "[(''DB'', ''db-password'')]" careful_shell "replicate 15 42" "[Inr (replicate 15 42)]"
        "demo_tool \<lparr>lk_dial = None, lk_write = None, lk_reply = (\<lambda>_. []), lk_broken = None\<rparr>" demo_options]
    by (fastforce simp: wanted_action_def zero_Action_def careful_shell_def)
qed

subsection \<open>Output that is cut inside a character\<close>

definition quiet_conn :: conn where
  "quiet_conn = \<lparr>cn_sent = [], cn_faults = []\<rparr>"

text \<open>What \<open>vcsm run\<close> prints on standard output for a child that makes these writes, with no values to redact.\<close>

definition printed_run :: "bytes list \<Rightarrow> shell \<Rightarrow> string" where
  "printed_run writes sh = sh_out (snd (snd (read_responses None run_response_handler
     (wire (cn_sent (snd (run_child ''redacted'' (\<lambda>_. \<lparr>ch_writes = map (Pair False) writes, ch_end = None\<rparr>) None
        \<lparr>iv_command = [''cat''], iv_dir = [], iv_env = []\<rparr> [] quiet_conn)))) (1, sh))))"


subsection \<open>Help\<close>

text \<open>The flag package answers \<open>--help\<close> and \<open>-h\<close> before the command is looked at; only after a double dash are they commands.\<close>

lemma help_flag:
  "run_cli T (Inr defaults) [''--help''] sh = (2, sh)" "run_cli T (Inr defaults) [''-h''] sh = (2, sh)"
  "run_cli T (Inr defaults) [''--'', ''--help''] sh = (0, usage sh)"
  by (simp_all add: run_cli_def flag_name_def cut_equals_def)

end
