(* ===== verification/EndpointRace.thy ===== *)
theory EndpointRace
  imports Endpoint
begin

section \<open>Brokers that share an endpoint\<close>

text \<open>
  The life of the socket when brokers come and go. A broker that is interrupted closes its listener twice:
  the goroutine of \<open>Serve\<close> that waits for the context closes it, which ends \<open>Accept\<close>, and then the deferred
  \<open>Close\<close> runs, and each removes the file at the path. Between the two another broker may start. A broker
  may also be killed, which leaves its file behind. Each call of the operating system may fail as it likes.
\<close>

datatype phase = Stopped | Serving | Closing

record site =
  si_node :: node
  si_owner :: nat
  si_phase :: "nat \<Rightarrow> phase"

text \<open>The file when the process that listens on it is gone.\<close>

fun dead :: "node \<Rightarrow> node" where
  "dead Absent = Absent"
| "dead (Socket listening mode) = Socket False mode"

definition left_by :: "nat \<Rightarrow> site \<Rightarrow> node" where
  "left_by b s = (if si_owner s = b then dead (si_node s) else si_node s)"

inductive endpoint_step :: "string \<Rightarrow> site \<Rightarrow> site \<Rightarrow> bool" for endpoint where
  started: "si_phase s b = Stopped \<Longrightarrow> listen y endpoint (si_node s) = (Inr (), n) \<Longrightarrow>
    endpoint_step endpoint s (s\<lparr>si_node := n, si_owner := b, si_phase := (si_phase s)(b := Serving)\<rparr>)"
| refused: "si_phase s b = Stopped \<Longrightarrow> listen y endpoint (si_node s) = (Inl err, n) \<Longrightarrow>
    endpoint_step endpoint s (s\<lparr>si_node := n\<rparr>)"
| interrupted: "si_phase s b = Serving \<Longrightarrow> cleanup_Close y False (left_by b s) = (err, n) \<Longrightarrow>
    endpoint_step endpoint s (s\<lparr>si_node := n, si_phase := (si_phase s)(b := Closing)\<rparr>)"
| finished: "si_phase s b = Closing \<Longrightarrow> cleanup_Close y True (left_by b s) = (err, n) \<Longrightarrow>
    endpoint_step endpoint s (s\<lparr>si_node := n, si_phase := (si_phase s)(b := Stopped)\<rparr>)"
| killed: "si_phase s b \<noteq> Stopped \<Longrightarrow>
    endpoint_step endpoint s (s\<lparr>si_node := left_by b s, si_phase := (si_phase s)(b := Stopped)\<rparr>)"

definition nobody :: site where
  "nobody = \<lparr>si_node = Absent, si_owner = 0, si_phase = (\<lambda>_. Stopped)\<rparr>"

inductive site_reachable :: "string \<Rightarrow> site \<Rightarrow> bool" for endpoint where
  empty: "site_reachable endpoint nobody"
| step: "site_reachable endpoint s \<Longrightarrow> endpoint_step endpoint s s' \<Longrightarrow> site_reachable endpoint s'"

definition live_ok :: "site \<Rightarrow> bool" where
  "live_ok s \<longleftrightarrow> (\<forall>mode. si_node s = Socket True mode \<longrightarrow> si_phase s (si_owner s) = Serving \<and> mode = owner_only)"

lemma left_by_live: "left_by b s = Socket True mode \<longleftrightarrow> si_owner s \<noteq> b \<and> si_node s = Socket True mode"
  by (cases "si_node s") (auto simp: left_by_def)

lemma cleanup_live: "cleanup_Close y closed n = (err, Socket True mode) \<Longrightarrow> n = Socket True mode"
  by (auto simp: cleanup_Close_def split: if_splits)

lemma listen_refused: "listen y endpoint n = (Inl err, Socket True mode) \<Longrightarrow> n = Socket True mode"
  by (auto simp: listen_def bind_socket_def split: option.splits node.splits if_splits)

lemma step_live_ok: "endpoint_step endpoint s s' \<Longrightarrow> live_ok s \<Longrightarrow> live_ok s'"
  by (induction rule: endpoint_step.induct)
    (auto simp: live_ok_def left_by_live dest!: listen_Inr listen_refused cleanup_live)

inductive_cases endpoint_stepE: "endpoint_step endpoint s s'"

lemma step_keeps_owner: "endpoint_step endpoint s s' \<Longrightarrow> si_node s = Socket True mode \<Longrightarrow> si_owner s' = si_owner s"
  by (erule endpoint_stepE) (auto dest: listen_Inr)


definition calm :: sys where
  "calm = \<lparr>sy_mkdir = None, sy_remove = None, sy_listen = None, sy_chmod = None\<rparr>"

lemma calm_listen: "listen calm endpoint Absent = (Inr (), Socket True owner_only)"
  by (simp add: listen_def bind_socket_def calm_def)

lemma calm_Close: "cleanup_Close calm closed n = (if closed then Some ErrClosed else None, Absent)"
  by (simp add: cleanup_Close_def calm_def)

text \<open>
  The second \<open>Close\<close> of a broker removes the socket of the one that started in between: a third broker then
  starts without being refused, and the second one serves an endpoint that nobody can reach.
\<close>

theorem two_brokers_serve:
  "\<exists>s. site_reachable endpoint s \<and> si_phase s 1 = Serving \<and> si_phase s 2 = Serving \<and> si_owner s = 2 \<and> (\<exists>m. si_node s = Socket True m)"
proof -
  let ?p = "\<lambda>_. Stopped"
  let ?s1 = "nobody\<lparr>si_node := Socket True owner_only, si_owner := 0, si_phase := ?p(0 := Serving)\<rparr>"
  let ?s2 = "nobody\<lparr>si_node := Absent, si_owner := 0, si_phase := ?p(0 := Closing)\<rparr>"
  let ?s3 = "nobody\<lparr>si_node := Socket True owner_only, si_owner := 1, si_phase := ?p(0 := Closing, 1 := Serving)\<rparr>"
  let ?s4 = "nobody\<lparr>si_node := Absent, si_owner := 1, si_phase := ?p(1 := Serving)\<rparr>"
  let ?s5 = "nobody\<lparr>si_node := Socket True owner_only, si_owner := 2, si_phase := ?p(1 := Serving, 2 := Serving)\<rparr>"
  have "site_reachable endpoint ?s1"
    using site_reachable.step [OF site_reachable.empty endpoint_step.started [of nobody 0 calm endpoint]]
    by (simp add: nobody_def calm_listen)
  then have "site_reachable endpoint ?s2"
    using site_reachable.step [OF _ endpoint_step.interrupted [of ?s1 0 calm]] by (simp add: nobody_def calm_Close)
  then have "site_reachable endpoint ?s3"
    using site_reachable.step [OF _ endpoint_step.started [of ?s2 1 calm endpoint]] by (simp add: nobody_def calm_listen)
  have gone: "(\<lambda>_::nat. Stopped)(0 := Closing, Suc 0 := Serving, 0 := Stopped) = (\<lambda>_. Stopped)(Suc 0 := Serving)" by auto
  from \<open>site_reachable endpoint ?s3\<close> have "site_reachable endpoint ?s4"
    using site_reachable.step [OF _ endpoint_step.finished [of ?s3 0 calm]] by (simp add: nobody_def calm_Close gone)
  then have "site_reachable endpoint ?s5"
    using site_reachable.step [OF _ endpoint_step.started [of ?s4 2 calm endpoint]] by (simp add: nobody_def calm_listen)
  then show ?thesis by (intro exI [of _ ?s5]) simp
qed


end
