(* ===== verification/VaultRace.thy ===== *)
theory VaultRace
  imports VaultProps
begin

section \<open>Requests that run between the two parts of another\<close>

text \<open>
  \<open>RotateSecret\<close>, \<open>PutAction\<close> and \<open>RevokeSecret\<close> read first and write in a transaction later, and the broker serves
  its connections in goroutines, so other requests run in between. A rotation writes only when the revision of
  the row is still the one it has read, and an action is written as a whole; the first half of this theory
  shows that this makes every interleaving of rotations, actions and operations that are not interrupted a
  sequence of whole operations. A revocation does not compare the revision; the second half shows what that
  costs.
\<close>

subsection \<open>Prepared rotations\<close>

text \<open>
  What a prepared rotation still relies on in the current database: its row is there, with at least the
  revision that was read, and if the revision is the same, so is what was read.
\<close>

definition fits :: "prims \<Rightarrow> keySet \<Rightarrow> change \<Rightarrow> bytes \<Rightarrow> database \<Rightarrow> bool" where
  "fits P k ch val d \<longleftrightarrow> sm_state (ch_meta ch) = ''active'' \<and> secret_ok (ch_meta ch)
     \<and> (\<exists>js. marshal_secret (ch_meta ch) = Inr js
          \<and> sealed P (ks_metadata k) js (objectAAD ''secret'' (sm_id (ch_meta ch)) (inc64 (ch_revision ch))) (ch_sealed_meta ch))
     \<and> sealed P (ks_dek k) val (secretAAD (sm_id (ch_meta ch)) (sm_version (ch_meta ch))) (ch_sealed_value ch)
     \<and> (\<exists>r\<in>set (db_objects d). ob_id r = sm_id (ch_meta ch) \<and> ob_type r = ''secret'' \<and> ch_revision ch \<le> ob_revision r
          \<and> (ob_revision r = ch_revision ch \<longrightarrow> (\<exists>m. read_secret P k r = Inr m
                \<and> secret_token P k (ch_meta ch) = secret_token P k m \<and> sm_version (ch_meta ch) = sm_version m + 1)))"

text \<open>
  How the rows change: they stay, with their identifier, type and name, and a row of a secret is left alone or
  gets a later revision.
\<close>

definition moves_on :: "database \<Rightarrow> database \<Rightarrow> bool" where
  "moves_on d d' \<longleftrightarrow> (\<forall>r\<in>set (db_objects d). \<exists>r'\<in>set (db_objects d'). ob_id r' = ob_id r \<and> ob_type r' = ob_type r
     \<and> ob_lookup r' = ob_lookup r \<and> (ob_type r = ''secret'' \<longrightarrow> r' = r \<or> ob_revision r < ob_revision r'))"

lemma moves_on_more: "set (db_objects d) \<subseteq> set (db_objects d') \<Longrightarrow> moves_on d d'"
  unfolding moves_on_def by blast

lemma moves_on_update:
  assumes "db_objects d' = update_where Q f (db_objects d)" and "same_keys f"
    and "\<And>r. r \<in> set (db_objects d) \<Longrightarrow> ob_type r = ''secret'' \<Longrightarrow> Q r \<Longrightarrow> ob_revision r < ob_revision (f r)"
  shows "moves_on d d'"
  unfolding moves_on_def
proof
  fix r assume r: "r \<in> set (db_objects d)"
  let ?r' = "if Q r then f r else r"
  have "?r' \<in> set (db_objects d')" unfolding assms(1) set_update_where by (rule image_eqI [OF refl r])
  moreover have "ob_id ?r' = ob_id r \<and> ob_type ?r' = ob_type r \<and> ob_lookup ?r' = ob_lookup r
      \<and> (ob_type r = ''secret'' \<longrightarrow> ?r' = r \<or> ob_revision r < ob_revision ?r')"
    using assms(2) assms(3) [OF r] by (simp add: same_keys_def)
  ultimately show "\<exists>r'\<in>set (db_objects d'). ob_id r' = ob_id r \<and> ob_type r' = ob_type r \<and> ob_lookup r' = ob_lookup r
      \<and> (ob_type r = ''secret'' \<longrightarrow> r' = r \<or> ob_revision r < ob_revision r')" by blast
qed

lemma moves_on_fits:
  assumes "moves_on d d'" and "fits P k ch val d"
  shows "fits P k ch val d'"
proof -
  obtain r where r: "r \<in> set (db_objects d)" "ob_id r = sm_id (ch_meta ch)" "ob_type r = ''secret''" "ch_revision ch \<le> ob_revision r"
    and same: "ob_revision r = ch_revision ch \<longrightarrow> (\<exists>m. read_secret P k r = Inr m
      \<and> secret_token P k (ch_meta ch) = secret_token P k m \<and> sm_version (ch_meta ch) = sm_version m + 1)"
    using assms(2) unfolding fits_def by blast
  obtain r' where "r' \<in> set (db_objects d')" "ob_id r' = ob_id r" "ob_type r' = ob_type r" "r' = r \<or> ob_revision r < ob_revision r'"
    using assms(1) r(1,3) unfolding moves_on_def by blast
  then have "\<exists>r'\<in>set (db_objects d'). ob_id r' = sm_id (ch_meta ch) \<and> ob_type r' = ''secret'' \<and> ch_revision ch \<le> ob_revision r'
      \<and> (ob_revision r' = ch_revision ch \<longrightarrow> (\<exists>m. read_secret P k r' = Inr m
            \<and> secret_token P k (ch_meta ch) = secret_token P k m \<and> sm_version (ch_meta ch) = sm_version m + 1))"
    using r same by (intro bexI [of _ r']) auto
  then show ?thesis using assms(2) unfolding fits_def by blast
qed

lemma moves_on_put_fits: "moves_on d d' \<Longrightarrow> put_fits P k p d \<Longrightarrow> put_fits P k p d'"
  unfolding put_fits_def moves_on_def by metis

lemma prepare_fits:
  assumes "vault_inv P k (w_db w)" and "roomy (w_db w)" and "valid_utf8 profile" and "int64 strength"
    and "valid_time (w_clock w (w_ticks w))" and "rotate_prepare P k scope name profile strength val w = (Inr ch, w')"
  shows "fits P k ch val (w_db w')"
proof -
  obtain r m js where r: "found P k (w_db w) (scope_token P k scope name) r m"
    "ch_meta ch = rotated m profile strength (w_clock w (w_ticks w))" "marshal_secret (ch_meta ch) = Inr js"
    "ch_revision ch = ob_revision r"
    "sealed P (ks_metadata k) js (objectAAD ''secret'' (sm_id m) (inc64 (ob_revision r))) (ch_sealed_meta ch)"
    "sealed P (ks_dek k) val (secretAAD (sm_id m) (inc64 (sm_version m))) (ch_sealed_value ch)"
    "w_db w' = w_db w"
    by (rule rotate_prepare_Inr [OF assms(6)])
  note f = found_at [OF assms(1) r(1)]
  have inc: "inc64 (sm_version m) = sm_version m + 1" by (rule inc64_version [OF assms(1,2) r(1)])
  have m': "sm_id (ch_meta ch) = sm_id m" "secret_token P k (ch_meta ch) = secret_token P k m"
    "sm_version (ch_meta ch) = sm_version m + 1" "sm_state (ch_meta ch) = ''active''"
    by (simp_all add: r(2) rotated_def secret_token_def inc)
  have "secret_ok (ch_meta ch)"
    using f(3) assms(3-5) int64_inc64 [of "sm_version m"]
    by (simp add: secret_ok_def r(2) rotated_def) (simp add: ascii_valid_utf8 ascii_def)
  moreover have "r \<in> set (db_objects (w_db w))" "ob_type r = ''secret''" "read_secret P k r = Inr m"
    using r(1) by (simp_all add: found_def)
  ultimately show ?thesis
    using r(3-7) m' f(4) unfolding fits_def by (auto simp: inc intro!: bexI [of _ r])
qed

text \<open>A commit that succeeds is a rotation of what the database holds now.\<close>

lemma commit_current:
  assumes "prims_ok P" and "keys_ok k" and "vault_inv P k (w_db w)" and "fits P k ch val (w_db w)"
    and "rotate_commit P k ch w = (Inr m', w')"
  shows "\<exists>m v. secret_at P k (w_db w) (secret_token P k m') = Some (m, v) \<and> sm_version m' = sm_version m + 1
    \<and> vault_inv P k (w_db w')
    \<and> secret_at P k (w_db w') = (secret_at P k (w_db w))(secret_token P k m' \<mapsto> (m', Some val))"
    and "\<exists>row. w_db w' = (db_rotate ch (w_db w))\<lparr>db_audit := row\<rparr>"
proof -
  obtain row where c: "m' = ch_meta ch" "\<forall>x\<in>set (db_versions (w_db w)). vr_id x \<noteq> ch_version_id ch"
    "length (filter (\<lambda>r. ob_id r = sm_id (ch_meta ch) \<and> ob_revision r = ch_revision ch) (db_objects (w_db w))) = 1"
    "w_db w' = (db_rotate ch (w_db w))\<lparr>db_audit := db_audit (w_db w) @ [row]\<rparr>"
    by (rule rotate_commit_Inr [OF assms(5)])
  then show "\<exists>row. w_db w' = (db_rotate ch (w_db w))\<lparr>db_audit := row\<rparr>" by blast
  obtain js r where ft: "sm_state m' = ''active''" "secret_ok m'" "marshal_secret m' = Inr js"
    "sealed P (ks_metadata k) js (objectAAD ''secret'' (sm_id m') (inc64 (ch_revision ch))) (ch_sealed_meta ch)"
    "sealed P (ks_dek k) val (secretAAD (sm_id m') (sm_version m')) (ch_sealed_value ch)"
    "r \<in> set (db_objects (w_db w))" "ob_id r = sm_id m'" "ob_type r = ''secret''"
    and same: "ob_revision r = ch_revision ch \<Longrightarrow> \<exists>m. read_secret P k r = Inr m
      \<and> secret_token P k m' = secret_token P k m \<and> sm_version m' = sm_version m + 1"
    using assms(4) unfolding fits_def c(1) by blast
  obtain x where "x \<in> set (db_objects (w_db w))" "ob_id x = sm_id m'" "ob_revision x = ch_revision ch"
    using c(3) unfolding c(1) [symmetric] by (metis (mono_tags, lifting) filter_empty_conv length_0_conv zero_neq_one)
  then have rev: "ob_revision r = ch_revision ch" using row_determined [OF assms(3) _ ft(6)] ft(7) by metis
  then obtain m where m: "read_secret P k r = Inr m" "secret_token P k m' = secret_token P k m" "sm_version m' = sm_version m + 1"
    using same by blast
  have ok: "secret_row_ok P k (history (w_db w) (ob_id r)) r m" by (rule secret_row_inv [OF assms(3) ft(6,8) m(1)])
  then have i: "sm_id m' = sm_id m" "ob_lookup r = secret_token P k m" using ft(7) by (simp_all add: secret_row_ok_def)
  note inv = rotate_inv [OF assms(3,1,2) ft(6,8) m(1) c(1) [symmetric] i(1) m(2,3) ft(1,2,3) rev [symmetric] _ ft(5) c(2)]
  have "sealed P (ks_metadata k) js (objectAAD ''secret'' (sm_id m') (inc64 (ob_revision r))) (ch_sealed_meta ch)"
    using ft(4) rev by simp
  from inv [OF this] show "\<exists>m v. secret_at P k (w_db w) (secret_token P k m') = Some (m, v) \<and> sm_version m' = sm_version m + 1
    \<and> vault_inv P k (w_db w')
    \<and> secret_at P k (w_db w') = (secret_at P k (w_db w))(secret_token P k m' \<mapsto> (m', Some val))"
    using secret_at_row [OF assms(3) ft(6,8) m(1)] m(2,3) i(2) by (simp add: c(4))
qed

text \<open>The operations that other requests complete in between let the rows move on.\<close>

lemma rotate_moves_on:
  assumes "roomy d"
  shows "moves_on d (db_rotate ch d)"
  by (rule moves_on_update [of _ "\<lambda>r. ob_id r = sm_id (ch_meta ch) \<and> ob_revision r = ch_revision ch"])
    (use assms in \<open>auto simp: db_rotate_def Let_def db_update_def same_keys_def roomy_def inc64_def\<close>)

lemma put_moves_on:
  assumes "vault_inv P k d" and "put_fits P k p d"
  shows "moves_on d (db_put p d)"
proof (cases "pu_revision p = 0")
  case True
  then show ?thesis by (intro moves_on_more) (auto simp: db_put_def Let_def db_insert_def)
next
  case False
  then obtain r where r: "r \<in> set (db_objects d)" "ob_id r = ac_id (pu_action p)" "ob_type r = ''action''"
    using assms(2) by (auto simp: put_fits_def)
  show ?thesis
  proof (rule moves_on_update [of _ "\<lambda>r. ob_id r = ac_id (pu_action p)"])
    show "db_objects (db_put p d) = update_where (\<lambda>r. ob_id r = ac_id (pu_action p)) (\<lambda>r. r\<lparr>ob_nonce := fst (pu_sealed p),
        ob_ciphertext := snd (pu_sealed p), ob_revision := inc64 (pu_revision p),
        ob_updated_at := stamp (ac_updated_at (pu_action p))\<rparr>) (db_objects d)"
      using False by (simp add: db_put_def Let_def db_update_def)
  next
    fix x assume x: "x \<in> set (db_objects d)" "ob_type x = ''secret''" "ob_id x = ac_id (pu_action p)"
    have "x = r" by (rule row_determined [OF assms(1) x(1) r(1)]) (simp add: x(3) r(2))
    then show "ob_revision x < ob_revision (x\<lparr>ob_nonce := fst (pu_sealed p), ob_ciphertext := snd (pu_sealed p),
        ob_revision := inc64 (pu_revision p), ob_updated_at := stamp (ac_updated_at (pu_action p))\<rparr>)"
      using x(2) r(3) by simp
  qed (simp add: same_keys_def)
qed

lemma create_moves_on:
  assumes "st_keys s = Some k" and "CreateSecret P s meta val w = (Inr m, w')"
  shows "moves_on (w_db w) (w_db w')"
proof -
  obtain i js sm vid sv u where c: "create_commit P k m (secret_token P k m) sm vid sv u = (Inr m, w')" "w_db u = w_db w"
    by (rule CreateSecret_Inr [OF assms])
  show ?thesis using c(1) unfolding c(2) [symmetric] by (rule create_commit_Inr) (auto intro: moves_on_more)
qed

lemma revoke_moves_on:
  assumes "st_keys s = Some k" and "vault_inv P k (w_db w)" and "roomy (w_db w)" and "RevokeSecret P s scope name w = (Inr m, w')"
  shows "moves_on (w_db w) (w_db w')"
proof -
  obtain ch u where prep: "revoke_prepare P k scope name w = (Inr ch, u)" and com: "revoke_commit P k ch u = (Inr m, w')"
    using assms(4) by (auto simp: RevokeSecret_def copyKeys_def assms(1) bnd_Inr lift_Inr)
  obtain r m0 where r: "found P k (w_db w) (scope_token P k scope name) r m0"
    "ch_meta ch = revoked m0 (w_clock w (w_ticks w))" "ch_revision ch = ob_revision r" "w_db u = w_db w"
    by (rule revoke_prepare_Inr [OF prep])
  obtain row where c: "w_db w' = (db_revoke ch (w_db w))\<lparr>db_audit := row\<rparr>"
    using com unfolding r(4) [symmetric] by (rule revoke_commit_Inr) blast
  have i: "sm_id (ch_meta ch) = ob_id r" using found_at(4) [OF assms(2) r(1)] by (simp add: r(2) revoked_def)
  have r': "r \<in> set (db_objects (w_db w))" using r(1) by (simp add: found_def)
  show ?thesis
  proof (rule moves_on_update [of _ "\<lambda>x. ob_id x = sm_id (ch_meta ch)"])
    show "db_objects (w_db w') = update_where (\<lambda>x. ob_id x = sm_id (ch_meta ch)) (\<lambda>x. x\<lparr>ob_nonce := fst (ch_sealed_meta ch),
        ob_ciphertext := snd (ch_sealed_meta ch), ob_revision := inc64 (ch_revision ch),
        ob_updated_at := stamp (sm_updated_at (ch_meta ch))\<rparr>) (db_objects (w_db w))"
      by (simp add: c db_revoke_def Let_def db_update_def)
  next
    fix x assume x: "x \<in> set (db_objects (w_db w))" "ob_id x = sm_id (ch_meta ch)"
    have "x = r" by (rule row_determined [OF assms(2) x(1) r']) (simp add: x(2) i)
    then show "ob_revision x < ob_revision (x\<lparr>ob_nonce := fst (ch_sealed_meta ch), ob_ciphertext := snd (ch_sealed_meta ch),
        ob_revision := inc64 (ch_revision ch), ob_updated_at := stamp (sm_updated_at (ch_meta ch))\<rparr>)"
      using assms(3) r' r(3) by (auto simp: roomy_def inc64_def)
  qed (simp add: same_keys_def)
qed

subsection \<open>Every interleaving\<close>

text \<open>What a request has prepared, what the commit needs of the database, and the commit.\<close>

datatype pending = Rotation change bytes | Storing put

primrec still_fits :: "prims \<Rightarrow> keySet \<Rightarrow> database \<Rightarrow> pending \<Rightarrow> bool" where
  "still_fits P k d (Rotation ch val) \<longleftrightarrow> fits P k ch val d"
| "still_fits P k d (Storing p) \<longleftrightarrow> put_fits P k p d"

primrec commit :: "prims \<Rightarrow> keySet \<Rightarrow> pending \<Rightarrow> unit vault" where
  "commit P k (Rotation ch val) = bnd (rotate_commit P k ch) (\<lambda>_. ret ())"
| "commit P k (Storing p) = bnd (put_commit P k p) (\<lambda>_. ret ())"

lemma moves_on_still_fits: "moves_on d d' \<Longrightarrow> still_fits P k d t \<Longrightarrow> still_fits P k d' t"
  using moves_on_fits moves_on_put_fits by (cases t) auto

lemma rotate_actions:
  assumes "vault_inv P k d" and "fits P k ch val d"
  shows "action_at P k (db_rotate ch d) = action_at P k d"
proof -
  obtain r where r: "r \<in> set (db_objects d)" "ob_id r = sm_id (ch_meta ch)" "ob_type r = ''secret''"
    using assms(2) unfolding fits_def by blast
  have "x = r" if "x \<in> set (db_objects d)" "ob_id x = sm_id (ch_meta ch)" for x
    by (rule row_determined [OF assms(1) that(1) r(1)]) (simp add: that(2) r(2))
  then have "action_rows (db_rotate ch d) tok = action_rows d tok" for tok
    unfolding action_rows_def db_rotate_def Let_def db_update_def
    by simp (rule filter_update_other, use r(3) in auto)
  then show ?thesis by (intro ext) (simp add: action_at_def)
qed

text \<open>A commit, whatever ran since the preparation: a whole operation on the current database, or nothing.\<close>

lemma commit_serial:
  assumes "prims_ok P" and "keys_ok k" and "vault_inv P k (w_db w)" and "still_fits P k (w_db w) t"
    and "commit P k t w = (r, w')"
  shows "case r of
      Inl e \<Rightarrow> w_db w' = w_db w
    | Inr _ \<Rightarrow> vault_inv P k (w_db w')
        \<and> (case t of
             Rotation ch val \<Rightarrow> \<exists>m v. secret_at P k (w_db w) (secret_token P k (ch_meta ch)) = Some (m, v)
               \<and> sm_version (ch_meta ch) = sm_version m + 1
               \<and> secret_at P k (w_db w') = (secret_at P k (w_db w))(secret_token P k (ch_meta ch) \<mapsto> (ch_meta ch, Some val))
               \<and> action_at P k (w_db w') = action_at P k (w_db w)
           | Storing p \<Rightarrow> secret_at P k (w_db w') = secret_at P k (w_db w)
               \<and> action_at P k (w_db w') = (action_at P k (w_db w))(action_token P k (pu_action p) \<mapsto> pu_action p))"
proof (cases r)
  case (Inl e)
  have "atomic (commit P k t)" by (cases t) (simp_all add: atomic_bnd_ret atomic_commit atomic_put_commit)
  then show ?thesis using atomicD assms(5) Inl by fastforce
next
  case (Inr u)
  show ?thesis
  proof (cases t)
    case (Rotation ch val)
    then have fit: "fits P k ch val (w_db w)" using assms(4) by simp
    obtain m' where com: "rotate_commit P k ch w = (Inr m', w')"
      using assms(5) Inr Rotation by (auto simp: bnd_Inr ret_Inr)
    have m': "m' = ch_meta ch" using com by (rule rotate_commit_Inr)
    note cur = commit_current [OF assms(1-3) fit com]
    have "action_at P k (w_db w') = action_at P k (w_db w)" using cur(2) rotate_actions [OF assms(3) fit] by auto
    then show ?thesis using cur(1) Inr Rotation m' by auto
  next
    case (Storing p)
    then have fit: "put_fits P k p (w_db w)" using assms(4) by simp
    obtain a' where com: "put_commit P k p w = (Inr a', w')"
      using assms(5) Inr Storing by (auto simp: bnd_Inr ret_Inr)
    show ?thesis using put_commit_current(1) [OF assms(1-3) fit com] Inr Storing by simp
  qed
qed

lemma commit_moves_on:
  assumes "prims_ok P" and "keys_ok k" and "vault_inv P k (w_db w)" and "roomy (w_db w)" and "still_fits P k (w_db w) t"
    and "commit P k t w = (Inr u, w')"
  shows "moves_on (w_db w) (w_db w')"
proof (cases t)
  case (Rotation ch val)
  then obtain m' where com: "rotate_commit P k ch w = (Inr m', w')" using assms(6) by (auto simp: bnd_Inr ret_Inr)
  obtain row where "w_db w' = (db_rotate ch (w_db w))\<lparr>db_audit := row\<rparr>"
    using commit_current(2) [OF assms(1-3) _ com] assms(5) Rotation by auto
  then show ?thesis using rotate_moves_on [OF assms(4)] by (simp add: moves_on_def)
next
  case (Storing p)
  then obtain a' where com: "put_commit P k p w = (Inr a', w')" using assms(6) by (auto simp: bnd_Inr ret_Inr)
  have fit: "put_fits P k p (w_db w)" using assms(5) Storing by simp
  obtain row where "w_db w' = (db_put p (w_db w))\<lparr>db_audit := row\<rparr>"
    using put_commit_current(2) [OF assms(1-3) fit com] by auto
  then show ?thesis using put_moves_on [OF assms(3) fit] by (simp add: moves_on_def)
qed

text \<open>
  The vault and what is prepared. A step prepares a rotation or an action, commits what is prepared, whether that
  succeeds or not, runs a creation, whose preparation reads nothing, or a revocation that is not interrupted,
  or changes the world elsewhere: the audit log grows, time passes, randomness is drawn, the driver gets new
  faults. The counters have room and the clock is a clock.
\<close>

type_synonym race = "database world \<times> pending list"

definition sane :: "database world \<Rightarrow> bool" where
  "sane w \<longleftrightarrow> roomy (w_db w) \<and> (\<forall>n. valid_time (w_clock w n))"

inductive race_step :: "prims \<Rightarrow> Store \<Rightarrow> keySet \<Rightarrow> race \<Rightarrow> race \<Rightarrow> bool" for P s k where
  rotating: "sane w \<Longrightarrow> valid_utf8 profile \<Longrightarrow> int64 strength \<Longrightarrow>
    rotate_prepare P k scope name profile strength val w = (Inr ch, w') \<Longrightarrow> race_step P s k (w, ts) (w', Rotation ch val # ts)"
| storing: "sane w \<Longrightarrow> action_input_ok a \<Longrightarrow> put_prepare P k a w = (Inr p, w') \<Longrightarrow> race_step P s k (w, ts) (w', Storing p # ts)"
| committed: "sane w \<Longrightarrow> commit P k t w = (r, w') \<Longrightarrow> race_step P s k (w, us @ t # vs) (w', us @ vs)"
| created: "sane w \<Longrightarrow> utf8_names meta \<Longrightarrow> int64 (sm_strength_bits meta) \<Longrightarrow>
    CreateSecret P s meta val w = (r, w') \<Longrightarrow> race_step P s k (w, ts) (w', ts)"
| revoked: "sane w \<Longrightarrow> RevokeSecret P s scope name w = (r, w') \<Longrightarrow> race_step P s k (w, ts) (w', ts)"
| elsewhere: "w_db w' = (w_db w)\<lparr>db_audit := log\<rparr> \<Longrightarrow> race_step P s k (w, ts) (w', ts)"

definition race_ok :: "prims \<Rightarrow> keySet \<Rightarrow> race \<Rightarrow> bool" where
  "race_ok P k st \<longleftrightarrow> vault_inv P k (w_db (fst st)) \<and> (\<forall>t\<in>set (snd st). still_fits P k (w_db (fst st)) t)"

lemma race_ok_more:
  "race_ok P k (w, ts) \<Longrightarrow> vault_inv P k (w_db w') \<Longrightarrow> moves_on (w_db w) (w_db w') \<Longrightarrow> set us \<subseteq> set ts \<Longrightarrow> race_ok P k (w', us)"
  using moves_on_still_fits by (fastforce simp: race_ok_def)

lemma moves_on_same [simp]: "moves_on d d" "moves_on d (d\<lparr>db_audit := x\<rparr>)"
  by (rule moves_on_more, simp)+

lemma race_step_ok:
  assumes "prims_ok P" and "st_keys s = Some k" and "keys_ok k" and "race_step P s k st st'" and "race_ok P k st"
  shows "race_ok P k st'"
  using assms(4,5)
proof (induction rule: race_step.induct)
  case (rotating w profile strength scope name val ch w' ts)
  have "w_db w' = w_db w" by (rule keep_run [OF keeps_prepare(1) rotating(4)])
  moreover have "fits P k ch val (w_db w')"
    by (rule prepare_fits [OF _ _ rotating(2,3) _ rotating(4)]) (use rotating in \<open>auto simp: race_ok_def sane_def\<close>)
  ultimately show ?case using rotating(5) by (auto simp: race_ok_def)
next
  case (storing w a p w' ts)
  have "w_db w' = w_db w" by (rule keep_run [OF keeps_put_prepare storing(3)])
  moreover have "put_fits P k p (w_db w')"
    by (rule put_prepare_fits(1) [OF _ _ storing(2) _ storing(3)]) (use storing in \<open>auto simp: race_ok_def sane_def\<close>)
  ultimately show ?case using storing(4) by (auto simp: race_ok_def)
next
  case (committed w t r w' us vs)
  have inv: "vault_inv P k (w_db w)" "roomy (w_db w)" and fit: "still_fits P k (w_db w) t"
    using committed by (auto simp: race_ok_def sane_def)
  note serial = commit_serial [OF assms(1,3) inv(1) fit committed(2)]
  have "vault_inv P k (w_db w') \<and> moves_on (w_db w) (w_db w')"
    using serial inv commit_moves_on [OF assms(1,3) inv fit] committed(2) by (cases r) auto
  then show ?case by (intro race_ok_more [OF committed(3)]) auto
next
  case (created w meta val r w' ts)
  have inv: "vault_inv P k (w_db w)" using created by (simp add: race_ok_def)
  have "vault_inv P k (w_db w') \<and> moves_on (w_db w) (w_db w')"
  proof (cases r)
    case (Inl e)
    then show ?thesis using atomicD [OF atomic_CreateSecret] created(4) inv by fastforce
  next
    case (Inr m)
    then show ?thesis
      using CreateSecret_refine [OF assms(1-3) inv created(2,3)] create_moves_on [OF assms(2)] created by (auto simp: sane_def)
  qed
  then show ?case by (intro race_ok_more [OF created(5)]) auto
next
  case (revoked w scope name r w' ts)
  have inv: "vault_inv P k (w_db w)" using revoked by (simp add: race_ok_def)
  have "vault_inv P k (w_db w') \<and> moves_on (w_db w) (w_db w')"
  proof (cases r)
    case (Inl e)
    then show ?thesis using atomicD [OF atomic_RevokeSecret] revoked(2) inv by fastforce
  next
    case (Inr m)
    then show ?thesis
      using RevokeSecret_refine [OF assms(1-3) inv] revoke_moves_on [OF assms(2) inv] revoked by (auto simp: sane_def)
  qed
  then show ?case by (intro race_ok_more [OF revoked(3)]) auto
next
  case (elsewhere w' w log ts)
  then show ?case using race_ok_more [OF elsewhere(2), of w' ts] by (simp add: race_ok_def)
qed

lemma race_steps_ok:
  assumes "prims_ok P" and "st_keys s = Some k" and "keys_ok k" and "(race_step P s k)\<^sup>*\<^sup>* st st'" and "race_ok P k st"
  shows "race_ok P k st'"
  using assms(4,5) by (induction rule: rtranclp_induct) (auto intro: race_step_ok [OF assms(1-3)])

text \<open>
  C13: Requests that overlap behave as if each ran alone at its commit: whatever rotations and actions were prepared
  and committed in between, in any order and with whatever creations, revocations and failures, a commit
  that succeeds keeps the invariant of the vault and is a whole operation on what the vault holds then. A rotation
  takes the secret from the version it has at that moment to the next, with the new value, so that none is
  lost, and changes no other secret and no action; storing an action changes that action only. A commit that
  fails changes nothing.
\<close>

theorem overlapping_changes_serialise:
  assumes "prims_ok P" and "st_keys s = Some k" and "keys_ok k" and "vault_inv P k (w_db w0)"
    and "(race_step P s k)\<^sup>*\<^sup>* (w0, []) (w, ts)" and "t \<in> set ts" and "commit P k t w = (r, w')"
  shows "case r of
      Inl e \<Rightarrow> w_db w' = w_db w
    | Inr _ \<Rightarrow> vault_inv P k (w_db w')
        \<and> (case t of
             Rotation ch val \<Rightarrow> \<exists>m v. secret_at P k (w_db w) (secret_token P k (ch_meta ch)) = Some (m, v)
               \<and> sm_version (ch_meta ch) = sm_version m + 1
               \<and> secret_at P k (w_db w') = (secret_at P k (w_db w))(secret_token P k (ch_meta ch) \<mapsto> (ch_meta ch, Some val))
               \<and> action_at P k (w_db w') = action_at P k (w_db w)
           | Storing p \<Rightarrow> secret_at P k (w_db w') = secret_at P k (w_db w)
               \<and> action_at P k (w_db w') = (action_at P k (w_db w))(action_token P k (pu_action p) \<mapsto> pu_action p))"
proof -
  have "race_ok P k (w0, [])" using assms(4) by (simp add: race_ok_def)
  from race_steps_ok [OF assms(1-3,5) this] have "vault_inv P k (w_db w)" "still_fits P k (w_db w) t"
    using assms(6) by (auto simp: race_ok_def)
  then show ?thesis by (rule commit_serial [OF assms(1,3) _ _ assms(7)])
qed

text \<open>What the map holds under a name is a row of this name.\<close>

lemma secret_at_found:
  assumes "secret_at P k d tok = Some (m, v)"
  obtains r where "found P k d tok r m"
  using assms by (auto simp: secret_at_def secret_rows_def found_def split: list.splits sum.splits dest!: filter_head)

lemma secret_at_token:
  assumes "vault_inv P k d" and "secret_at P k d tok = Some (m, v)"
  shows "secret_token P k m = tok"
  using secret_at_found [OF assms(2)] found_at(2) [OF assms(1)] by metis

theorem overlapping_changes_serialise_witness:
  "\<exists>w0 w ts ch w' m. (race_step demo_prims demo_store demo_keys)\<^sup>*\<^sup>* (w0, []) (w, ts) \<and> Rotation ch [3] \<in> set ts
    \<and> commit demo_prims demo_keys (Rotation ch [3]) w = (Inr (), w')
    \<and> secret_at demo_prims demo_keys (w_db w) (secret_token demo_prims demo_keys (ch_meta ch)) = Some (m, Some [1, 2])
    \<and> secret_at demo_prims demo_keys (w_db w') (secret_token demo_prims demo_keys (ch_meta ch)) = Some (ch_meta ch, Some [3])"
proof -
  obtain m w where w: "secret_at demo_prims demo_keys (w_db w) (scope_token demo_prims demo_keys demo_scope ''db'') = Some (m, Some [1, 2])"
    "vault_inv demo_prims demo_keys (w_db w)" "roomy (w_db w)" "can_audit w 64 1"
    "\<forall>n. valid_time (w_clock w n)" "drawn w 0 \<notin> vr_id ` set (db_versions (w_db w))"
    by (rule demo_stored)
  have i: "int64 261" by (simp add: int64_def)
  obtain m' w' where run: "RotateSecret demo_prims demo_store demo_scope ''db'' ''alnum'' 261 [3] w = (Inr m', w')"
    by (rule live_rotate [OF demo_prims_ok demo_keys_of demo_keys_ok w(2,3,1,4,5,6) demo_names(4) i])
  obtain ch u where prep: "rotate_prepare demo_prims demo_keys demo_scope ''db'' ''alnum'' 261 [3] w = (Inr ch, u)"
    and com: "rotate_commit demo_prims demo_keys ch u = (Inr m', w')"
    using run by (auto simp: RotateSecret_def copyKeys_def demo_keys_of bnd_Inr lift_Inr)
  have "race_step demo_prims demo_store demo_keys (w, []) (u, [Rotation ch [3]])"
    by (rule race_step.rotating [OF _ demo_names(4) i prep]) (simp add: sane_def w(3,5))
  then have path: "(race_step demo_prims demo_store demo_keys)\<^sup>*\<^sup>* (w, []) (u, [Rotation ch [3]])" by simp
  have d: "w_db u = w_db w" by (rule keep_run [OF keeps_prepare(1) prep])
  have m': "m' = ch_meta ch" using com by (rule rotate_commit_Inr)
  have mem: "Rotation ch [3] \<in> set [Rotation ch [3]]" by simp
  have com': "commit demo_prims demo_keys (Rotation ch [3]) u = (Inr (), w')" using com by (simp add: bnd_def ret_def)
  have "secret_token demo_prims demo_keys (ch_meta ch) = scope_token demo_prims demo_keys demo_scope ''db''"
    using RotateSecret_refine [OF demo_prims_ok demo_keys_of demo_keys_ok w(2,3) demo_names(4) i _ run] w(1,2,5) secret_at_token
    unfolding m' [symmetric] by (fastforce simp: rotated_def secret_token_def)
  then have before: "secret_at demo_prims demo_keys (w_db u) (secret_token demo_prims demo_keys (ch_meta ch)) = Some (m, Some [1, 2])"
    by (simp add: d w(1))
  have after: "secret_at demo_prims demo_keys (w_db w') (secret_token demo_prims demo_keys (ch_meta ch)) = Some (ch_meta ch, Some [3])"
    using overlapping_changes_serialise [OF demo_prims_ok demo_keys_of demo_keys_ok w(2) path mem com'] by auto
  show ?thesis by (intro exI conjI) (rule path, rule mem, rule com', rule before, rule after)
qed

subsection \<open>A revocation that comes late\<close>

lemma rotate_commit_number:
  assumes "rotate_commit P keys ch w = (Inr y, w')" and "x \<in> set (db_versions (w_db w))"
  shows "vr_secret x \<noteq> sm_id (ch_meta ch) \<or> vr_number x \<noteq> sm_version (ch_meta ch)"
proof -
  let ?m = "ch_meta ch" and ?at = "stamp (sm_updated_at (ch_meta ch))"
  let ?ver = "version_row (ch_version_id ch) (sm_id ?m) (sm_version ?m) ''pending'' (ch_sealed_value ch) ?at None"
  from assms(1) [unfolded rotate_commit_def Let_def] obtain u v where u: "w_db u = w_db w"
    and body: "bnd (exec (insert_version ?ver)) (\<lambda>_.
       bnd (exec (update_retire ''retired'' ?at (sm_id ?m))) (\<lambda>_.
       bnd (exec (update_activate ?at (ch_version_id ch))) (\<lambda>_.
       bnd (exec (update_object (\<lambda>r. ob_id r = sm_id ?m \<and> ob_revision r = ch_revision ch)
         (fst (ch_sealed_meta ch)) (snd (ch_sealed_meta ch)) (inc64 (ch_revision ch)) ?at)) (\<lambda>count.
       if count \<noteq> 1 then fail (Errorf ''secret changed concurrently'')
       else bnd (appendAudit P (ks_audit keys) (secret_event ''secret.rotate'' (sm_id ?m))) (\<lambda>_.
       ret ?m))))) u = (Inr y, v)"
    by (rule transaction_db) blast
  then obtain x1 u1 where "exec (insert_version ?ver) u = (Inr x1, u1)" by (auto simp only: bnd_Inr)
  from exec_db [OF this, unfolded u insert_version_Inr] assms(2) show ?thesis
    by (auto simp: version_clash_def version_row_def)
qed

lemma history_last:
  assumes "history_ok m (history d i)"
  shows "\<exists>v\<in>set (db_versions d). vr_secret v = i \<and> vr_number v = sm_version m"
proof -
  let ?h = "history d i"
  have h: "?h \<noteq> []" "map vr_number ?h = map (\<lambda>n. int n + 1) [0..<length ?h]" "sm_version m = int (length ?h)"
    using assms by (simp_all add: history_ok_def)
  then have "sm_version m = last (map (\<lambda>n. int n + 1) [0..<length ?h])" by (cases "length ?h") simp_all
  also have "\<dots> = vr_number (last ?h)" using h(1) by (simp add: h(2) [symmetric] last_map)
  finally have "vr_number (last ?h) = sm_version m" by simp
  moreover have "last ?h \<in> set ?h" using h(1) by simp
  ultimately show ?thesis by (intro bexI [of _ "last ?h"]) (simp_all add: history_def)
qed

text \<open>
  What a late commit of a revocation leaves under the name, when the secret has changed since: the metadata
  that it prepared.
\<close>

lemma late_revocation_reads:
  assumes "prims_ok P" and "keys_ok k" and "vault_inv P k d" and "found P k d tok r m'" and "sm_id (ch_meta ch) = sm_id m'"
    and "secret_ok (ch_meta ch)"
    and "sealed P (ks_metadata k) (case marshal_secret (ch_meta ch) of Inr b \<Rightarrow> b | Inl _ \<Rightarrow> [])
           (objectAAD ''secret'' (sm_id m') (inc64 (ch_revision ch))) (ch_sealed_meta ch)"
    and "db_objects d' = db_objects (db_revoke ch d)" and "found P k d' tok r' n"
  shows "n = ch_meta ch"
proof -
  let ?f = "\<lambda>x :: ObjectRow. x\<lparr>ob_nonce := fst (ch_sealed_meta ch), ob_ciphertext := snd (ch_sealed_meta ch),
    ob_revision := inc64 (ch_revision ch), ob_updated_at := stamp (sm_updated_at (ch_meta ch))\<rparr>"
  have r: "r \<in> set (db_objects d)" "ob_type r = ''secret''" "ob_lookup r = tok" using assms(4) by (simp_all add: found_def)
  have i: "ob_id r = sm_id m'" using found_at(4) [OF assms(3,4)] by simp
  have "set (db_objects d') = (\<lambda>x. if ob_id x = sm_id m' then ?f x else x) ` set (db_objects d)"
    by (simp add: assms(5,8) db_revoke_def Let_def db_update_def set_update_where)
  then obtain y where y: "y \<in> set (db_objects d)" "r' = (if ob_id y = sm_id m' then ?f y else y)"
    using assms(9) by (auto simp: found_def)
  have "ob_type y = ''secret''" "ob_lookup y = tok" using assms(9) y(2) by (auto simp: found_def split: if_splits)
  then have "y \<in> set (secret_rows d tok)" using y(1) by (simp add: secret_rows_def)
  moreover have "secret_rows d tok = [r]" using secret_rows_unique [of d r] assms(3) r by (simp add: vault_inv_def)
  ultimately have r': "r' = ?f r" using y(2) i by simp
  obtain js where "marshal_secret (ch_meta ch) = Inr js" "unmarshal_secret js = Inr (ch_meta ch)"
    using marshal_ok(1) unmarshal_marshal_secret assms(6) by metis
  then have "read_secret P k r' = Inr (ch_meta ch)"
    using sealed_open [OF assms(1) _ assms(7)] assms(2) i r' by (simp add: read_secret_def keys_ok_def)
  then show ?thesis using assms(9) by (simp add: found_def)
qed

text \<open>The row of a version stays when a revocation marks it.\<close>

lemma revoke_keeps_number:
  assumes "v \<in> set (db_versions d)"
  shows "\<exists>x\<in>set (db_versions (db_revoke ch d)). vr_secret x = vr_secret v \<and> vr_number x = vr_number v"
proof -
  have "set (db_versions (db_revoke ch d)) = (\<lambda>x. if vr_secret x = sm_id (ch_meta ch) \<and> vr_state x = ''active''
      then x\<lparr>vr_state := ''revoked'', vr_retired_at := Some (stamp (sm_updated_at (ch_meta ch)))\<rparr> else x) ` set (db_versions d)"
    by (simp add: db_revoke_def Let_def db_retire_def set_update_where)
  then show ?thesis by (simp only: bex_simps) (rule bexI [OF _ assms], simp)
qed

text \<open>
  C37: A revocation that was prepared before a rotation and commits after it is answered as a success and locks
  the secret out: it writes back the older version number, so that every later rotation tries to insert a
  version that exists already and fails.
\<close>

theorem stale_revocation_wedges:
  assumes "prims_ok P" and "st_keys s = Some k" and "keys_ok k" and "vault_inv P k (w_db w)" and "roomy (w_db w)"
    and "valid_time (w_clock w (w_ticks w))" and "revoke_prepare P k scope name w = (Inr ch, w1)"
    and "w_db w2 = w_db w" and "valid_time (w_clock w2 (w_ticks w2))" and "valid_utf8 profile" and "int64 strength"
    and "RotateSecret P s scope name profile strength val w2 = (Inr m', w3)"
    and "w_db w4 = w_db w3" and "revoke_commit P k ch w4 = (Inr m, w5)" and "w_db w6 = w_db w5"
  shows "sm_version m' = sm_version m + 1 \<and> (\<exists>err. fst (RotateSecret P s scope name profile' strength' val' w6) = Inl err)"
proof -
  let ?tok = "scope_token P k scope name" and ?d = "w_db w" and ?d3 = "w_db w3"
  obtain r m0 where r: "found P k ?d ?tok r m0" "ch_meta ch = revoked m0 (w_clock w (w_ticks w))" "ch_revision ch = ob_revision r"
    "sealed P (ks_metadata k) (case marshal_secret (ch_meta ch) of Inr b \<Rightarrow> b | Inl _ \<Rightarrow> [])
       (objectAAD ''secret'' (sm_id m0) (inc64 (ob_revision r))) (ch_sealed_meta ch)"
    by (rule revoke_prepare_Inr [OF assms(7)])
  note f = found_at [OF assms(4) r(1)]
  have rot: "m' = rotated m0 profile strength (w_clock w2 (w_ticks w2))" "sm_version m' = sm_version m0 + 1" "vault_inv P k ?d3"
    "secret_at P k ?d3 ?tok = Some (m', Some val)"
    using RotateSecret_refine [OF assms(1-3) _ _ assms(10,11,9,12)] assms(4,5) f(1) unfolding assms(8) by auto
  obtain row where c: "m = ch_meta ch" "w_db w5 = (db_revoke ch ?d3)\<lparr>db_audit := row\<rparr>"
    using assms(14) unfolding assms(13) [symmetric] by (rule revoke_commit_Inr) blast
  have ids: "sm_id m' = sm_id m0" "sm_id (ch_meta ch) = sm_id m'" "sm_version (ch_meta ch) = sm_version m0"
    by (simp_all add: rot(1) r(2) rotated_def revoked_def)
  have ok: "secret_ok (ch_meta ch)" using f(3) assms(6)
    by (simp add: r(2) secret_ok_def revoked_def) (simp add: ascii_valid_utf8 ascii_def)
  obtain r3 where r3: "found P k ?d3 ?tok r3 m'" by (rule secret_at_found [OF rot(4)])
  have "secret_row_ok P k (history ?d3 (ob_id r3)) r3 m'"
    using r3 by (intro secret_row_inv [OF rot(3)]) (simp_all add: found_def)
  then obtain v where v: "v \<in> set (db_versions ?d3)" "vr_secret v = sm_id m'" "vr_number v = sm_version m'"
    using history_last found_at(4) [OF rot(3) r3] by (force simp: secret_row_ok_def)
  have "False" if run: "RotateSecret P s scope name profile' strength' val' w6 = (Inr m6, w7)" for m6 w7
  proof -
    obtain ch6 u where prep: "rotate_prepare P k scope name profile' strength' val' w6 = (Inr ch6, u)"
      and com: "rotate_commit P k ch6 u = (Inr m6, w7)"
      using run by (auto simp: RotateSecret_def copyKeys_def assms(2) bnd_Inr lift_Inr)
    obtain r6 n6 where r6: "found P k (w_db w6) ?tok r6 n6"
      "ch_meta ch6 = rotated n6 profile' strength' (w_clock w6 (w_ticks w6))" "w_db u = w_db w6"
      by (rule rotate_prepare_Inr [OF prep])
    have "n6 = ch_meta ch"
      by (rule late_revocation_reads [OF assms(1,3) rot(3) r3 ids(2) ok _ _ r6(1)])
        (use r(3,4) ids in \<open>simp_all add: assms(15) c(2)\<close>)
    moreover have "inc64 (sm_version m0) = sm_version m0 + 1" by (rule inc64_version [OF assms(4,5) r(1)])
    ultimately have "sm_id (ch_meta ch6) = sm_id m'" "sm_version (ch_meta ch6) = sm_version m'"
      using ids rot(2) by (simp_all add: r6(2) rotated_def)
    then show False
      using rotate_commit_number [OF com] revoke_keeps_number [OF v(1), of ch] v(2,3) by (fastforce simp: r6(3) assms(15) c(2))
  qed
  then have "\<exists>err. fst (RotateSecret P s scope name profile' strength' val' w6) = Inl err"
    by (cases "RotateSecret P s scope name profile' strength' val' w6"; cases "fst (RotateSecret P s scope name profile' strength' val' w6)") auto
  then show ?thesis using rot(2) ids(3) c(1) by simp
qed

theorem stale_revocation_wedges_witness:
  "\<exists>w ch w1 m' w3 w4 m w5. revoke_prepare demo_prims demo_keys demo_scope ''db'' w = (Inr ch, w1)
    \<and> RotateSecret demo_prims demo_store demo_scope ''db'' ''alnum'' 261 [3] w = (Inr m', w3)
    \<and> w_db w4 = w_db w3 \<and> revoke_commit demo_prims demo_keys ch w4 = (Inr m, w5)
    \<and> (\<exists>err. fst (RotateSecret demo_prims demo_store demo_scope ''db'' ''alnum'' 261 [4] w5) = Inl err)"
proof -
  obtain m0 w where w: "secret_at demo_prims demo_keys (w_db w) (scope_token demo_prims demo_keys demo_scope ''db'') = Some (m0, Some [1, 2])"
    "vault_inv demo_prims demo_keys (w_db w)" "roomy (w_db w)" "can_audit w 64 1" "can_audit w 24 1"
    "\<forall>n. valid_time (w_clock w n)" "drawn w 0 \<notin> vr_id ` set (db_versions (w_db w))" "w_faults w = []"
    "drawn w 0 \<notin> ob_id ` set (db_objects (w_db w))" "120 \<le> length (w_tape w)"
    "drawn w 104 \<notin> ar_id ` set (db_audit (w_db w)) \<union> {drawn w 64}"
    by (rule demo_stored)
  have i: "int64 261" by (simp add: int64_def)
  have t: "valid_time (w_clock w n)" for n using w(6) by simp
  obtain ch w1 where prep: "revoke_prepare demo_prims demo_keys demo_scope ''db'' w = (Inr ch, w1)"
    using RevokeSecret_succeeds [OF demo_prims_ok demo_keys_of demo_keys_ok w(2,1,5)]
    by (auto simp: RevokeSecret_def copyKeys_def demo_keys_of bnd_Inr lift_Inr)
  obtain m' w3 where run: "RotateSecret demo_prims demo_store demo_scope ''db'' ''alnum'' 261 [3] w = (Inr m', w3)"
    "grown w w3 64 2 [] [drawn w 0]" "vault_inv demo_prims demo_keys (w_db w3)"
    by (rule live_rotate [OF demo_prims_ok demo_keys_of demo_keys_ok w(2,3,1,4,6,7) demo_names(4) i])
  have "can_audit w3 24 1"
    using w(6,10,11) grown_ids [OF run(2)] grown_drawn [OF run(2)] run(2) by (auto simp: can_audit_def grown_def year_ok)
  note com = revoke_commit_run [OF run(3) this, of ch]
  note lost = stale_revocation_wedges [OF demo_prims_ok demo_keys_of demo_keys_ok w(2,3) t prep refl t demo_names(4) i run(1)
      at_offset_simps(5) com refl, THEN conjunct2]
  show ?thesis
    by (intro exI [where x = w] exI [where x = ch] exI [where x = w1] exI [where x = m'] exI [where x = w3]
        exI [where x = "at_offset w3 24 1 (w_db w3)"] exI [where x = "ch_meta ch"]
        exI [where x = "logged demo_prims demo_keys ''secret.revoke'' (sm_id (ch_meta ch)) (at_offset w3 24 1 (db_revoke ch (w_db w3)))"]
        conjI prep run(1) at_offset_simps(5) com lost)
qed

end
