(* ===== verification/BrokerSpec.thy ===== *)
theory BrokerSpec
  imports BrokerProps VaultRace JsonReader
begin

section \<open>What requests do to the vault\<close>

text \<open>
  The broker as its specification: a request leaves the abstract vault as it is or makes the one change that
  its operation is for. The judgement \<open>leads P m Q B\<close> follows an operation through its calls: from a world in
  \<open>P\<close> it ends in a result and world in \<open>Q\<close> or in an error and a world in \<open>B\<close>.
\<close>

subsection \<open>Changes of the database\<close>

text \<open>The part of the database that no request writes: the schema, the metadata of the vault and the wrapped key.\<close>

definition frame_of :: "database \<Rightarrow> string list \<times> (string \<times> string) list \<times> WrapperRow list" where
  "frame_of d = (db_tables d, db_metadata d, db_wrappers d)"

lemma frame_changes [simp]:
  "frame_of (d\<lparr>db_audit := x\<rparr>) = frame_of d" "frame_of (db_rotate ch d) = frame_of d" "frame_of (db_revoke ch d) = frame_of d"
  "frame_of (db_put p d) = frame_of d" "frame_of (db_version v d) = frame_of d" "frame_of (db_insert r d) = frame_of d"
  by (simp_all add: frame_of_def db_rotate_def db_revoke_def db_put_def db_version_def db_insert_def db_update_def
      db_activate_def db_retire_def Let_def)

text \<open>No request adds more than one version and one revision.\<close>

definition grows :: "database \<Rightarrow> database \<Rightarrow> bool" where
  "grows d d' \<longleftrightarrow> length (db_versions d') \<le> Suc (length (db_versions d))
     \<and> (\<forall>x\<in>set (db_objects d'). ob_revision x \<le> 1 \<or> (\<exists>r\<in>set (db_objects d). ob_revision x \<le> ob_revision r + 1))"

lemma growsI:
  assumes "length (db_versions d') \<le> Suc (length (db_versions d))"
    and "\<And>x. x \<in> set (db_objects d') \<Longrightarrow> x \<in> set (db_objects d) \<or> ob_revision x \<le> 1
      \<or> (\<exists>r\<in>set (db_objects d). ob_revision x \<le> ob_revision r + 1)"
  shows "grows d d'"
  unfolding grows_def
proof (intro conjI ballI)
  fix x assume "x \<in> set (db_objects d')"
  from assms(2) [OF this] show "ob_revision x \<le> 1 \<or> (\<exists>r\<in>set (db_objects d). ob_revision x \<le> ob_revision r + 1)"
    by (auto intro: bexI [of _ x])
qed (rule assms(1))

lemma grows_same [simp]: "grows d d" "grows d (d'\<lparr>db_audit := x\<rparr>) = grows d d'"
  by (rule growsI) (simp_all add: grows_def)

lemma grows_update:
  assumes "r \<in> set (db_objects d)" and "db_objects d' = db_objects d" and "length (db_versions d') \<le> Suc (length (db_versions d))"
  shows "grows d (db_update Q sl (inc64 (ob_revision r)) tm d')"
  using assms inc64_le [of "ob_revision r"] by (intro growsI) (auto simp: db_update_def set_update_where)

text \<open>A change of the row of a secret is none of the actions.\<close>

lemma change_secret_actions:
  assumes "vault_inv P k d" and "found P k d tok r m" and "db_objects d' = update_where Q f (db_objects d)" and "same_keys f"
    and "\<And>x. Q x \<Longrightarrow> ob_id x = sm_id m"
  shows "action_at P k d' = action_at P k d"
proof -
  have r: "r \<in> set (db_objects d)" "ob_type r = ''secret''" using assms(2) by (simp_all add: found_def)
  have "x = r" if "x \<in> set (db_objects d)" "Q x" for x
    by (rule row_determined [OF assms(1) that(1) r(1)]) (simp add: assms(5) [OF that(2)] found_at(4) [OF assms(1,2)])
  then have "action_rows d' tok = action_rows d tok" for tok
    unfolding action_rows_def assms(3) by (intro filter_update_other) (use assms(4) r(2) in \<open>auto simp: same_keys_def\<close>)
  then show ?thesis by (intro ext) (simp add: action_at_def)
qed

lemma locked_result:
  assumes "st_keys s = None"
  shows "fst (CreateSecret P s meta val w) = Inl ErrLocked" "fst (RotateSecret P s scope name profile strength val w) = Inl ErrLocked"
    "fst (RevokeSecret P s scope name w) = Inl ErrLocked" "fst (PutAction P s a w) = Inl ErrLocked"
    "fst (RecordAudit P s event w) = Inl ErrLocked"
  using assms by (simp_all add: CreateSecret_def RotateSecret_def RevokeSecret_def PutAction_def RecordAudit_def copyKeys_def bnd_def lift_def)

lemma create_frame:
  assumes "st_keys s = Some k" and "CreateSecret P s meta val w = (Inr m, w')"
  shows "frame_of (w_db w') = frame_of (w_db w) \<and> grows (w_db w) (w_db w')"
proof -
  obtain i js sm vid sv u where c: "create_commit P k m (secret_token P k m) sm vid sv u = (Inr m, w')" "w_db u = w_db w"
    by (rule CreateSecret_Inr [OF assms])
  show ?thesis using c(1) unfolding c(2) [symmetric] by (rule create_commit_Inr) (auto simp: object_row_def intro!: growsI)
qed

lemma rotate_frame:
  assumes "st_keys s = Some k" and "vault_inv P k (w_db w)" and "RotateSecret P s scope name profile strength val w = (Inr m, w')"
  shows "frame_of (w_db w') = frame_of (w_db w) \<and> action_at P k (w_db w') = action_at P k (w_db w)
    \<and> grows (w_db w) (w_db w')"
proof -
  obtain ch u where prep: "rotate_prepare P k scope name profile strength val w = (Inr ch, u)" and com: "rotate_commit P k ch u = (Inr m, w')"
    using assms(3) by (auto simp: RotateSecret_def copyKeys_def assms(1) bnd_Inr lift_Inr)
  obtain r m0 where r: "found P k (w_db w) (scope_token P k scope name) r m0"
    "ch_meta ch = rotated m0 profile strength (w_clock w (w_ticks w))" "ch_revision ch = ob_revision r" "w_db u = w_db w"
    by (rule rotate_prepare_Inr [OF prep])
  obtain row where c: "w_db w' = (db_rotate ch (w_db w))\<lparr>db_audit := row\<rparr>"
    using com unfolding r(4) [symmetric] by (rule rotate_commit_Inr) blast
  have "action_at P k (db_rotate ch (w_db w)) = action_at P k (w_db w)"
    by (rule change_secret_actions [OF assms(2) r(1),
          where Q = "\<lambda>x. ob_id x = sm_id (ch_meta ch) \<and> ob_revision x = ch_revision ch"])
      (auto simp: db_rotate_def Let_def db_update_def same_keys_def r(2) rotated_def)
  moreover have "grows (w_db w) (db_rotate ch (w_db w))"
    using r(1) unfolding db_rotate_def Let_def r(3) by (intro grows_update) (auto simp: found_def db_retire_def db_activate_def)
  ultimately show ?thesis by (simp add: c)
qed

lemma revoke_frame:
  assumes "st_keys s = Some k" and "vault_inv P k (w_db w)" and "RevokeSecret P s scope name w = (Inr m, w')"
  shows "frame_of (w_db w') = frame_of (w_db w) \<and> action_at P k (w_db w') = action_at P k (w_db w)
    \<and> grows (w_db w) (w_db w')"
proof -
  obtain ch u where prep: "revoke_prepare P k scope name w = (Inr ch, u)" and com: "revoke_commit P k ch u = (Inr m, w')"
    using assms(3) by (auto simp: RevokeSecret_def copyKeys_def assms(1) bnd_Inr lift_Inr)
  obtain r m0 where r: "found P k (w_db w) (scope_token P k scope name) r m0"
    "ch_meta ch = revoked m0 (w_clock w (w_ticks w))" "ch_revision ch = ob_revision r" "w_db u = w_db w"
    by (rule revoke_prepare_Inr [OF prep])
  obtain row where c: "w_db w' = (db_revoke ch (w_db w))\<lparr>db_audit := row\<rparr>"
    using com unfolding r(4) [symmetric] by (rule revoke_commit_Inr) blast
  have "action_at P k (db_revoke ch (w_db w)) = action_at P k (w_db w)"
    by (rule change_secret_actions [OF assms(2) r(1), where Q = "\<lambda>x. ob_id x = sm_id (ch_meta ch)"])
      (auto simp: db_revoke_def Let_def db_update_def same_keys_def r(2) revoked_def)
  moreover have "grows (w_db w) (db_revoke ch (w_db w))"
    using r(1) unfolding db_revoke_def Let_def r(3) by (intro grows_update) (auto simp: found_def db_retire_def db_activate_def)
  ultimately show ?thesis by (simp add: c)
qed

lemma put_frame:
  assumes "st_keys s = Some k" and "vault_inv P k (w_db w)" and "PutAction P s a w = (Inr a', w')"
  shows "frame_of (w_db w') = frame_of (w_db w) \<and> grows (w_db w) (w_db w')"
proof -
  obtain p u where prep: "put_prepare P k a w = (Inr p, u)" and com: "put_commit P k p u = (Inr a', w')"
    using assms(3) by (auto simp: PutAction_def copyKeys_def assms(1) bnd_Inr lift_Inr)
  have d: "w_db u = w_db w" by (rule keepsD [OF keeps_put_prepare prep])
  obtain row where c: "w_db w' = (db_put p (w_db w))\<lparr>db_audit := row\<rparr>"
    using com unfolding d [symmetric] by (rule put_commit_Inr) blast
  have "grows (w_db w) (db_put p (w_db w))"
  proof (cases "pu_revision p = 0")
    case True
    then show ?thesis by (auto simp: db_put_def Let_def object_row_def intro!: growsI)
  next
    case False
    then obtain r where r: "r \<in> set (db_objects (w_db w))" "pu_revision p = ob_revision r"
      using put_prepare_Inr [OF prep assms(2)] by metis
    then have "db_put p (w_db w) = db_update (\<lambda>r. ob_id r = ac_id (pu_action p)) (pu_sealed p) (inc64 (ob_revision r))
        (stamp (ac_updated_at (pu_action p))) (w_db w)"
      using False by (simp add: db_put_def Let_def)
    then show ?thesis using grows_update [OF r(1)] by simp
  qed
  then show ?thesis by (simp add: c)
qed

lemma RecordAudit_audit: "\<exists>log. w_db (snd (RecordAudit P s event w)) = (w_db w)\<lparr>db_audit := log\<rparr>"
proof -
  obtain r w' where run: "RecordAudit P s event w = (r, w')" by (cases "RecordAudit P s event w")
  show ?thesis
  proof (cases r)
    case (Inl e)
    then have "w_db w' = w_db w" using atomicD [OF atomic_RecordAudit] run by fastforce
    then have "w_db w' = (w_db w)\<lparr>db_audit := db_audit (w_db w)\<rparr>" by simp
    then show ?thesis unfolding run snd_conv by blast
  next
    case (Inr u)
    then obtain keys :: keySet where tr: "transaction (appendAudit P (ks_audit keys) event) w = (Inr u, w')"
      using run by (auto simp: RecordAudit_def bnd_Inr lift_Inr)
    obtain x v where x: "w_db x = w_db w" "appendAudit P (ks_audit keys) event x = (Inr u, v)" "w_db w' = w_db v"
      using tr by (rule transaction_db) blast
    then show ?thesis using appendAudit_db [OF x(2)] run by auto
  qed
qed


subsection \<open>The specification\<close>

text \<open>
  The abstract vault is the map of secrets and the map of actions. A request changes at most one entry of one
  of them: which one, and how, is read off the request.
\<close>

type_synonym vault_maps = "(string \<Rightarrow> (SecretMetadata \<times> bytes option) option) \<times> (string \<Rightarrow> Action option)"

definition maps_of :: "prims \<Rightarrow> keySet \<Rightarrow> database \<Rightarrow> vault_maps" where
  "maps_of P k d = (secret_at P k d, action_at P k d)"

definition secret_payload :: "Request \<Rightarrow> SecretRequest \<Rightarrow> bool" where
  "secret_payload request p \<longleftrightarrow> unmarshal_raw secret_request_fields zero_SecretRequest (rq_payload request) = Inr p"

definition configure_payload :: "Request \<Rightarrow> Action \<Rightarrow> bool" where
  "configure_payload request a \<longleftrightarrow> (\<exists>p. unmarshal_raw configure_fields \<lparr>cq_action = zero_Action, cq_master_password = None\<rparr>
       (rq_payload request) = Inr p
     \<and> a = (if ac_output_policy (cq_action p) = [] then (cq_action p)\<lparr>ac_output_policy := ''metadata''\<rparr> else cq_action p))"

text \<open>A value that the generator makes for a profile.\<close>

definition generated :: "string \<Rightarrow> bytes \<Rightarrow> bool" where
  "generated name val \<longleftrightarrow> (\<exists>pr. Get name = Inr pr \<and> length val = pr_length pr \<and> set (string_of val) \<subseteq> set (pr_alphabet pr))"

inductive vault_step :: "prims \<Rightarrow> keySet \<Rightarrow> Request \<Rightarrow> vault_maps \<Rightarrow> vault_maps \<Rightarrow> bool" for P k request where
  unchanged: "vault_step P k request (S, A) (S, A)"
| created: "rq_operation request = ''secret.create'' \<Longrightarrow> secret_payload request p \<Longrightarrow> validateSecretRequest p = None \<Longrightarrow>
    tok = scope_token P k (sr_scope p) (sr_name p) \<Longrightarrow> S tok = None \<Longrightarrow> sm_name m = sr_name p \<Longrightarrow> sm_version m = 1 \<Longrightarrow>
    sm_state m = ''active'' \<Longrightarrow> generated (sr_profile p) val \<Longrightarrow> vault_step P k request (S, A) (S(tok \<mapsto> (m, Some val)), A)"
| rotated: "rq_operation request = ''secret.rotate'' \<Longrightarrow> secret_payload request p \<Longrightarrow> validateSecretRequest p = None \<Longrightarrow>
    tok = scope_token P k (sr_scope p) (sr_name p) \<Longrightarrow> S tok = Some (m0, old) \<Longrightarrow> sm_id m = sm_id m0 \<Longrightarrow> sm_name m = sm_name m0 \<Longrightarrow>
    sm_version m = sm_version m0 + 1 \<Longrightarrow> sm_state m = ''active'' \<Longrightarrow> generated (sr_profile p) val \<Longrightarrow>
    vault_step P k request (S, A) (S(tok \<mapsto> (m, Some val)), A)"
| revoked: "rq_operation request = ''secret.revoke'' \<Longrightarrow> secret_payload request p \<Longrightarrow>
    tok = scope_token P k (sr_scope p) (sr_name p) \<Longrightarrow> S tok = Some (m, old) \<Longrightarrow>
    vault_step P k request (S, A) (S(tok \<mapsto> (m\<lparr>sm_state := ''revoked'', sm_updated_at := now\<rparr>, None)), A)"
| configured: "rq_operation request = ''action.configure'' \<Longrightarrow> configure_payload request a \<Longrightarrow> validateAction a = None \<Longrightarrow>
    tok = action_token P k a \<Longrightarrow> vault_step P k request (S, A) (S, A(tok \<mapsto> stored_action a i since now))"

inductive_cases vault_step_cases: "vault_step P k request (S, A) (S', A')"

subsection \<open>The broker's side\<close>

text \<open>
  The password opens the wrapped key; no other data key comes out of it, whatever the password, as the
  authentication of the cipher promises.
\<close>

definition unwraps :: "prims \<Rightarrow> WrapperRow \<Rightarrow> string \<Rightarrow> bytes \<Rightarrow> bytes \<Rightarrow> bool" where
  "unwraps P wr vid password dek \<longleftrightarrow> (\<exists>params kek wk. unmarshal_KDFParams (kw_params wr) = Inr params
     \<and> DeriveKEK P password (kw_salt wr) params = Inr kek \<and> ExpandKey P kek ''password-wrapper'' = Inr wk
     \<and> Open P wk (kw_nonce wr) (kw_ciphertext wr) (wrapperAAD vid) = Inr dek)"

definition only_key :: "prims \<Rightarrow> keySet \<Rightarrow> string \<Rightarrow> database \<Rightarrow> bool" where
  "only_key P k vid d \<longleftrightarrow> (\<forall>wr password dek. select_wrapper d = Inr wr \<longrightarrow> unwraps P wr vid password dek \<longrightarrow> expand_keys P dek = Inr k)"

definition vault_of :: "prims \<Rightarrow> keySet \<Rightarrow> string \<Rightarrow> database \<Rightarrow> bool" where
  "vault_of P k vid d \<longleftrightarrow> vault_inv P k d \<and> select_metadata ''schema_version'' d = Inr schemaVersion
     \<and> select_metadata ''vault_id'' d = Inr vid \<and> only_key P k vid d"

text \<open>The file holds the vault, and a store that the broker has opened is of this vault, locked or with its keys.\<close>

definition store_of :: "keySet \<Rightarrow> string \<Rightarrow> Store \<Rightarrow> bool" where
  "store_of k vid s \<longleftrightarrow> st_vaultID s = vid \<and> (st_keys s = None \<or> st_keys s = Some k)"

definition sound :: "prims \<Rightarrow> keySet \<Rightarrow> string \<Rightarrow> bstate \<Rightarrow> bool" where
  "sound P k vid b \<longleftrightarrow> (\<exists>d. bs_disk b = Some d \<and> vault_of P k vid d)
     \<and> (\<forall>s. br_store (bs_broker b) = Some s \<longrightarrow> store_of k vid s)"

text \<open>Before a request: the clock is a clock, and the counters of the vault have room.\<close>

definition ready :: "prims \<Rightarrow> keySet \<Rightarrow> string \<Rightarrow> database \<Rightarrow> bstate world \<Rightarrow> bool" where
  "ready P k vid d w \<longleftrightarrow> sound P k vid (w_db w) \<and> bs_disk (w_db w) = Some d \<and> roomy d \<and> (\<forall>n. valid_time (w_clock w n))"

text \<open>After it, or any part of it.\<close>

definition stepped :: "prims \<Rightarrow> keySet \<Rightarrow> string \<Rightarrow> Request \<Rightarrow> database \<Rightarrow> bstate world \<Rightarrow> bool" where
  "stepped P k vid request d w \<longleftrightarrow> sound P k vid (w_db w)
     \<and> (\<exists>d'. bs_disk (w_db w) = Some d' \<and> vault_step P k request (maps_of P k d) (maps_of P k d') \<and> grows d d')"

text \<open>Of an operation that writes: it has failed and the file is as it was, or it answers with what it has put into the vault.\<close>

definition told :: "prims \<Rightarrow> keySet \<Rightarrow> database \<Rightarrow> jv \<Rightarrow> database \<Rightarrow> bool" where
  "told P k d j d' \<longleftrightarrow>
     (\<exists>tok m v. maps_of P k d' = ((secret_at P k d)(tok \<mapsto> (m, v)), action_at P k d) \<and> j = secret_json m)
   \<or> (\<exists>tok a. maps_of P k d' = (secret_at P k d, (action_at P k d)(tok \<mapsto> a)) \<and> j = action_json a)"

definition still :: "prims \<Rightarrow> keySet \<Rightarrow> string \<Rightarrow> Request \<Rightarrow> database \<Rightarrow> bstate world \<Rightarrow> bool" where
  "still P k vid request d w \<longleftrightarrow> stepped P k vid request d w \<and> bs_disk (w_db w) = Some d"

definition finished :: "prims \<Rightarrow> keySet \<Rightarrow> string \<Rightarrow> Request \<Rightarrow> database \<Rightarrow> jv \<Rightarrow> bstate world \<Rightarrow> bool" where
  "finished P k vid request d j w \<longleftrightarrow> stepped P k vid request d w \<and> (\<exists>d'. bs_disk (w_db w) = Some d' \<and> told P k d j d')"

lemma ready_stepped: "ready P k vid d w \<Longrightarrow> stepped P k vid request d w"
  by (auto simp: ready_def stepped_def maps_of_def intro: vault_step.unchanged)

lemma ready_still: "ready P k vid d w \<Longrightarrow> still P k vid request d w"
  by (simp add: still_def ready_stepped) (simp add: ready_def)

lemma vault_of_frame: "vault_of P k vid d \<Longrightarrow> frame_of d' = frame_of d \<Longrightarrow> vault_inv P k d' \<Longrightarrow> vault_of P k vid d'"
  by (simp add: vault_of_def only_key_def frame_of_def select_metadata_def select_wrapper_def on_table_def)

lemma unwrapDEK_unwraps:
  assumes "unwrapDEK P s password w = (Inr dek, w')"
  shows "\<exists>wr. select_wrapper (w_db w) = Inr wr \<and> unwraps P wr (st_vaultID s) password dek"
  using assms by (auto simp: unwrapDEK_def bnd_Inr wrap_error_Inr lift_Inr query_Inr on_error_Inr fail_Inr unwraps_def)

lemma Unlock_store:
  assumes "Unlock P s password w = (Inr s', w')" and "store_of k vid s" and "only_key P k vid (w_db w)"
  shows "store_of k vid s'"
proof (cases "st_keys s = None")
  case True
  then obtain dek v where u: "unwrapDEK P s password w = (Inr dek, v)" "installKeysLocked P dek s = Inr s'"
    using assms(1) by (auto simp: Unlock_def bnd_Inr lift_Inr)
  obtain wr where "select_wrapper (w_db w) = Inr wr" "unwraps P wr vid password dek"
    using unwrapDEK_unwraps [OF u(1)] assms(2) by (auto simp: store_of_def)
  then have "expand_keys P dek = Inr k" using assms(3) by (simp add: only_key_def)
  then show ?thesis using u(2) assms(2) by (auto simp: installKeysLocked_def and_then_Inr store_of_def)
qed (use assms in \<open>simp add: Unlock_def ret_def\<close>)

subsection \<open>The clock\<close>

text \<open>No operation changes what the clock will say; only those that run before a write matter here.\<close>

definition timely :: "('db, 'a) eff \<Rightarrow> bool" where
  "timely m \<longleftrightarrow> (\<forall>w. w_clock (snd (m w)) = w_clock w)"

named_theorems timely_intros \<open>rules for operations that leave the clock alone\<close>

lemma timelyD: "timely m \<Longrightarrow> m w = (r, w') \<Longrightarrow> w_clock w' = w_clock w"
  unfolding timely_def by (metis snd_conv)

lemma timely_base [timely_intros]:
  "timely (ret x)" "timely (fail e)" "timely (lift r)" "timely (random f)" "timely driver"
  by (auto simp: timely_def ret_def fail_def lift_def random_def driver_def split: prod.splits list.splits option.splits)

lemma timely_bnd [timely_intros]:
  assumes "timely m" and "\<And>x. timely (f x)"
  shows "timely (bnd m f)"
  unfolding timely_def
proof
  fix w
  obtain r v where m: "m w = (r, v)" by (cases "m w")
  then show "w_clock (snd (bnd m f w)) = w_clock w"
    using timelyD [OF assms(1) m] assms(2) by (cases r) (simp_all add: bnd_def timely_def)
qed

lemma timely_on_error [timely_intros]:
  assumes "timely m" and "\<And>e. timely (h e)"
  shows "timely (on_error m h)"
  unfolding timely_def
proof
  fix w
  obtain r v where m: "m w = (r, v)" by (cases "m w")
  then show "w_clock (snd (on_error m h w)) = w_clock w"
    using timelyD [OF assms(1) m] assms(2) by (cases r) (simp_all add: on_error_def timely_def)
qed

lemma timely_query [timely_intros]: "timely (query f)"
  unfolding query_def by (intro timely_bnd timely_base) (simp add: timely_def)

lemma timely_exec [timely_intros]: "timely (exec f)"
  unfolding exec_def by (intro timely_bnd timely_base) (auto simp: timely_def split: sum.split)

lemma timely_wrap [timely_intros]: "timely m \<Longrightarrow> timely (wrap_error t m)"
  unfolding wrap_error_def by (intro timely_intros)

lemma timely_if [timely_intros]: "timely m \<Longrightarrow> timely n \<Longrightarrow> timely (if c then m else n)"
  by simp

lemma timely_file [timely_intros]: "timely m \<Longrightarrow> timely (on_file m)"
  unfolding timely_def on_file_def by (auto split: option.split prod.split) (metis snd_conv world.select_convs(2))

lemma timely_disk [timely_intros]: "timely m \<Longrightarrow> timely (on_disk m)"
  unfolding timely_def on_disk_def by (auto split: prod.split) (metis snd_conv with_db_simps(2))

lemma timely_operations [timely_intros]:
  "timely (OpenVault path)" "timely (unwrapDEK P s password)" "timely (VerifyPassword P s password)" "timely (Unlock P s password)"
  unfolding OpenVault_def openDatabase_def os_Stat_def VerifyPassword_def Unlock_def unwrapDEK_def
  by (intro timely_intros)+

subsection \<open>Following an operation\<close>

definition leads :: "(bstate world \<Rightarrow> bool) \<Rightarrow> 'a bro \<Rightarrow> ('a \<Rightarrow> bstate world \<Rightarrow> bool) \<Rightarrow> (bstate world \<Rightarrow> bool) \<Rightarrow> bool" where
  "leads P m Q B \<longleftrightarrow> (\<forall>w r w'. P w \<longrightarrow> m w = (r, w') \<longrightarrow> (case r of Inl e \<Rightarrow> B w' | Inr x \<Rightarrow> Q x w'))"

lemma leads_bnd:
  assumes "leads P m Q B" and "\<And>x. leads (Q x) (f x) R B"
  shows "leads P (bnd m f) R B"
  unfolding leads_def
proof (intro allI impI)
  fix w r w' assume w: "P w" and run: "bnd m f w = (r, w')"
  obtain x v where m: "m w = (x, v)" by (cases "m w")
  show "case r of Inl e \<Rightarrow> B w' | Inr x \<Rightarrow> R x w'"
  proof (cases x)
    case (Inl e)
    then show ?thesis using assms(1) w m run by (auto simp: leads_def bnd_def)
  next
    case (Inr y)
    then have "Q y v" using assms(1) w m by (auto simp: leads_def)
    then show ?thesis using assms(2) [of y] Inr m run by (auto simp: leads_def bnd_def)
  qed
qed

lemma leads_weaken:
  "leads P m Q B \<Longrightarrow> (\<And>w. P' w \<Longrightarrow> P w) \<Longrightarrow> (\<And>x w. Q x w \<Longrightarrow> Q' x w) \<Longrightarrow> (\<And>w. B w \<Longrightarrow> B' w) \<Longrightarrow> leads P' m Q' B'"
  by (fastforce simp: leads_def split: sum.splits)

lemma leads_pure:
  assumes "\<And>w. P w \<Longrightarrow> B w"
  shows "leads P (ret x) (\<lambda>y w. P w \<and> y = x) B" "leads P (fail e) Q B" "leads P (lift r) (\<lambda>x w. P w \<and> r = Inr x) B"
    "leads P (require eo) (\<lambda>_ w. P w \<and> eo = None) B"
  using assms by (auto simp: leads_def ret_def fail_def lift_def require_def split: option.splits sum.splits)

lemma leads_fact: "(c \<Longrightarrow> leads P m Q B) \<Longrightarrow> leads (\<lambda>w. P w \<and> c) m Q B"
  by (auto simp: leads_def)

text \<open>Operations that touch neither the file nor the store.\<close>

definition file_part :: "bstate \<Rightarrow> disk \<times> Store option" where
  "file_part b = (bs_disk b, br_store (bs_broker b))"

lemma file_part_simps [simp]:
  "file_part (b\<lparr>bs_conn := c\<rparr>) = file_part b" "file_part (b\<lparr>bs_os := x\<rparr>) = file_part b"
  by (simp_all add: file_part_def)

lemma sound_part: "file_part b = file_part b' \<Longrightarrow> sound P k vid b \<longleftrightarrow> sound P k vid b'"
  by (simp add: sound_def file_part_def)

lemma stepped_part: "stepped P k vid request d w \<Longrightarrow> file_part (w_db w') = file_part (w_db w) \<Longrightarrow> stepped P k vid request d w'"
  using sound_part [of "w_db w'" "w_db w"] by (auto simp: stepped_def file_part_def)

lemma ready_part:
  "ready P k vid d w \<Longrightarrow> file_part (w_db w') = file_part (w_db w) \<Longrightarrow> w_clock w' = w_clock w \<Longrightarrow> ready P k vid d w'"
  using sound_part [of "w_db w'" "w_db w"] by (auto simp: ready_def file_part_def)

lemma leads_after: "preserves file_part m \<Longrightarrow> leads (stepped P k vid request d) m (\<lambda>_. stepped P k vid request d) (stepped P k vid request d)"
  unfolding leads_def using preservesD stepped_part by (fastforce split: sum.split)

lemma leads_quiet:
  assumes "\<And>w. ready P k vid d w \<Longrightarrow> B w"
  shows "preserves file_part m \<Longrightarrow> timely m \<Longrightarrow> leads (ready P k vid d) m (\<lambda>_. ready P k vid d) B"
proof -
  assume m: "preserves file_part m" "timely m"
  show ?thesis unfolding leads_def
  proof (intro allI impI)
    fix w r w' assume "ready P k vid d w" and run: "m w = (r, w')"
    then have "ready P k vid d w'" by (blast intro: ready_part preservesD [OF m(1)] timelyD [OF m(2)])
    then show "case r of Inl e \<Rightarrow> B w' | Inr x \<Rightarrow> ready P k vid d w'" by (simp add: assms split: sum.split)
  qed
qed

lemma leads_random:
  assumes "\<And>w. ready P k vid d w \<Longrightarrow> B w"
  shows "leads (ready P k vid d) (random f) (\<lambda>x w. ready P k vid d w \<and> (\<exists>t t'. f t = (Inr x, t'))) B"
  unfolding leads_def
proof (intro allI impI)
  fix w r w' assume w: "ready P k vid d w" and run: "random f w = (r, w')"
  have "ready P k vid d w'" using w by (rule ready_part) (use run in \<open>auto simp: random_def split: prod.splits\<close>)
  then show "case r of Inl e \<Rightarrow> B w' | Inr x \<Rightarrow> ready P k vid d w' \<and> (\<exists>t t'. f t = (Inr x, t'))"
    using run assms by (cases "f (w_tape w)") (auto simp: random_def split: sum.split)
qed

lemma OpenVault_store:
  assumes "OpenVault path w = (Inr s, w')" and "w_db w = Some d"
  shows "st_keys s = None \<and> select_metadata ''vault_id'' d = Inr (st_vaultID s)"
proof -
  obtain w1 s0 w2 v w3 vid w4 where
    st: "os_Stat w = (Inr True, w1)" and o: "openDatabase path w1 = (Inr s0, w2)"
    and v: "on_file (query (select_metadata ''schema_version'')) w2 = (Inr v, w3)"
    and i: "on_file (query (select_metadata ''vault_id'')) w3 = (Inr vid, w4)" and s: "s = s0\<lparr>st_vaultID := vid\<rparr>"
    using assms(1) by (auto simp: OpenVault_def bnd_Inr wrap_error_Inr fail_Inr ret_Inr split: if_splits)
  have "w_db w1 = Some d" using st query_Inr_db [of _ w True w1] assms(2) by (simp add: os_Stat_def)
  then have o': "st_keys s0 = None" "w_db w2 = Some d" using o by (auto simp: openDatabase_def effect_inr)
  have "w_db w3 = Some d" using v o'(2) keepsD [OF keeps_on_file [OF keeps_query] v] by simp
  then show ?thesis using i s o'(1) by (auto simp: on_file_Inr query_Inr)
qed

lemma getStore_store:
  assumes "getStore w = (r, w')" and "sound P k vid (w_db w)"
  shows "sound P k vid (w_db w') \<and> (\<forall>s. r = Inr s \<longrightarrow> store_of k vid s)"
proof (cases "br_store (bs_broker (w_db w))")
  case (Some s)
  then have "r = Inr s" "w' = w" using assms(1) getStore_run [OF Some] by simp_all
  then show ?thesis using assms(2) Some by (simp add: sound_def)
next
  case None
  obtain d where d: "bs_disk (w_db w) = Some d" "vault_of P k vid d" using assms(2) by (auto simp: sound_def)
  let ?o = "on_disk (OpenVault (br_vaultPath (bs_broker (w_db w))))"
  obtain x v where o: "?o w = (x, v)" by (cases "?o w")
  have part: "bs_disk (w_db v) = Some d" "br_store (bs_broker (w_db v)) = None"
    using preservesD [OF preserves_disk_keeps [OF OpenVault_keeps] o] o d(1) None by (auto simp: on_disk_def split: prod.splits)
  then have v: "sound P k vid (w_db v)" using d(2) by (simp add: sound_def)
  show ?thesis
  proof (cases x)
    case (Inl e)
    then show ?thesis using assms(1) o None v by (auto simp: getStore_def bnd_def look_def wrap_error_def on_error_def fail_def)
  next
    case (Inr s)
    then obtain u where "OpenVault (br_vaultPath (bs_broker (w_db w))) (with_db w (Some d)) = (Inr s, u)"
      using o d(1) by (auto simp: on_disk_def split: prod.splits)
    then have "store_of k vid s" using OpenVault_store d(2) by (fastforce simp: vault_of_def store_of_def)
    then show ?thesis
      using assms(1) o None v Inr
      by (auto simp: getStore_def bnd_def look_def wrap_error_def on_error_def change_state_def ret_def set_store_def sound_def)
  qed
qed

lemma timely_getStore [timely_intros]: "timely getStore"
  unfolding timely_def
proof
  fix w
  show "w_clock (snd (getStore w)) = w_clock w"
  proof (cases "br_store (bs_broker (w_db w))")
    case (Some s)
    then show ?thesis by (simp add: getStore_run)
  next
    case None
    have "timely (bnd (wrap_error t (on_disk (OpenVault p))) (\<lambda>s. bnd (change_state (set_store (Some s))) (\<lambda>_. ret s)))" for t p
      by (intro timely_intros) (simp add: timely_def change_state_def)
    then show ?thesis using None by (simp add: timely_def getStore_def bnd_def [of "look f" for f] look_def)
  qed
qed

lemma leads_getStore:
  assumes "\<And>w. ready P k vid d w \<Longrightarrow> B w"
  shows "leads (ready P k vid d) getStore (\<lambda>s w. ready P k vid d w \<and> store_of k vid s) B"
  unfolding leads_def
proof (intro allI impI)
  fix w r w' assume w: "ready P k vid d w" and run: "getStore w = (r, w')"
  have "ready P k vid d w'"
    using w getStore_store [OF run] preservesD [OF preserves_getStore(2) run] timelyD [OF timely_getStore run]
    by (auto simp: ready_def)
  then show "case r of Inl e \<Rightarrow> B w' | Inr s \<Rightarrow> ready P k vid d w' \<and> store_of k vid s"
    using getStore_store [OF run] w assms by (auto simp: ready_def split: sum.split)
qed

lemma stepped_getStore: "leads (stepped P k vid request d) getStore (\<lambda>_. stepped P k vid request d) (stepped P k vid request d)"
  unfolding leads_def
proof (intro allI impI)
  fix w r w' assume w: "stepped P k vid request d w" and run: "getStore w = (r, w')"
  then have "stepped P k vid request d w'"
    using getStore_store [OF run] preservesD [OF preserves_getStore(2) run] by (auto simp: stepped_def)
  then show "case r of Inl e \<Rightarrow> stepped P k vid request d w' | Inr s \<Rightarrow> stepped P k vid request d w'" by (simp split: sum.split)
qed

lemma preserves_file: "preserves bs_disk m \<Longrightarrow> preserves (br_store \<circ> bs_broker) m \<Longrightarrow> preserves file_part m"
  by (simp add: preserves_def file_part_def)

lemma preserves_part [preserve_intros]:
  "preserves file_part (power_Start E)" "preserves file_part power_Stop" "preserves file_part (run_process E action vals)"
  "preserves file_part (send r)"
  by (auto simp: preserves_def power_Start_def power_Stop_def change_state_def Let_def file_part_def run_process_def send_def
      split: prod.splits)

lemma preserves_part_vault [preserve_intros]: "keeps m \<Longrightarrow> preserves file_part (on_vault m)"
  by (intro preserves_file preserve_intros)

lemma leads_on_error:
  assumes "leads P m Q B" and "\<And>e. leads B (h e) Q B'"
  shows "leads P (on_error m h) Q B'"
  unfolding leads_def
proof (intro allI impI)
  fix w r w' assume w: "P w" and run: "on_error m h w = (r, w')"
  obtain x v where m: "m w = (x, v)" by (cases "m w")
  then have "case x of Inl e \<Rightarrow> B v | Inr x \<Rightarrow> Q x v" using assms(1) w by (simp add: leads_def)
  then show "case r of Inl e \<Rightarrow> B' w' | Inr x \<Rightarrow> Q x w'"
    using run m assms(2) by (cases x) (auto simp: on_error_def leads_def)
qed

lemma stepped_status: "leads (stepped P k vid request d) do_status (\<lambda>_. stepped P k vid request d) (stepped P k vid request d)"
  unfolding do_status_def Broker_status_def
  by (rule leads_bnd [OF leads_bnd [OF leads_on_error [OF leads_bnd [OF stepped_getStore]]]]; rule leads_after; intro preserve_intros)

lemma leads_unlock:
  assumes "store_of k vid s"
  shows "leads (ready P k vid d) (on_vault (Unlock P s password)) (\<lambda>s' w. ready P k vid d w \<and> store_of k vid s') (stepped P k vid request d)"
  unfolding leads_def
proof (intro allI impI)
  fix w r w' assume w: "ready P k vid d w" and run: "on_vault (Unlock P s password) w = (r, w')"
  have "leads (ready P k vid d) (on_vault (Unlock P s password)) (\<lambda>_. ready P k vid d) (stepped P k vid request d)"
    by (rule leads_quiet [OF ready_stepped preserves_part_vault [OF keeps_Unlock(1)]], assumption) (intro timely_intros)
  then have "case r of Inl e \<Rightarrow> stepped P k vid request d w' | Inr x \<Rightarrow> ready P k vid d w'" using w run by (simp add: leads_def)
  moreover have "store_of k vid s'" if "r = Inr s'" for s'
  proof -
    have d: "bs_disk (w_db w) = Some d" "only_key P k vid d" using w by (auto simp: ready_def sound_def vault_of_def)
    obtain x v where u: "Unlock P s password (with_db w d) = (x, v)" by (cases "Unlock P s password (with_db w d)")
    from on_vault_run [where m = "Unlock P s password", OF d(1) u] have "x = r" using run by simp
    then show ?thesis using Unlock_store [OF _ assms, of P password "with_db w d" s' v] u that d(2) by simp
  qed
  ultimately show "case r of Inl e \<Rightarrow> stepped P k vid request d w' | Inr s' \<Rightarrow> ready P k vid d w' \<and> store_of k vid s'"
    by (simp split: sum.splits)
qed

lemma leads_set_stepped:
  assumes "store_of k vid s"
  shows "leads (ready P k vid d) (change_state (set_store (Some s))) (\<lambda>_. stepped P k vid request d) B"
  using assms by (auto simp: leads_def change_state_def ready_def sound_def set_store_def intro!: ready_stepped)

lemma stepped_audit: "leads (stepped P k vid request d) (on_vault (RecordAudit P' s event)) (\<lambda>_. stepped P k vid request d)
  (stepped P k vid request d)"
  unfolding leads_def
proof (intro allI impI)
  fix w r w' assume w: "stepped P k vid request d w" and run: "on_vault (RecordAudit P' s event) w = (r, w')"
  obtain d' where d': "bs_disk (w_db w) = Some d'" "vault_of P k vid d'" "vault_step P k request (maps_of P k d) (maps_of P k d')" "grows d d'"
    using w by (auto simp: stepped_def sound_def)
  obtain x v where u: "RecordAudit P' s event (with_db w d') = (x, v)" by (cases "RecordAudit P' s event (with_db w d')")
  then obtain log where v: "w_db v = d'\<lparr>db_audit := log\<rparr>" using RecordAudit_audit [of P' s event "with_db w d'"] by auto
  have "vault_of P k vid (w_db v)" by (rule vault_of_frame [OF d'(2)]) (use d'(2) in \<open>simp_all add: v vault_of_def\<close>)
  moreover have "maps_of P k (w_db v) = maps_of P k d'" "grows d (w_db v)" using d'(4) by (simp_all add: v maps_of_def)
  moreover have "w_db w' = (w_db w)\<lparr>bs_disk := Some (w_db v)\<rparr>"
    using on_vault_run [where m = "RecordAudit P' s event", OF d'(1) u] run by simp
  ultimately have "stepped P k vid request d w'" using w d' by (auto simp: stepped_def sound_def)
  then show "case r of Inl e \<Rightarrow> stepped P k vid request d w' | Inr x \<Rightarrow> stepped P k vid request d w'" by (simp split: sum.splits)
qed

end
