(* ===== verification/BrokerServe.thy ===== *)
theory BrokerServe
  imports BrokerSpec
begin

section \<open>Every request keeps the specification\<close>

text \<open>
  Each operation of the broker, followed from the payload to the answer: the operations of the store
  that write make the step of the specification that their request asks for, the others make none, and
  what an operation that writes answers is what it has stored.
\<close>

subsection \<open>Operations that write\<close>

text \<open>What an operation of the store does to the database when it is called at a point where the specification holds.\<close>

definition writes :: "prims \<Rightarrow> keySet \<Rightarrow> Request \<Rightarrow> database \<Rightarrow> ('a \<Rightarrow> jv result) \<Rightarrow> 'a vault \<Rightarrow> bool" where
  "writes P k request d enc m \<longleftrightarrow> (\<forall>v r v'. w_db v = d \<longrightarrow> (\<forall>n. valid_time (w_clock v n)) \<longrightarrow> m v = (r, v') \<longrightarrow>
     frame_of (w_db v') = frame_of d \<and> vault_inv P k (w_db v') \<and> vault_step P k request (maps_of P k d) (maps_of P k (w_db v')) \<and> grows d (w_db v')
   \<and> (case r of Inl e \<Rightarrow> w_db v' = d | Inr x \<Rightarrow> \<exists>j. enc x = Inr j \<and> told P k d j (w_db v')))"

lemma writesI:
  assumes "vault_inv P k d" and "atomic m"
    and "\<And>v x v'. w_db v = d \<Longrightarrow> \<forall>n. valid_time (w_clock v n) \<Longrightarrow> m v = (Inr x, v') \<Longrightarrow>
      frame_of (w_db v') = frame_of d \<and> vault_inv P k (w_db v') \<and> vault_step P k request (maps_of P k d) (maps_of P k (w_db v')) \<and> grows d (w_db v')
      \<and> (\<exists>j. enc x = Inr j \<and> told P k d j (w_db v'))"
  shows "writes P k request d enc m"
  unfolding writes_def
proof (intro allI impI)
  fix v r v' assume v: "w_db v = d" "\<forall>n. valid_time (w_clock v n)" and run: "m v = (r, v')"
  show "frame_of (w_db v') = frame_of d \<and> vault_inv P k (w_db v') \<and> vault_step P k request (maps_of P k d) (maps_of P k (w_db v')) \<and> grows d (w_db v')
    \<and> (case r of Inl e \<Rightarrow> w_db v' = d | Inr x \<Rightarrow> \<exists>j. enc x = Inr j \<and> told P k d j (w_db v'))"
  proof (cases r)
    case (Inl e)
    then have "w_db v' = d" using atomicD [OF assms(2)] run v(1) by simp
    then show ?thesis using assms(1) Inl by (simp add: maps_of_def vault_step.unchanged)
  qed (use assms(3) [OF v] run in simp)
qed

lemma leads_write:
  assumes "writes P k request d enc m"
  shows "leads (ready P k vid d) (bnd (on_vault m) (\<lambda>x. lift (enc x))) (finished P k vid request d) (still P k vid request d)"
  unfolding leads_def
proof (intro allI impI)
  fix w r w' assume w: "ready P k vid d w" and run: "bnd (on_vault m) (\<lambda>x. lift (enc x)) w = (r, w')"
  have d: "bs_disk (w_db w) = Some d" "vault_of P k vid d" using w by (auto simp: ready_def sound_def)
  obtain x v where u: "m (with_db w d) = (x, v)" by (cases "m (with_db w d)")
  have "\<forall>n. valid_time (w_clock (with_db w d) n)" using w by (simp add: ready_def)
  then have v: "frame_of (w_db v) = frame_of d" "vault_inv P k (w_db v)" "vault_step P k request (maps_of P k d) (maps_of P k (w_db v))" "grows d (w_db v)"
    "case x of Inl e \<Rightarrow> w_db v = d | Inr x \<Rightarrow> \<exists>j. enc x = Inr j \<and> told P k d j (w_db v)"
    using assms [unfolded writes_def, rule_format, OF _ _ u] by simp_all
  have o: "on_vault m w = (x, with_db v ((w_db w)\<lparr>bs_disk := Some (w_db v)\<rparr>))" by (rule on_vault_run [where m = m, OF d(1) u])
  then have w': "w_db w' = (w_db w)\<lparr>bs_disk := Some (w_db v)\<rparr>" "r = (case x of Inl e \<Rightarrow> Inl e | Inr x \<Rightarrow> enc x)"
    using run by (auto simp: bnd_def lift_def split: sum.splits)
  have "stepped P k vid request d w'"
    using w v(3,4) vault_of_frame [OF d(2) v(1,2)] w'(1) by (auto simp: stepped_def ready_def sound_def)
  then show "case r of Inl e \<Rightarrow> still P k vid request d w' | Inr j \<Rightarrow> finished P k vid request d j w'"
    using v(5) w' by (auto simp: still_def finished_def split: sum.splits)
qed

text \<open>What the maps of a vault hold can be written as JSON.\<close>

lemma encode_stored:
  assumes "vault_inv P k d"
  shows "secret_at P k d tok = Some (m, v) \<Longrightarrow> encode_secret m = Inr (secret_json m)"
    and "action_at P k d tok = Some a \<Longrightarrow> encode_action a = Inr (action_json a)"
proof -
  assume "secret_at P k d tok = Some (m, v)"
  then obtain r where "found P k d tok r m" by (rule secret_at_found)
  then have "secret_ok m" by (rule found_at(3) [OF assms])
  then show "encode_secret m = Inr (secret_json m)"
    by (simp add: encode_secret_def marshal_secret_def and_then_def secret_ok_def valid_time_def)
next
  assume "action_at P k d tok = Some a"
  then obtain r where "r \<in> set (db_objects d)" "ob_type r = ''action''" "read_action P k r = Inr a"
    by (auto simp: action_at_def action_rows_def result_option_def split: list.splits sum.splits dest!: filter_head)
  then have "action_ok a" using action_row_inv [OF assms] by (fastforce simp: action_row_ok_def)
  then show "encode_action a = Inr (action_json a)"
    by (simp add: encode_action_def marshal_action_def and_then_def action_ok_def valid_time_def)
qed

lemma told_secret:
  assumes "vault_inv P k d'" and "secret_at P k d' = (secret_at P k d)(tok \<mapsto> (m, v))" and "action_at P k d' = action_at P k d"
  shows "\<exists>j. encode_secret m = Inr j \<and> told P k d j d'"
proof -
  have "encode_secret m = Inr (secret_json m)" by (rule encode_stored(1) [OF assms(1), of tok m v]) (simp add: assms(2))
  moreover have "told P k d (secret_json m) d'" unfolding told_def maps_of_def using assms(2,3) by blast
  ultimately show ?thesis by blast
qed

lemma told_action:
  assumes "vault_inv P k d'" and "secret_at P k d' = secret_at P k d" and "action_at P k d' = (action_at P k d)(tok \<mapsto> a)"
  shows "\<exists>j. encode_action a = Inr j \<and> told P k d j d'"
proof -
  have "encode_action a = Inr (action_json a)" by (rule encode_stored(2) [OF assms(1), of tok a]) (simp add: assms(3))
  moreover have "told P k d (action_json a) d'" unfolding told_def maps_of_def using assms(2,3) by blast
  ultimately show ?thesis by blast
qed

lemma safeName_valid: "safeName s \<Longrightarrow> valid_utf8 s"
  by (rule valid_utf8_ascii) (auto simp: safeName_def name_char_def name_start_def is_digit_def list_all_iff split: list.splits)

lemma generated_profile:
  assumes "Generate name tape = (Inr (val, profile), tape')"
  shows "generated name val \<and> valid_utf8 (pr_name profile) \<and> int64 (pr_strength profile)"
proof -
  obtain pr0 where g: "Get name = Inr pr0" "profile = pr0\<lparr>pr_strength := strength_bits (pr_length pr0) (length (pr_alphabet pr0))\<rparr>"
    using Generate_Inr [OF assms] by blast
  note tab = Get_in_table [OF g(1)]
  have "list_all (\<lambda>(n, pr). valid_utf8 n) profile_table" by code_simp
  then have "valid_utf8 (pr_name profile)" using tab profile_alphabet [OF g(1)] g(2) by (auto simp: list_all_iff)
  moreover have "list_all (\<lambda>(n, x, y). int64 x)
      (map (\<lambda>(n, pr). (n, strength_bits (pr_length pr) (length (pr_alphabet pr)), pr_strength pr)) profile_table)"
    unfolding table_strengths by (simp add: int64_def)
  then have "int64 (pr_strength profile)" using tab g(2) by (auto simp: list_all_iff)
  ultimately show ?thesis using generated_facts [OF assms] g by (auto simp: generated_def)
qed

lemma create_writes:
  assumes "prims_ok P" and "keys_ok k" and "vault_inv P k d" and "store_of k vid s" and "rq_operation request = ''secret.create''"
    and "secret_payload request p" and "validateSecretRequest p = None" and "Generate (sr_profile p) t = (Inr (val, profile), t')"
  shows "writes P k request d encode_secret (CreateSecret P s (zero_SecretMetadata\<lparr>sm_project := sc_project (sr_scope p),
    sm_environment := sc_environment (sr_scope p), sm_name := sr_name p, sm_profile := pr_name profile,
    sm_strength_bits := pr_strength profile\<rparr>) val)"
    (is "writes _ _ _ _ _ (CreateSecret P s ?meta val)")
proof (rule writesI [OF assms(3) atomic_CreateSecret])
  fix v m v' assume v: "w_db v = d" "\<forall>n. valid_time (w_clock v n)" and run: "CreateSecret P s ?meta val v = (Inr m, v')"
  have keys: "st_keys s = Some k" using locked_result(1) [of s P ?meta val v] run assms(4) by (auto simp: store_of_def)
  have "safeName (sc_project (sr_scope p))" "safeName (sc_environment (sr_scope p))" "safeName (sr_name p)"
    using assms(7) by (simp_all add: validateSecretRequest_def split: if_splits)
  then have "utf8_names ?meta" "int64 (sm_strength_bits ?meta)"
    using generated_profile [OF assms(8)] by (simp_all add: utf8_names_def zero_SecretMetadata_def safeName_valid)
  note made = CreateSecret_refine [OF assms(1) keys assms(2) _ this _ run, unfolded v(1), OF assms(3), simplified v(2), OF TrueI]
  obtain i where m: "m = created ?meta i (w_clock v (w_ticks v))" using made by blast
  have "vault_step P k request (secret_at P k d, action_at P k d)
      ((secret_at P k d)(scope_token P k (sr_scope p) (sr_name p) \<mapsto> (m, Some val)), action_at P k d)"
    by (rule vault_step.created [OF assms(5-7) refl]) (use made generated_profile [OF assms(8)] in
      \<open>simp_all add: m created_def secret_token_def\<close>)
  then show "frame_of (w_db v') = frame_of d \<and> vault_inv P k (w_db v')
      \<and> vault_step P k request (maps_of P k d) (maps_of P k (w_db v')) \<and> grows d (w_db v') \<and> (\<exists>j. encode_secret m = Inr j \<and> told P k d j (w_db v'))"
    using made create_frame [OF keys run] CreateSecret_actions [OF keys run]
      told_secret [of P k "w_db v'" d "scope_token P k (sr_scope p) (sr_name p)" m "Some val"]
    by (simp add: v(1) maps_of_def secret_token_def)
qed

lemma rotate_writes:
  assumes "prims_ok P" and "keys_ok k" and "vault_inv P k d" and "roomy d" and "store_of k vid s"
    and "rq_operation request = ''secret.rotate''" and "secret_payload request p" and "validateSecretRequest p = None"
    and "Generate (sr_profile p) t = (Inr (val, profile), t')"
  shows "writes P k request d encode_secret (RotateSecret P s (sr_scope p) (sr_name p) (pr_name profile) (pr_strength profile) val)"
    (is "writes _ _ _ _ _ ?op")
proof (rule writesI [OF assms(3) atomic_RotateSecret])
  fix v m v' assume v: "w_db v = d" "\<forall>n. valid_time (w_clock v n)" and run: "?op v = (Inr m, v')"
  have keys: "st_keys s = Some k" using locked_result(2) [of s P _ _ _ _ val v] run assms(5)
    by (metis Inr_Inl_False fst_conv store_of_def)
  note profile = generated_profile [OF assms(9)]
  obtain m0 old where made: "secret_at P k d (scope_token P k (sr_scope p) (sr_name p)) = Some (m0, old)"
    "m = rotated m0 (pr_name profile) (pr_strength profile) (w_clock v (w_ticks v))" "sm_version m = sm_version m0 + 1"
    "vault_inv P k (w_db v')" "secret_at P k (w_db v') = (secret_at P k d)(scope_token P k (sr_scope p) (sr_name p) \<mapsto> (m, Some val))"
    using RotateSecret_refine [OF assms(1) keys assms(2) _ _ _ _ _ run] profile assms(3,4) v by auto
  have "vault_step P k request (secret_at P k d, action_at P k d)
      ((secret_at P k d)(scope_token P k (sr_scope p) (sr_name p) \<mapsto> (m, Some val)), action_at P k d)"
    by (rule vault_step.rotated [where S = "secret_at P k d", OF assms(6-8) refl made(1)]) (use profile made(2,3) in \<open>simp_all add: rotated_def\<close>)
  then show "frame_of (w_db v') = frame_of d \<and> vault_inv P k (w_db v')
      \<and> vault_step P k request (maps_of P k d) (maps_of P k (w_db v')) \<and> grows d (w_db v') \<and> (\<exists>j. encode_secret m = Inr j \<and> told P k d j (w_db v'))"
    using made rotate_frame [OF keys _ run] assms(3) told_secret [OF made(4) made(5)]
    by (simp add: v(1) maps_of_def)
qed

lemma revoke_writes:
  assumes "prims_ok P" and "keys_ok k" and "vault_inv P k d" and "store_of k vid s"
    and "rq_operation request = ''secret.revoke''" and "secret_payload request p"
  shows "writes P k request d encode_secret (RevokeSecret P s (sr_scope p) (sr_name p))"
    (is "writes _ _ _ _ _ ?op")
proof (rule writesI [OF assms(3) atomic_RevokeSecret])
  fix v m v' assume v: "w_db v = d" "\<forall>n. valid_time (w_clock v n)" and run: "?op v = (Inr m, v')"
  have keys: "st_keys s = Some k" using locked_result(3) [of s P _ _ v] run assms(4)
    by (metis Inr_Inl_False fst_conv store_of_def)
  obtain m0 old where made: "secret_at P k d (scope_token P k (sr_scope p) (sr_name p)) = Some (m0, old)"
    "m = revoked m0 (w_clock v (w_ticks v))" "vault_inv P k (w_db v')"
    "secret_at P k (w_db v') = (secret_at P k d)(scope_token P k (sr_scope p) (sr_name p) \<mapsto> (m, None))"
    using RevokeSecret_refine [OF assms(1) keys assms(2) _ _ run] assms(3) v by auto
  note vault_step.revoked [where now = "w_clock v (w_ticks v)" and S = "secret_at P k d", OF assms(5,6) refl made(1), of "action_at P k d"]
  then show "frame_of (w_db v') = frame_of d \<and> vault_inv P k (w_db v')
      \<and> vault_step P k request (maps_of P k d) (maps_of P k (w_db v')) \<and> grows d (w_db v') \<and> (\<exists>j. encode_secret m = Inr j \<and> told P k d j (w_db v'))"
    using made revoke_frame [OF keys _ run] assms(3) told_secret [OF made(3) made(4)]
    by (simp add: v(1) maps_of_def revoked_def)
qed

text \<open>The strings of an action that is read from a request are valid, and its map is sorted.\<close>

lemma unstamp_valid: "unstamp s = Some t \<Longrightarrow> valid_time t"
  by (auto simp: unstamp_def Let_def split: if_splits option.splits)

lemma zero_time_valid: "valid_time zero_time"
  by (simp add: valid_time_def zero_time_def days_in_def)

lemma time_field_keeps: "(\<And>t r. valid_time t \<Longrightarrow> I r \<Longrightarrow> I (upd (\<lambda>_. t) r)) \<Longrightarrow> field_keeps I (time_field upd)"
  by (auto simp: field_keeps_def time_field_def unstamp_valid split: jv.splits)

lemma str_field_keeps: "(\<And>s r. valid_utf8 s \<Longrightarrow> I r \<Longrightarrow> I (upd (\<lambda>_. s) r)) \<Longrightarrow> field_keeps I (str_field upd)"
  by (auto simp: field_keeps_def str_field_def split: jv.splits)

lemma action_fields_keep: "list_all (\<lambda>(n, f). field_keeps action_ok f) action_fields"
proof -
  have "field_keeps action_ok (strs_field ac_arguments_update)"
    by (auto simp: field_keeps_def strs_field_def action_ok_def dest: str_elems_valid split: jv.splits)
  moreover have "field_keeps action_ok (strmap_field (\<lambda>x. ac_secrets_update (\<lambda>_. x)) ac_secrets)"
    unfolding field_keeps_def
  proof (intro allI impI)
    fix v r r' assume v: "writable v" and r: "action_ok r"
      and run: "strmap_field (\<lambda>x. ac_secrets_update (\<lambda>_. x)) ac_secrets v r = Some r'"
    let ?m = "case ac_secrets r of None \<Rightarrow> [] | Some m \<Rightarrow> m"
    have "strmap_ok ?m \<and> list_all (\<lambda>(k, v). valid_utf8 k \<and> valid_utf8 v) ?m"
      using r by (auto simp: action_ok_def strmap_ok_def split: option.splits)
    then show "action_ok r'"
      using run v r put_members_ok [of _ ?m] by (cases v) (auto simp: strmap_field_def action_ok_def)
  qed
  ultimately show ?thesis
    by (auto simp: action_fields_def action_ok_def intro!: str_field_keeps time_field_keeps)
qed

lemma configure_valid:
  assumes "configure_payload request a" and "\<And>v. rq_payload request = Some v \<Longrightarrow> writable v"
  shows "action_input_ok a"
proof -
  obtain p v where p: "rq_payload request = Some v"
    "decode_struct configure_fields v \<lparr>cq_action = zero_Action, cq_master_password = None\<rparr> = Some p"
    and a: "a = (if ac_output_policy (cq_action p) = [] then (cq_action p)\<lparr>ac_output_policy := ''metadata''\<rparr> else cq_action p)"
    using assms(1) by (auto simp: configure_payload_def unmarshal_raw_def split: option.splits)
  have "field_keeps (\<lambda>p. action_ok (cq_action p)) (struct_field action_fields cq_action cq_action_update)"
    using decode_keeps [OF action_fields_keep] by (auto simp: field_keeps_def struct_field_def)
  moreover have "field_keeps (\<lambda>p. action_ok (cq_action p)) (bytes_field cq_master_password_update)"
    by (auto simp: field_keeps_def bytes_field_def split: jv.splits)
  ultimately have "list_all (\<lambda>(n, f). field_keeps (\<lambda>p. action_ok (cq_action p)) f) configure_fields"
    by (simp add: configure_fields_def)
  then have "action_ok (cq_action p)"
    by (rule decode_keeps [OF _ assms(2) [OF p(1)] _ p(2)]) (simp add: zero_Action_def action_ok_def zero_time_valid)
  then show ?thesis by (simp add: a action_input_ok_def action_ok_def zero_time_valid valid_utf8_ascii)
qed

lemma put_writes:
  assumes "prims_ok P" and "keys_ok k" and "vault_inv P k d" and "roomy d" and "store_of k vid s"
    and "rq_operation request = ''action.configure''" and "configure_payload request a" and "validateAction a = None"
    and "\<And>v. rq_payload request = Some v \<Longrightarrow> writable v"
  shows "writes P k request d encode_action (PutAction P s a)"
proof (rule writesI [OF assms(3) atomic_PutAction])
  fix v a' v' assume v: "w_db v = d" "\<forall>n. valid_time (w_clock v n)" and run: "PutAction P s a v = (Inr a', v')"
  have keys: "st_keys s = Some k" using locked_result(4) [of s P a v] run assms(5)
    by (metis Inr_Inl_False fst_conv store_of_def)
  obtain i since where made: "a' = stored_action a i since (w_clock v (w_ticks v))" "vault_inv P k (w_db v')"
    "secret_at P k (w_db v') = secret_at P k d" "action_at P k (w_db v') = (action_at P k d)(action_token P k a \<mapsto> a')"
    using PutAction_refine [OF assms(1) keys assms(2) _ _ configure_valid [OF assms(7,9)] _ run] assms(3,4) v by auto
  note vault_step.configured [where S = "secret_at P k d" and A = "action_at P k d" and i = i and since = since
      and now = "w_clock v (w_ticks v)", OF assms(6-8) refl]
  then show "frame_of (w_db v') = frame_of d \<and> vault_inv P k (w_db v')
      \<and> vault_step P k request (maps_of P k d) (maps_of P k (w_db v')) \<and> grows d (w_db v') \<and> (\<exists>j. encode_action a' = Inr j \<and> told P k d j (w_db v'))"
    using made put_frame [OF keys _ run] assms(3) told_action [OF made(2,3,4)] by (simp add: v(1) maps_of_def)
qed

subsection \<open>Every request\<close>

text \<open>What is fixed for a request: the primitives behave as documented, the keys have the length the ciphers take, and
  the payload is a value as the parser returns it (\<open>parse_writable\<close>).\<close>

definition served :: "setting \<Rightarrow> keySet \<Rightarrow> Request \<Rightarrow> bool" where
  "served E k request \<longleftrightarrow> prims_ok (en_prims E) \<and> keys_ok k \<and> (\<forall>v. rq_payload request = Some v \<longrightarrow> writable v)"

lemma ready_facts: "ready P k vid d w \<Longrightarrow> vault_inv P k d \<and> roomy d"
  by (auto simp: ready_def sound_def vault_of_def)

lemma leads_known: "(\<And>w. P w \<Longrightarrow> c) \<Longrightarrow> (c \<Longrightarrow> leads P m Q B) \<Longrightarrow> leads P m Q B"
  by (auto simp: leads_def)

lemma leads_written:
  assumes "vault_inv P k d \<Longrightarrow> roomy d \<Longrightarrow> store_of k vid s \<Longrightarrow> writes P k request d enc m"
  shows "leads (\<lambda>w. ready P k vid d w \<and> store_of k vid s) (bnd (on_vault m) (\<lambda>x. lift (enc x))) (finished P k vid request d) (still P k vid request d)"
proof (rule leads_fact, rule leads_known)
  fix w assume "ready P k vid d w" then show "vault_inv P k d \<and> roomy d" by (rule ready_facts)
next
  assume "store_of k vid s" "vault_inv P k d \<and> roomy d"
  then show "leads (ready P k vid d) (bnd (on_vault m) (\<lambda>x. lift (enc x))) (finished P k vid request d) (still P k vid request d)"
    by (intro leads_write assms) simp_all
qed

text \<open>An operation that writes tells what it wrote; one that does not leaves the specification as it is.\<close>

abbreviation telling :: "setting \<Rightarrow> keySet \<Rightarrow> string \<Rightarrow> Request \<Rightarrow> database \<Rightarrow> jv bro \<Rightarrow> bool" where
  "telling E k vid request d m \<equiv> leads (ready (en_prims E) k vid d) m (finished (en_prims E) k vid request d) (still (en_prims E) k vid request d)"

abbreviation staying :: "setting \<Rightarrow> keySet \<Rightarrow> string \<Rightarrow> Request \<Rightarrow> database \<Rightarrow> 'a bro \<Rightarrow> bool" where
  "staying E k vid request d m \<equiv> leads (stepped (en_prims E) k vid request d) m
     (\<lambda>_. stepped (en_prims E) k vid request d) (stepped (en_prims E) k vid request d)"

lemma do_write_secret_steps:
  assumes "served E k request" and "rq_operation request = (if create then ''secret.create'' else ''secret.rotate'')"
  shows "telling E k vid request d (do_write_secret E create (rq_payload request))"
  unfolding do_write_secret_def
proof (rule leads_bnd [OF leads_pure(3)], erule ready_still, rule leads_fact, rule leads_bnd [OF leads_pure(4)], erule ready_still,
    rule leads_fact, rule leads_bnd [OF leads_random [OF ready_still]], assumption, rule leads_fact, safe)
  fix p val profile t t'
  assume p: "unmarshal_raw secret_request_fields zero_SecretRequest (rq_payload request) = Inr p" "validateSecretRequest p = None"
    and g: "Generate (sr_profile p) t = (Inr (val, profile), t')"
  note fixed = assms(1) [unfolded served_def, THEN conjunct1] assms(1) [unfolded served_def, THEN conjunct2, THEN conjunct1]
  have pay: "secret_payload request p" using p(1) by (simp add: secret_payload_def)
  note store = leads_getStore [where B = "still (en_prims E) k vid request d", OF ready_still]
  show "telling E k vid request d (bnd getStore (\<lambda>store.
     bnd (if create
          then on_vault (CreateSecret (en_prims E) store
                 (zero_SecretMetadata\<lparr>sm_project := sc_project (sr_scope p),
                    sm_environment := sc_environment (sr_scope p), sm_name := sr_name p,
                    sm_profile := pr_name profile, sm_strength_bits := pr_strength profile\<rparr>) val)
          else on_vault (RotateSecret (en_prims E) store (sr_scope p) (sr_name p)
                 (pr_name profile) (pr_strength profile) val)) (\<lambda>metadata. lift (encode_secret metadata))))"
    using leads_bnd [OF store leads_written [OF create_writes [OF fixed _ _ _ pay p(2) g]]]
      leads_bnd [OF store leads_written [OF rotate_writes [OF fixed _ _ _ _ pay p(2) g]]] assms(2)
    by (cases create) simp_all
qed

lemma do_revoke_steps:
  assumes "served E k request" and "rq_operation request = ''secret.revoke''"
  shows "telling E k vid request d (do_revoke E (rq_payload request))"
  unfolding do_revoke_def
proof (rule leads_bnd [OF leads_pure(3)], erule ready_still, rule leads_fact, rule leads_bnd [OF leads_getStore [OF ready_still]],
    assumption, rule leads_written)
  fix p s assume "unmarshal_raw secret_request_fields zero_SecretRequest (rq_payload request) = Inr p"
    and "vault_inv (en_prims E) k d" "store_of k vid s"
  then show "writes (en_prims E) k request d encode_secret (RevokeSecret (en_prims E) s (sr_scope p) (sr_name p))"
    using revoke_writes assms by (simp add: served_def secret_payload_def)
qed

lemma leads_verify:
  assumes "\<And>w. ready P k vid d w \<Longrightarrow> B w"
  shows "leads (ready P k vid d) (on_vault (VerifyPassword P s password)) (\<lambda>_. ready P k vid d) B"
  by (rule leads_quiet [OF assms preserves_part_vault [OF keeps_Unlock(2)]], assumption) (intro timely_intros)

lemma do_configure_steps:
  assumes "served E k request" and "rq_operation request = ''action.configure''"
  shows "telling E k vid request d (do_configure E (rq_payload request))"
  unfolding do_configure_def Let_def
proof (rule leads_bnd [OF leads_pure(3)], erule ready_still, rule leads_fact, rule leads_bnd [OF leads_pure(4)], erule ready_still,
    rule leads_fact, rule leads_bnd [OF leads_getStore [OF ready_still]], assumption)
  fix p :: ConfigureActionRequest and s
  let ?a = "if ac_output_policy (cq_action p) = [] then (cq_action p)\<lparr>ac_output_policy := ''metadata''\<rparr> else cq_action p"
  assume p: "unmarshal_raw configure_fields \<lparr>cq_action = zero_Action, cq_master_password = None\<rparr> (rq_payload request) = Inr p"
    "validateAction ?a = None"
  have "configure_payload request ?a" using p(1) by (auto simp: configure_payload_def)
  then have w: "writes (en_prims E) k request d encode_action (PutAction (en_prims E) s ?a)"
    if "vault_inv (en_prims E) k d" "roomy d" "store_of k vid s"
    using put_writes [OF _ _ that assms(2) _ p(2)] assms(1) by (simp add: served_def)
  show "leads (\<lambda>w. ready (en_prims E) k vid d w \<and> store_of k vid s)
      (bnd (on_vault (VerifyPassword (en_prims E) s (case cq_master_password p of None \<Rightarrow> [] | Some b \<Rightarrow> b)))
        (\<lambda>_. bnd (on_vault (PutAction (en_prims E) s ?a)) (\<lambda>stored. lift (encode_action stored))))
      (finished (en_prims E) k vid request d) (still (en_prims E) k vid request d)"
  proof (rule leads_fact, rule leads_bnd [OF leads_verify [OF ready_still]], assumption)
    assume "store_of k vid s"
    then show "telling E k vid request d (bnd (on_vault (PutAction (en_prims E) s ?a)) (\<lambda>stored. lift (encode_action stored)))"
      by (intro leads_weaken [OF leads_written [OF w]]) simp_all
  qed
qed

lemma unlock_steps:
  "leads (ready (en_prims E) k vid d) (do_unlock E raw) (\<lambda>_. stepped (en_prims E) k vid request d) (stepped (en_prims E) k vid request d)"
  unfolding do_unlock_def
  by (rule leads_bnd [OF leads_pure(3)], erule ready_stepped, rule leads_fact, rule leads_bnd [OF leads_getStore [OF ready_stepped]],
    assumption, rule leads_fact, rule leads_bnd [OF leads_unlock], assumption, rule leads_fact, rule leads_bnd [OF leads_set_stepped],
    assumption, rule leads_bnd [OF leads_after], intro preserve_intros, rule stepped_status)

lemma do_lock_steps:
  "leads (ready P k vid d) do_lock (\<lambda>_. stepped P k vid request d) (stepped P k vid request d)"
  unfolding do_lock_def
proof (rule leads_bnd [OF leads_getStore [OF ready_stepped]], assumption, rule leads_fact)
  fix s :: Store assume "store_of k vid s"
  then have locked: "store_of k vid (snd (Lock s))" by (auto simp: store_of_def Lock_def split: option.split)
  show "leads (ready P k vid d) (bnd (change_state (set_store (Some (snd (Lock s))))) (\<lambda>_. bnd power_Stop (\<lambda>_. do_status)))
    (\<lambda>_. stepped P k vid request d) (stepped P k vid request d)"
    by (rule leads_bnd [OF leads_set_stepped [OF locked] leads_bnd [OF leads_after stepped_status]]) (intro preserve_intros)
qed

text \<open>The requests that only read, and \<open>run\<close>, which writes its event.\<close>

lemma reads_steps:
  "staying E k vid request d (do_list_secrets E raw)" "staying E k vid request d (do_list_actions E raw)"
  "staying E k vid request d (do_audit E raw)" "staying E k vid request d do_status" "staying E k vid request d (fail e)"
  unfolding do_list_secrets_def do_list_actions_def do_audit_def
  by (rule leads_bnd [OF leads_after leads_bnd [OF stepped_getStore leads_after]],
      (intro preserve_intros keeps_ListSecrets keeps_ListActions keeps_ListAudit)+)+
    (rule stepped_status, rule leads_after, intro preserve_intros)

lemma run_steps: "staying E k vid request d (do_run E raw)"
proof -
  have send: "staying E k vid request d (send r)" "staying E k vid request d (send_error e)" for r e
    unfolding send_error_def by (rule leads_after, intro preserve_intros)+
  have tail: "staying E k vid request d (bnd (ignore (on_vault (RecordAudit P s event))) (\<lambda>_. send r))" for P s event r
    unfolding ignore_def
    by (rule leads_bnd [OF leads_on_error [OF leads_bnd [OF stepped_audit]]]) (rule send | rule leads_after, intro preserve_intros)+
  show ?thesis
    unfolding do_run_def runAction_def
    by (rule leads_on_error [OF leads_bnd [OF leads_after leads_bnd [OF stepped_getStore leads_bnd [OF leads_after leads_bnd [OF leads_after
      leads_bnd [OF leads_after]]]]] send(2)])
      (auto intro!: tail preserve_intros keeps_GetAction keeps_ResolveSecrets split: prod.splits)
qed

text \<open>The requests that write, up to the answer.\<close>

lemma writes_steps:
  assumes "served E k request" and "rq_operation request \<in> {''secret.create'', ''secret.rotate'', ''secret.revoke'', ''action.configure''}"
  shows "telling E k vid request d (operation E request)"
  using assms(2) do_write_secret_steps [OF assms(1), of True] do_write_secret_steps [OF assms(1), of False] do_revoke_steps [OF assms(1)]
    do_configure_steps [OF assms(1)]
  by (auto simp: operation_def)

lemma operation_steps:
  assumes "served E k request"
  shows "leads (ready (en_prims E) k vid d) (operation E request) (\<lambda>_. stepped (en_prims E) k vid request d)
    (stepped (en_prims E) k vid request d)"
proof (cases "rq_operation request \<in> {''secret.create'', ''secret.rotate'', ''secret.revoke'', ''action.configure''}")
  case True
  show ?thesis by (rule leads_weaken [OF writes_steps [OF assms True]]) (auto simp: finished_def still_def)
next
  case False
  have old: "staying E k vid request d m \<Longrightarrow> leads (ready (en_prims E) k vid d) m (\<lambda>_. stepped (en_prims E) k vid request d)
    (stepped (en_prims E) k vid request d)" for m :: "jv bro"
    by (erule leads_weaken) (simp_all add: ready_stepped)
  show ?thesis unfolding operation_def Let_def
    using False by (auto intro!: unlock_steps do_lock_steps intro: old reads_steps)
qed

lemma Handle_steps:
  assumes "served E k request" and "ready (en_prims E) k vid d w"
  shows "stepped (en_prims E) k vid request d (snd (Handle E request w))"
proof (cases "rq_operation request = ''run''")
  case True
  then show ?thesis using run_steps [of E k vid request d "rq_payload request"] ready_stepped [OF assms(2), of request]
    by (cases "do_run E (rq_payload request) w") (fastforce simp: Handle_run leads_def split: sum.splits)
next
  case False
  obtain r v where m: "operation E request w = (r, v)" by (cases "operation E request w")
  have v: "stepped (en_prims E) k vid request d v" using operation_steps [OF assms(1)] assms(2) m by (cases r) (auto simp: leads_def)
  have "preserves file_part (send_error e)" "preserves file_part (send_done j)" for e j
    unfolding send_error_def send_done_def by (intro preserve_intros)+
  then show ?thesis using stepped_part [OF v] m
    by (cases r) (simp_all add: Handle_operation [OF False] respond_def preserves_def)
qed

end
