(* ===== verification/BrokerHistory.thy ===== *)
theory BrokerHistory
  imports BrokerServe
begin

section \<open>The vault through the life of its broker\<close>

text \<open>
  Histories of requests, closings and restarts on one vault file, what they keep of it, and the properties
  of the broker as a whole against the specification of \<open>BrokerSpec\<close>.
\<close>

subsection \<open>Histories\<close>

text \<open>What may happen to a broker and its file: a request, on any connection; closing; a restart on the same file.\<close>

inductive vault_life :: "prims \<Rightarrow> keySet \<Rightarrow> bstate \<Rightarrow> bstate \<Rightarrow> bool" for P k where
  handled: "w_db w = b\<lparr>bs_conn := c\<rparr> \<Longrightarrow> \<forall>n. valid_time (w_clock w n) \<Longrightarrow> bs_disk b = Some d \<Longrightarrow> roomy d \<Longrightarrow> en_prims E = P \<Longrightarrow>
    served E k request \<Longrightarrow> Handle E request w = (r, w') \<Longrightarrow> vault_life P k b (w_db w')"
| closed: "w_db w = b \<Longrightarrow> Broker_Close w = (r, w') \<Longrightarrow> vault_life P k b (w_db w')"
| restarted: "w_db w = bs_disk b \<Longrightarrow> New path w = (Inr br, w') \<Longrightarrow> vault_life P k b (b\<lparr>bs_broker := br, bs_disk := w_db w', bs_os := os\<rparr>)"

text \<open>How the entry of a secret may develop.\<close>

definition follows :: "SecretMetadata \<times> bytes option \<Rightarrow> SecretMetadata \<times> bytes option \<Rightarrow> bool" where
  "follows x y \<longleftrightarrow> sm_id (fst y) = sm_id (fst x) \<and> sm_name (fst y) = sm_name (fst x) \<and> sm_version (fst x) \<le> sm_version (fst y)
     \<and> (sm_version (fst y) = sm_version (fst x) \<longrightarrow> snd y = snd x \<or> snd y = None)"

definition develops :: "vault_maps \<Rightarrow> vault_maps \<Rightarrow> bool" where
  "develops X Y \<longleftrightarrow> (\<forall>tok x. fst X tok = Some x \<longrightarrow> (\<exists>y. fst Y tok = Some y \<and> follows x y)) \<and> dom (snd X) \<subseteq> dom (snd Y)"

lemma develops_refl: "develops X X"
  by (auto simp: develops_def follows_def)

lemma follows_trans: "follows x y \<Longrightarrow> follows y z \<Longrightarrow> follows x z"
  by (auto simp: follows_def)

lemma develops_trans: "develops X Y \<Longrightarrow> develops Y Z \<Longrightarrow> develops X Z"
  unfolding develops_def by (meson follows_trans subset_trans)

lemma vault_step_develops: "vault_step P k request X Y \<Longrightarrow> develops X Y"
  by (induction rule: vault_step.induct) (auto simp: develops_def follows_def)

lemma New_store:
  assumes "New path w = (Inr br, w')" and "w_db w = Some d" and "select_metadata ''vault_id'' d = Inr vid"
  shows "w_db w' = Some d \<and> (\<forall>s. br_store br = Some s \<longrightarrow> store_of k vid s)"
proof -
  obtain w1 now where t: "time_now w = (Inr now, w1)" "w_db w1 = w_db w" by (simp add: time_now_def)
  obtain x v where o: "OpenVault path w1 = (x, v)" by (cases "OpenVault path w1")
  have v: "w_db v = Some d" using keepsD [OF OpenVault_keeps o] t(2) assms(2) by simp
  have "st_keys s = None \<and> st_vaultID s = vid" if "x = Inr s" for s
    using OpenVault_store [of path w1 s v d] o that t(2) assms(2,3) by simp
  then show ?thesis
    using assms(1) t o v
    by (auto simp: New_def bnd_def Let_def on_error_def ret_def fail_def store_of_def split: sum.splits if_splits)
qed

definition kept_vault :: "prims \<Rightarrow> keySet \<Rightarrow> string \<Rightarrow> bstate \<Rightarrow> bstate \<Rightarrow> bool" where
  "kept_vault P k vid b b' \<longleftrightarrow> sound P k vid b'
     \<and> (\<exists>d d'. bs_disk b = Some d \<and> bs_disk b' = Some d' \<and> develops (maps_of P k d) (maps_of P k d'))"

lemma Close_file:
  "bs_disk (w_db (snd (Broker_Close w))) = bs_disk (w_db w)
   \<and> br_store (bs_broker (w_db (snd (Broker_Close w)))) = map_option VaultKeys.Close (br_store (bs_broker (w_db w)))"
proof -
  obtain u where u: "power_Stop w = (Inr (), u)" by (simp add: power_Stop_def change_state_def)
  have same: "file_part (w_db u) = file_part (w_db w)" by (rule preservesD [OF preserves_part(2) u])
  have run: "snd (Broker_Close w) = u\<lparr>w_db := case br_store (bs_broker (w_db u)) of None \<Rightarrow> w_db u
      | Some s \<Rightarrow> set_store (Some (VaultKeys.Close s)) (w_db u)\<rparr>"
    by (simp add: Broker_Close_def bnd_def u change_state_def)
  show ?thesis unfolding run using same
    by (cases "br_store (bs_broker (w_db w))") (simp_all add: file_part_def set_store_def)
qed

lemma vault_life_kept:
  assumes "vault_life P k b b'" and "sound P k vid b"
  shows "kept_vault P k vid b b'"
  using assms(1)
proof cases
  case (handled w c d E request r w')
  have "ready (en_prims E) k vid d w"
    using handled assms(2) sound_part [of "w_db w" b P k vid] by (simp add: ready_def file_part_def)
  from Handle_steps [OF handled(7) this] have "stepped P k vid request d w'" using handled by simp
  then show ?thesis unfolding handled(1) using handled(4) vault_step_develops unfolding kept_vault_def stepped_def by blast
next
  case (closed w r w')
  obtain d where d: "bs_disk b = Some d" using assms(2) by (auto simp: sound_def)
  note shut = Close_file [of w]
  have "bs_disk b' = Some d" using shut closed d by simp
  moreover have "store_of k vid s" if "br_store (bs_broker b') = Some s" for s
    using shut closed assms(2) that by (auto simp: sound_def store_of_def Close_def Lock_def split: option.splits)
  ultimately show ?thesis using assms(2) d develops_refl by (auto simp: kept_vault_def sound_def)
next
  case (restarted w path br w' os)
  obtain d where d: "bs_disk b = Some d" "vault_of P k vid d" using assms(2) by (auto simp: sound_def)
  have "w_db w' = Some d \<and> (\<forall>s. br_store br = Some s \<longrightarrow> store_of k vid s)"
    using New_store [OF restarted(3)] restarted(2) d by (auto simp: vault_of_def)
  then show ?thesis using d restarted(1) develops_refl by (auto simp: kept_vault_def sound_def)
qed

lemma history_kept:
  assumes "(vault_life P k)\<^sup>*\<^sup>* b b'" and "sound P k vid b"
  shows "kept_vault P k vid b b'"
  using assms(1)
proof (induction rule: rtranclp_induct)
  case base
  obtain d where "bs_disk b = Some d" using assms(2) by (auto simp: sound_def)
  then show ?case using assms(2) develops_refl unfolding kept_vault_def by blast
next
  case (step y z)
  from step.hyps(2) step.IH have "kept_vault P k vid y z" by (intro vault_life_kept) (simp_all add: kept_vault_def)
  then obtain d d' d'' where "sound P k vid z" "bs_disk b = Some d" "bs_disk y = Some d'" "bs_disk z = Some d''"
    "develops (maps_of P k d) (maps_of P k d')" "develops (maps_of P k d') (maps_of P k d'')"
    using step.IH unfolding kept_vault_def by force
  then show ?case using develops_trans unfolding kept_vault_def by blast
qed

subsection \<open>A broker to try them on\<close>

lemma demo_Open: "Open demo_prims key nonce c ad = Inr x \<Longrightarrow> length key = 32 \<and> length nonce = NonceSize \<and> c = key @ nonce @ ad @ x"
  by (auto simp: Open_def demo_prims_def prefix_def split: if_splits)

lemma demo_only_key:
  assumes "opens_with demo_prims password DefaultKDFParams salt vid sl dek" and "expand_keys demo_prims dek = Inr k"
  shows "only_key demo_prims k vid (new_vault vid DefaultKDFParams salt sl since tm)"
  unfolding only_key_def
proof (intro allI impI)
  fix wr password' dek'
  assume wr: "select_wrapper (new_vault vid DefaultKDFParams salt sl since tm) = Inr wr" "unwraps demo_prims wr vid password' dek'"
  have "wr = vault_wrapper DefaultKDFParams salt sl tm"
    using wr(1) by (simp add: select_wrapper_def on_table_def new_vault_def schema_def latest_def vault_wrapper_def)
  then obtain wk where "Open demo_prims wk (fst sl) (snd sl) (wrapperAAD vid) = Inr dek'"
    using wr(2) by (auto simp: unwraps_def vault_wrapper_def)
  moreover obtain wk' where "Open demo_prims wk' (fst sl) (snd sl) (wrapperAAD vid) = Inr dek"
    using assms(1) by (auto simp: opens_with_def)
  ultimately have "dek' = dek" by (auto dest!: demo_Open)
  then show "expand_keys demo_prims dek' = Inr k" using assms(2) by simp
qed

definition demo_configure :: Request where
  "demo_configure = zero_Request\<lparr>rq_operation := ''action.configure'',
     rq_payload := Some (configure_json \<lparr>cq_action = demo_action, cq_master_password = Some [1, 2, 3]\<rparr>)\<rparr>"

lemma writable_configure: "action_input_ok (cq_action p) \<Longrightarrow> ac_id (cq_action p) = [] \<Longrightarrow> writable (configure_json p)"
  by (auto simp: configure_json_def action_json_def action_input_ok_def action_ok_def valid_utf8_ascii intro!: writable_strs writable_strmap)

lemma demo_configure_writable: "rq_payload demo_configure = Some v \<Longrightarrow> writable v"
  using writable_configure demo_action_ok by (auto simp: demo_configure_def demo_action_def zero_Action_def)

lemma demo_sound:
  obtains k vid and w :: "bstate world" and d s where "keys_ok k" "sound demo_prims k vid (w_db w)" "bs_disk (w_db w) = Some d" "roomy d"
    "\<forall>n. valid_time (w_clock w n)" "cn_faults (bs_conn (w_db w)) = []" "sent w = []" "br_store (bs_broker (w_db w)) = Some s"
    "st_keys s = Some k" "vault_inv demo_prims k d" "action_at demo_prims k d (action_token demo_prims k demo_action) = None"
    "VerifyPassword demo_prims s [1, 2, 3] (with_db w d) = (Inr (), with_db w d)"
    "\<exists>a w'. PutAction demo_prims s demo_action (with_db w d) = (Inr a, w')" "db_objects d = []" "db_versions d = []"
proof -
  let ?u = "with_db (demo_world demo_clock) None :: disk world"
  obtain s' u' where init: "Initialize demo_prims ''vault.db'' [1, 2, 3] DefaultKDFParams ?u = (Inr s', u')"
    using Initialize_run [OF demo_prims_ok, of DefaultKDFParams "[1, 2, 3]" ?u "''vault.db''"]
    by (auto simp: ValidateKDFParams_def DefaultKDFParams_def)
  obtain vid salt sl dek k where new: "expand_keys demo_prims dek = Inr k" "length dek = KeySize"
    "opens_with demo_prims [1, 2, 3] DefaultKDFParams salt vid sl dek"
    using Initialize_new [OF init demo_prims_ok] by blast
  let ?d = "new_vault vid DefaultKDFParams salt sl [] []" and ?s = "\<lparr>st_path = ''vault.db'', st_vaultID = vid, st_keys = Some k\<rparr>"
  let ?w = "with_db demo (demo_bstate\<lparr>bs_broker := demo_broker\<lparr>br_store := Some ?s\<rparr>, bs_disk := Some ?d\<rparr>)"
  have "length x = KeySize" if "ExpandKey demo_prims dek purpose = Inr x" for x purpose
    using ExpandKey_ok [OF demo_prims_ok, of dek purpose] that by auto
  then have keys: "keys_ok k" using new(1,2) by (auto simp: expand_keys_def and_then_Inr keys_ok_def)
  have fresh: "db_objects ?d = []" "db_versions ?d = []" "db_audit ?d = []" "set schema \<subseteq> set (db_tables ?d)"
    "select_metadata ''schema_version'' ?d = Inr schemaVersion" "select_metadata ''vault_id'' ?d = Inr vid"
    by (simp_all add: new_vault_def empty_db_def select_metadata_def on_table_def schema_def first_row_def and_then_def)
  have inv: "vault_inv demo_prims k ?d" by (simp add: vault_inv_def fresh consistent_def)
  have sound: "sound demo_prims k vid (w_db ?w)"
    using inv fresh demo_only_key [OF new(3,1)] by (simp add: sound_def vault_of_def store_of_def)
  have verify: "VerifyPassword demo_prims ?s [1, 2, 3] (with_db ?w ?d) = (Inr (), with_db ?w ?d)"
    using unwrapDEK_new [of "with_db ?w ?d" vid DefaultKDFParams salt sl "[]" "[]" ?s, OF _ _ _ new(3)]
    by (simp add: VerifyPassword_def bnd_def ret_def)
  have put: "\<exists>a w'. PutAction demo_prims ?s demo_action (with_db ?w ?d) = (Inr a, w') \<and> w_faults w' = []"
    by (rule PutAction_succeeds [OF demo_prims_ok _ keys, of _ "with_db ?w ?d"])
      (simp_all add: inv demo_action_ok fresh action_at_def action_rows_def can_audit_def demo_world_def demo_clock_def)
  show thesis
    by (rule that [of k vid ?w ?d ?s, OF keys sound])
      (use inv verify put in \<open>auto simp: roomy_def fresh demo_world_def demo_time sent_def action_at_def action_rows_def\<close>)
qed

lemma demo_configured:
  assumes "bs_disk (w_db w) = Some d" and "br_store (bs_broker (w_db w)) = Some s" and "cn_faults (bs_conn (w_db w)) = []"
    and "VerifyPassword demo_prims s [1, 2, 3] (with_db w d) = (Inr (), with_db w d)"
    and "PutAction demo_prims s demo_action (with_db w d) = (Inr a, v)" and "encode_action a = Inr (action_json a)"
  shows "\<exists>w'. Handle demo_setting demo_configure w = (Inr (), w') \<and> bs_disk (w_db w') = Some (w_db v)
    \<and> sent w' = sent w @ [answer_of (Inr (action_json a))]"
proof -
  have op: "validateAction demo_action = None" "ac_output_policy demo_action \<noteq> []" by code_simp+
  have P: "en_prims demo_setting = demo_prims" by (simp add: demo_setting_def)
  note verify = on_vault_stays [where m = "VerifyPassword demo_prims s [1, 2, 3]", OF assms(1,4)]
  note put = on_vault_run [where m = "PutAction demo_prims s demo_action", OF assms(1,5)]
  let ?v = "with_db v ((w_db w)\<lparr>bs_disk := Some (w_db v)\<rparr>)"
  have "operation demo_setting demo_configure w = (Inr (action_json a), ?v)"
    using op getStore_run [OF assms(2)] verify put assms(6)
    by (simp add: operation_def demo_configure_def do_configure_def bnd_def lift_def configure_request_decodes require_def ret_def Let_def P)
  from Handle_answer [OF _ assms(3) this] show ?thesis by (simp add: demo_configure_def sent_def)
qed

lemma demo_change:
  obtains k vid and w :: "bstate world" and d and w' :: "bstate world" and d' v where "keys_ok k" "sound demo_prims k vid (w_db w)" "bs_disk (w_db w) = Some d" "roomy d"
    "\<forall>n. valid_time (w_clock w n)" "cn_faults (bs_conn (w_db w)) = []" "sent w = []"
    "Handle demo_setting demo_configure w = (Inr (), w')" "bs_disk (w_db w') = Some d'"
    "sent w' = [answer_of (Inr v)]" "action_at demo_prims k d (action_token demo_prims k demo_action) = None"
    "action_at demo_prims k d' (action_token demo_prims k demo_action) \<noteq> None" "db_objects d = []" "db_versions d = []"
proof -
  obtain k vid and w :: "bstate world" and d s where w: "keys_ok k" "sound demo_prims k vid (w_db w)" "bs_disk (w_db w) = Some d" "roomy d"
    "\<forall>n. valid_time (w_clock w n)" "cn_faults (bs_conn (w_db w)) = []" "sent w = []" "br_store (bs_broker (w_db w)) = Some s"
    "st_keys s = Some k" "vault_inv demo_prims k d" "action_at demo_prims k d (action_token demo_prims k demo_action) = None"
    "VerifyPassword demo_prims s [1, 2, 3] (with_db w d) = (Inr (), with_db w d)"
    "\<exists>a w'. PutAction demo_prims s demo_action (with_db w d) = (Inr a, w')" "db_objects d = []" "db_versions d = []"
    by (rule demo_sound)
  obtain a v where put: "PutAction demo_prims s demo_action (with_db w d) = (Inr a, v)" using w(13) by blast
  have clock: "valid_time (w_clock (with_db w d) (w_ticks (with_db w d)))" by (simp add: w(5))
  have db: "vault_inv demo_prims k (w_db (with_db w d))" "roomy (w_db (with_db w d))" by (simp_all add: w(4,10))
  have made: "vault_inv demo_prims k (w_db v)"
    "action_at demo_prims k (w_db v) (action_token demo_prims k demo_action) = Some a"
    using PutAction_refine [OF demo_prims_ok w(9,1) db demo_action_ok(1) clock put] by auto
  note done_with = demo_configured [OF w(3,8,6,12) put encode_stored(2) [OF made]]
  show thesis using that [OF w(1-7)] done_with made(2) w(7,11,14,15) by auto
qed

subsection \<open>The properties\<close>

text \<open>
  C3: A request does what its operation is for and nothing else. With a sound vault of the broker's and
  payloads as they come out of the parser, whatever the operation, its payload, the state of the broker and
  the failures on the way: afterwards the vault is sound again, and its maps of secrets and of actions are
  as they were or differ by the one change that the request asks for, as the specification states it:
  \<open>secret.create\<close> adds a new name with a generated value of version one, \<open>secret.rotate\<close> replaces the value of an
  existing name by a generated one with the next version, \<open>secret.revoke\<close> takes the value of an existing name
  away, \<open>action.configure\<close> stores the validated action under its own name, and no other request changes either.
\<close>

theorem requests_refine:
  assumes "prims_ok (en_prims E)" and "keys_ok k" and "\<And>v. rq_payload request = Some v \<Longrightarrow> writable v"
    and "sound (en_prims E) k vid (w_db w)" and "bs_disk (w_db w) = Some d" and "roomy d" and "\<And>n. valid_time (w_clock w n)"
    and "Handle E request w = (r, w')"
  shows "sound (en_prims E) k vid (w_db w')
    \<and> (\<exists>d'. bs_disk (w_db w') = Some d' \<and> vault_step (en_prims E) k request (maps_of (en_prims E) k d) (maps_of (en_prims E) k d'))"
proof -
  have "served E k request" "ready (en_prims E) k vid d w" using assms by (simp_all add: served_def ready_def)
  from Handle_steps [OF this] show ?thesis by (auto simp: assms(8) stepped_def)
qed

theorem requests_refine_witness:
  "\<exists>k vid d w w' d'. sound demo_prims k vid (w_db w) \<and> bs_disk (w_db w) = Some d
    \<and> Handle demo_setting demo_configure w = (Inr (), w') \<and> sound demo_prims k vid (w_db w') \<and> bs_disk (w_db w') = Some d'
    \<and> vault_step demo_prims k demo_configure (maps_of demo_prims k d) (maps_of demo_prims k d')
    \<and> maps_of demo_prims k d' \<noteq> maps_of demo_prims k d"
proof -
  obtain k vid and w :: "bstate world" and d and w' :: "bstate world" and d' j where w: "keys_ok k" "sound demo_prims k vid (w_db w)" "bs_disk (w_db w) = Some d"
    "roomy d" "\<forall>n. valid_time (w_clock w n)" "cn_faults (bs_conn (w_db w)) = []" "sent w = []"
    "Handle demo_setting demo_configure w = (Inr (), w')" "bs_disk (w_db w') = Some d'" "sent w' = [answer_of (Inr j)]"
    "action_at demo_prims k d (action_token demo_prims k demo_action) = None"
    "action_at demo_prims k d' (action_token demo_prims k demo_action) \<noteq> None" "db_objects d = []" "db_versions d = []"
    by (rule demo_change)
  have P: "en_prims demo_setting = demo_prims" by (simp add: demo_setting_def)
  note step = requests_refine [of demo_setting, unfolded P, OF demo_prims_ok w(1) demo_configure_writable w(2-4) w(5) [rule_format] w(8)]
  have "maps_of demo_prims k d' \<noteq> maps_of demo_prims k d" using w(11,12) by (auto simp: maps_of_def)
  moreover have "sound demo_prims k vid (w_db w')"
    "vault_step demo_prims k demo_configure (maps_of demo_prims k d) (maps_of demo_prims k d')"
    using step w(9) by simp_all
  ultimately show ?thesis using w(2,3,8,9) by blast
qed

text \<open>
  C6: The answer tells the outcome. A request that writes, on a connection that takes responses, gets one
  response: an error means that the vault file is exactly as it was, and a success carries the record, as
  JSON, that was put into the vault, the only change of its maps.
\<close>

theorem answer_tells_outcome:
  assumes "prims_ok (en_prims E)" and "keys_ok k" and "\<And>v. rq_payload request = Some v \<Longrightarrow> writable v"
    and "sound (en_prims E) k vid (w_db w)" and "bs_disk (w_db w) = Some d" and "roomy d" and "\<And>n. valid_time (w_clock w n)"
    and "cn_faults (bs_conn (w_db w)) = []"
    and "rq_operation request \<in> {''secret.create'', ''secret.rotate'', ''secret.revoke'', ''action.configure''}"
  shows "\<exists>r w' d'. Handle E request w = (Inr (), w') \<and> sent w' = sent w @ [r] \<and> bs_disk (w_db w') = Some d'
    \<and> (if rs_ok r then \<exists>j. rs_data r = Some j \<and> told (en_prims E) k d j d' else d' = d)"
proof -
  have start: "served E k request" "ready (en_prims E) k vid d w" using assms(1-7) by (simp_all add: served_def ready_def)
  obtain res v where run: "operation E request w = (res, v)" by (cases "operation E request w")
  have out: "case res of Inl e \<Rightarrow> still (en_prims E) k vid request d v | Inr j \<Rightarrow> finished (en_prims E) k vid request d j v"
    using writes_steps [OF start(1) assms(9)] start(2) run unfolding leads_def by blast
  then obtain d' where "bs_disk (w_db v) = Some d'" "if rs_ok (answer_of res)
      then \<exists>j. rs_data (answer_of res) = Some j \<and> told (en_prims E) k d j d' else d' = d"
    by (cases res) (auto simp: still_def finished_def)
  moreover have "Handle E request w
      = (Inr (), v\<lparr>w_db := (w_db v)\<lparr>bs_conn := (bs_conn (w_db w))\<lparr>cn_sent := sent w @ [answer_of res]\<rparr>\<rparr>\<rparr>)"
    by (rule Handle_answer [OF _ assms(8) run]) (use assms(9) in auto)
  ultimately show ?thesis
    by - (intro exI [of _ "answer_of res"] exI [of _ d'] exI conjI, assumption, simp_all add: sent_def)
qed

theorem answer_tells_outcome_witness:
  "\<exists>k vid d w w' d' j r. sound demo_prims k vid (w_db w) \<and> bs_disk (w_db w) = Some d
    \<and> Handle demo_setting demo_configure w = (Inr (), w') \<and> sent w' = [r] \<and> rs_ok r \<and> rs_data r = Some j
    \<and> bs_disk (w_db w') = Some d' \<and> told demo_prims k d j d'"
proof -
  obtain k vid and w :: "bstate world" and d and w' :: "bstate world" and d' j where w: "keys_ok k" "sound demo_prims k vid (w_db w)" "bs_disk (w_db w) = Some d"
    "roomy d" "\<forall>n. valid_time (w_clock w n)" "cn_faults (bs_conn (w_db w)) = []" "sent w = []"
    "Handle demo_setting demo_configure w = (Inr (), w')" "bs_disk (w_db w') = Some d'" "sent w' = [answer_of (Inr j)]"
    "action_at demo_prims k d (action_token demo_prims k demo_action) = None"
    "action_at demo_prims k d' (action_token demo_prims k demo_action) \<noteq> None" "db_objects d = []" "db_versions d = []"
    by (rule demo_change)
  have P: "en_prims demo_setting = demo_prims" and op: "rq_operation demo_configure = ''action.configure''"
    by (simp_all add: demo_setting_def demo_configure_def)
  show ?thesis
    using answer_tells_outcome [of demo_setting, unfolded P, OF demo_prims_ok w(1) demo_configure_writable w(2-4) w(5) [rule_format] w(6)] op w(2,3,7-10)
    by fastforce
qed



end
