(* ===== verification/DaemonProps.thy ===== *)
theory DaemonProps
  imports BrokerProps Service
begin

section \<open>The daemon, from its start to its end\<close>

text \<open>
  The loop of \<open>Serve\<close> over the broker: what the connections are answered, which states the broker goes
  through, and what is left when the daemon is interrupted.
\<close>

definition answered :: "string \<Rightarrow> bool" where
  "answered out \<longleftrightarrow> out = [] \<or> (\<exists>i q r. out = wire (map (rs_id_update (\<lambda>_. i)) (q @ [r])) \<and> events_only q \<and> rs_final r)"

lemma serveConn_answered:
  assumes "serveConn (serve_request E) input w = (out, w')"
  shows "answered out \<and> (w' = w \<or> (\<exists>request. w' = snd (serve_request E request w)))"
proof -
  consider "out = []" "w' = w" | request q r where "fst (serve_request E request w) = q @ [r]" "rs_final r"
    "out = wire (map (rs_id_update (\<lambda>_. rq_id request)) (q @ [r]))" "w' = snd (serve_request E request w)"
    using daemon.connection_answered [OF assms] by blast
  then show ?thesis
  proof cases
    case (2 request q r)
    have "events_only q" using serve_request_answers [of E request w] 2(1) by auto
    then have "answered out" unfolding answered_def using 2(2,3) by blast
    then show ?thesis using 2(4) by blast
  qed (simp add: answered_def)
qed

lemma served_reachable:
  assumes "reachable (en_acquire E) (w_db w)"
  shows "reachable (en_acquire E) (w_db (snd (serve_request E request w)))"
proof -
  let ?c = "\<lparr>cn_sent = [], cn_faults = []\<rparr>"
  obtain r w' where h: "Handle E request (w\<lparr>w_db := (w_db w)\<lparr>bs_conn := ?c\<rparr>\<rparr>) = (r, w')" by fastforce
  have "reachable (en_acquire E) (w_db w')"
    by (rule handled [OF assms refl _ h, of ?c "bs_disk (w_db w)"]) simp
  then show ?thesis by (simp add: serve_request_def h)
qed

lemma Serve_loop_serves:
  assumes "Serve_loop (serve_request E) evs w = (res, outs, w')" and "reachable (en_acquire E) (w_db w)"
  shows "list_all answered outs \<and> reachable (en_acquire E) (w_db w')"
  using assms
proof (induction evs arbitrary: w outs)
  case (Cons ev evs)
  show ?case
  proof (cases ev)
    case (Connection input)
    obtain out v where one: "serveConn (serve_request E) input w = (out, v)" by fastforce
    obtain outs' where rest: "Serve_loop (serve_request E) evs v = (res, outs', w')" "outs = out # outs'"
      using Cons.prems(1) Connection one by (auto split: prod.splits)
    have "reachable (en_acquire E) (w_db v)"
      using serveConn_answered [OF one] Cons.prems(2) served_reachable by auto
    from Cons.IH [OF rest(1) this] show ?thesis using rest(2) serveConn_answered [OF one] by simp
  next
    case (AcceptError err ctx_done)
    then show ?thesis using Cons.prems by (auto split: if_splits)
  qed
qed simp

lemma Close_leaves:
  assumes "hold_inv (w_db w)" and "Broker_Close w = (r, w')"
  shows "live (bs_os (w_db w')) = []" and "br_store (bs_broker (w_db w')) = Some s \<Longrightarrow> \<not> IsUnlocked s"
proof -
  have "hold_inv (w_db w')" by (rule maintainsD [OF maintains_Close assms(2,1)])
  moreover have "\<not> Active (br_power (bs_broker (w_db w')))"
    and locked: "br_store (bs_broker (w_db w')) = Some s \<Longrightarrow> \<not> IsUnlocked s"
    using assms(2) by (auto simp: Broker_Close_def bnd_def change_state_def power_Stop_def Stop_def Active_def Let_def
        set_store_def VaultKeys.Close_def Lock_def IsUnlocked_def split: option.splits prod.splits)
  ultimately show "live (bs_os (w_db w')) = []" by (auto simp: hold_inv_def power_inv_def Active_def split: if_splits)
  show "br_store (bs_broker (w_db w')) = Some s \<Longrightarrow> \<not> IsUnlocked s" by (rule locked)
qed

text \<open>The state in which the daemon begins to serve, and what it does when it gets that far.\<close>

abbreviation serving :: "disk world \<Rightarrow> Broker \<Rightarrow> bstate world" where
  "serving w b \<equiv> with_db w \<lparr>bs_broker = b, bs_disk = w_db w, bs_os = snd boot, bs_starts = 0,
     bs_conn = \<lparr>cn_sent = [], cn_faults = []\<rparr>\<rparr>"

lemma main_serves:
  assumes "main E paths args listen_err evs w = (exit_code, outs, Some v)"
  obtains opts :: options and b w' res u where "New (op_vault opts) w = (Inr b, w')"
    and "Serve listen_err (serve_request E) evs (serving w' b) = (res, outs, u)"
    and "(exit_code, v) = (case res of None \<Rightarrow> (None, u) | Some None \<Rightarrow> (Some 0, snd (Broker_Close u)) | Some (Some err) \<Rightarrow> (Some 1, u))"
proof -
  have "\<exists>(opts :: options) b w' res u. New (op_vault opts) w = (Inr b, w')
    \<and> Serve listen_err (serve_request E) evs (serving w' b) = (res, outs, u)
    \<and> (exit_code, v) = (case res of None \<Rightarrow> (None, u) | Some None \<Rightarrow> (Some 0, snd (Broker_Close u)) | Some (Some err) \<Rightarrow> (Some 1, u))"
  proof (cases paths)
    case (Inr defaults)
    note paths = this
    show ?thesis
    proof (cases "parse_flags defaults args")
      case (Flags opts rest)
      obtain rb w' where new: "New (op_vault opts) w = (rb, w')" by fastforce
      then obtain b where b: "rb = Inr b" using assms paths Flags by (cases rb) (simp_all add: main_def)
      obtain res outs' u where "Serve listen_err (serve_request E) evs (serving w' b) = (res, outs', u)" by (metis prod_cases3)
      then show ?thesis
        using assms paths Flags new b
        by (intro exI [of _ opts] exI [of _ b] exI [of _ w'] exI [of _ res] exI [of _ u])
          (simp add: main_def Let_def split: option.splits)
    qed (use assms paths in \<open>simp add: main_def\<close>)
  qed (use assms in \<open>simp add: main_def\<close>)
  then show thesis using that by blast
qed



end
