(* ===== verification/DaemonVault.thy ===== *)
theory DaemonVault
  imports BrokerHistory DaemonProps
begin

section \<open>The vault through the life of the daemon\<close>

text \<open>
  From the bytes that clients send to the file that the daemon leaves: what the connections carry is
  decoded to requests whose payloads are values of the parser, the clock stays a clock, each request takes at
  most one more version and one more revision, and so the whole run of the daemon keeps the vault.
\<close>

subsection \<open>The clock of a whole request\<close>

lemma timely_more [timely_intros]:
  "timely time_now" "timely (look f)" "timely (change_state g)" "timely (send r)" "timely power_Stop" "timely (power_Start E)"
  "timely (run_process E action vals)" "timely (require eo)"
  by (auto simp: timely_def time_now_def look_def change_state_def send_def power_Stop_def power_Start_def run_process_def Let_def
      require_def ret_def fail_def split: prod.splits option.splits)

lemma timely_cases [timely_intros]:
  "timely m \<Longrightarrow> (\<And>x. timely (f x)) \<Longrightarrow> timely (case v of None \<Rightarrow> m | Some x \<Rightarrow> f x)"
  "(\<And>x y. timely (g x y)) \<Longrightarrow> timely (case p of (x, y) \<Rightarrow> g x y)"
  "(\<And>x. timely (h x)) \<Longrightarrow> timely (let x = z in h x)"
  by (simp_all split: option.split prod.split)

lemma timely_committed [timely_intros]: "timely m \<Longrightarrow> timely (committed m)"
  unfolding committed_def by (intro timely_intros)

lemma timely_transaction [timely_intros]:
  assumes "timely m"
  shows "timely (transaction m)"
  unfolding transaction_def
proof (intro timely_bnd timely_base)
  note body = timelyD [OF timely_committed [OF assms]]
  show "timely (\<lambda>w. case committed m w of (Inl e, w') \<Rightarrow> (Inl e, w'\<lparr>w_db := w_db w\<rparr>) | (Inr x, w') \<Rightarrow> (Inr x, w'))"
    unfolding timely_def by (auto split: prod.split sum.split dest: body)
qed

lemma timely_parts [timely_intros]:
  "timely (appendAudit P key event)" "timely (findSecretMetadata P keys scope name)" "timely (getActionByID P keys i revision)"
  "timely (find_action P keys lookup)" "timely (resolve_one P keys scope n)"
  unfolding appendAudit_def last_hmac_def findSecretMetadata_def getActionByID_def find_action_def resolve_one_def
  by (intro timely_intros)+

lemma timely_resolve [timely_intros]: "timely (resolve_all P keys scope ms)"
  by (induction ms) (auto intro!: timely_intros)

lemma timely_vault [timely_intros]:
  "timely (CreateSecret P s meta val)" "timely (RotateSecret P s scope name profile strength val)"
  "timely (RevokeSecret P s scope name)" "timely (PutAction P s a)" "timely (RecordAudit P s event)" "timely (ListSecrets P s scope)"
  "timely (ListActions P s scope)" "timely (ListAudit P s limit)" "timely (GetAction P s scope name)" "timely (ResolveSecrets P s scope ms)"
  unfolding CreateSecret_def create_commit_def RotateSecret_def rotate_prepare_def rotate_commit_def RevokeSecret_def revoke_prepare_def
    revoke_commit_def PutAction_def put_prepare_def action_identity_def put_commit_def RecordAudit_def ListSecrets_def ListActions_def
    ListAudit_def GetAction_def find_action_def ResolveSecrets_def
  by (intro timely_intros)+

lemma timely_requests [timely_intros]:
  "timely do_status" "timely (do_unlock E raw)" "timely do_lock" "timely (do_write_secret E create raw)" "timely (do_revoke E raw)"
  "timely (do_list_secrets E raw)" "timely (do_configure E raw)" "timely (do_list_actions E raw)" "timely (do_audit E raw)"
  unfolding do_status_def Broker_status_def do_unlock_def do_lock_def do_write_secret_def do_revoke_def do_list_secrets_def
    do_configure_def do_list_actions_def do_audit_def
  by (intro timely_intros)+

lemma timely_ignore [timely_intros]: "timely m \<Longrightarrow> timely (ignore m)"
  unfolding ignore_def by (intro timely_intros)

lemma timely_send_error [timely_intros]: "timely (send_error e)" "timely (send_done v)"
  unfolding send_error_def send_done_def by (intro timely_intros)+

lemma timely_respond [timely_intros]:
  assumes "timely m"
  shows "timely (respond m)"
  unfolding timely_def
proof
  fix w
  obtain r v where m: "m w = (r, v)" by (cases "m w")
  then show "w_clock (snd (respond m w)) = w_clock w"
    using timelyD [OF assms m] timely_send_error unfolding timely_def by (cases r) (simp_all add: respond_def)
qed

lemma timely_New: "timely (New path)"
  unfolding New_def by (intro timely_intros)

lemma timely_Handle: "timely (Handle E request)"
  unfolding Handle_def do_run_def runAction_def by (intro timely_intros)

subsection \<open>Room in the counters\<close>

definition room :: "nat \<Rightarrow> database \<Rightarrow> bool" where
  "room n d \<longleftrightarrow> length (db_versions d) + n < 9223372036854775807 \<and> (\<forall>r\<in>set (db_objects d). ob_revision r + int n < 9223372036854775807)"

lemma room_roomy: "room n d \<Longrightarrow> roomy d"
  by (fastforce simp: room_def roomy_def)

lemma room_less: "room (Suc n) d \<Longrightarrow> room n d"
  by (fastforce simp: room_def)

lemma room_grows:
  assumes "room (Suc n) d" and "grows d d'"
  shows "room n d'"
  unfolding room_def
proof (intro conjI ballI)
  show "length (db_versions d') + n < 9223372036854775807" using assms by (simp add: room_def grows_def)
next
  fix x assume "x \<in> set (db_objects d')"
  then consider "ob_revision x \<le> 1" | r where "r \<in> set (db_objects d)" "ob_revision x \<le> ob_revision r + 1"
    using assms(2) by (auto simp: grows_def)
  then show "ob_revision x + int n < 9223372036854775807" using assms(1) by cases (auto simp: room_def)
qed

subsection \<open>Connections\<close>

lemma decoded_payload:
  assumes "decode_next s = Decoded v rest" and "decode_struct request_fields v zero_Request = Some request"
    and "rq_payload request = Some x"
  shows "writable x"
proof -
  have "next_value (skip s) = Some (v, rest)" using assms(1) by (auto simp: decode_next_def split: if_splits option.splits)
  then have "writable v" unfolding next_value_def by (rule p_writable(1))
  moreover have "list_all (\<lambda>(n, f). field_keeps (\<lambda>r. \<forall>x. rq_payload r = Some x \<longrightarrow> writable x) f) request_fields"
    by (auto simp: request_fields_def field_keeps_def str_field_def raw_field_def split: jv.splits)
  ultimately have "\<forall>x. rq_payload request = Some x \<longrightarrow> writable x"
    by (intro decode_keeps [where I = "\<lambda>r. \<forall>x. rq_payload r = Some x \<longrightarrow> writable x", OF _ _ _ assms(2)]) (simp_all add: zero_Request_def)
  then show ?thesis using assms(3) by blast
qed

text \<open>What the daemon relies on between two connections, with room for \<open>n\<close> more of them, and what has become of the first vault.\<close>

definition safe :: "prims \<Rightarrow> keySet \<Rightarrow> string \<Rightarrow> nat \<Rightarrow> database \<Rightarrow> bstate world \<Rightarrow> bool" where
  "safe P k vid n d w \<longleftrightarrow> sound P k vid (w_db w) \<and> (\<forall>m. valid_time (w_clock w m))
     \<and> (\<exists>d'. bs_disk (w_db w) = Some d' \<and> room n d' \<and> develops (maps_of P k d) (maps_of P k d'))"

lemma serve_request_safe:
  assumes "prims_ok (en_prims E)" and "keys_ok k" and "\<And>x. rq_payload request = Some x \<Longrightarrow> writable x"
    and "safe (en_prims E) k vid (Suc n) d w"
  shows "safe (en_prims E) k vid n d (snd (serve_request E request w))"
proof -
  let ?w = "w\<lparr>w_db := (w_db w)\<lparr>bs_conn := \<lparr>cn_sent = [], cn_faults = []\<rparr>\<rparr>\<rparr>"
  obtain d1 where d1: "bs_disk (w_db w) = Some d1" "room (Suc n) d1" "develops (maps_of (en_prims E) k d) (maps_of (en_prims E) k d1)"
    using assms(4) by (auto simp: safe_def)
  have "ready (en_prims E) k vid d1 ?w"
    using assms(4) d1 sound_part [of "w_db ?w" "w_db w"] room_roomy by (simp add: ready_def safe_def file_part_def)
  moreover have "served E k request" using assms(1-3) by (simp add: served_def)
  ultimately have "stepped (en_prims E) k vid request d1 (snd (Handle E request ?w))" by (intro Handle_steps)
  then obtain d2 where d2: "sound (en_prims E) k vid (w_db (snd (Handle E request ?w)))" "bs_disk (w_db (snd (Handle E request ?w))) = Some d2"
    "vault_step (en_prims E) k request (maps_of (en_prims E) k d1) (maps_of (en_prims E) k d2)" "grows d1 d2"
    by (auto simp: stepped_def)
  have "w_clock (snd (Handle E request ?w)) = w_clock w" using timely_Handle [of E request] by (simp add: timely_def)
  then have "\<forall>m. valid_time (w_clock (snd (Handle E request ?w)) m)" using assms(4) by (simp add: safe_def)
  moreover have "develops (maps_of (en_prims E) k d) (maps_of (en_prims E) k d2)"
    by (rule develops_trans [OF d1(3) vault_step_develops [OF d2(3)]])
  ultimately have "safe (en_prims E) k vid n d (snd (Handle E request ?w))"
    using d2(1,2) room_grows [OF d1(2) d2(4)] unfolding safe_def by blast
  then show ?thesis by (cases "Handle E request ?w") (simp add: serve_request_def)
qed

lemma safe_less: "safe P k vid (Suc n) d w \<Longrightarrow> safe P k vid n d w"
  unfolding safe_def using room_less by blast

lemma safe_zero: "safe P k vid n d w \<Longrightarrow> safe P k vid 0 d w"
  by (induction n) (auto dest: safe_less)

lemma serveConn_safe:
  assumes "prims_ok (en_prims E)" and "keys_ok k" and "safe (en_prims E) k vid (Suc n) d w"
    and "serveConn (serve_request E) input w = (out, w')"
  shows "safe (en_prims E) k vid n d w'"
proof -
  consider "w' = w" | v rest request where "decode_next (take maxFrame input) = Decoded v rest"
    "decode_struct request_fields v zero_Request = Some request" "w' = snd (serve_request E request w)"
    using assms(4) by (auto simp: serveConn_def split: decoded.splits option.splits prod.splits)
  then show ?thesis
  proof cases
    case 1
    then show ?thesis using assms(3) safe_less by simp
  next
    case 2
    then show ?thesis using serve_request_safe [OF assms(1,2) decoded_payload [OF 2(1,2)] assms(3)] by simp
  qed
qed

lemma Serve_loop_safe:
  assumes "Serve_loop (serve_request E) evs w = (res, outs, w')" and "safe (en_prims E) k vid (length evs) d w"
    and "prims_ok (en_prims E)" and "keys_ok k"
  shows "safe (en_prims E) k vid 0 d w'"
  using assms(1,2)
proof (induction evs arbitrary: w outs)
  case (Cons ev evs)
  show ?case
  proof (cases ev)
    case (Connection input)
    obtain out v where one: "serveConn (serve_request E) input w = (out, v)" by fastforce
    then obtain outs' where rest: "Serve_loop (serve_request E) evs v = (res, outs', w')"
      using Cons.prems(1) Connection by (auto split: prod.splits)
    have "safe (en_prims E) k vid (length evs) d v" using serveConn_safe [OF assms(3,4) _ one] Cons.prems(2) by simp
    from Cons.IH [OF rest this] show ?thesis .
  next
    case (AcceptError err ctx_done)
    then have "w' = w" using Cons.prems(1) by (auto split: if_splits)
    then show ?thesis using safe_zero [OF Cons.prems(2)] by simp
  qed
qed simp

lemma develops_entry:
  assumes "develops (maps_of P k d) (maps_of P k d')" and "secret_at P k d tok = Some (m, val)"
  shows "\<exists>m' val'. secret_at P k d' tok = Some (m', val') \<and> sm_id m' = sm_id m \<and> sm_name m' = sm_name m
    \<and> sm_version m \<le> sm_version m' \<and> (sm_version m' = sm_version m \<longrightarrow> val' = val \<or> val' = None)"
  using assms by (fastforce simp: develops_def maps_of_def follows_def)

lemma develops_action: "develops (maps_of P k d) (maps_of P k d') \<Longrightarrow> action_at P k d tok \<noteq> None \<Longrightarrow> action_at P k d' tok \<noteq> None"
  by (auto simp: develops_def maps_of_def)



end
