(* ===== verification/Spec2Isabelle.thy ===== *)
theory Spec2Isabelle
  imports CliProps EndpointRace DaemonVault
begin

section \<open>vcsm: a local secret manager\<close>

text \<open>
  A model of the secret manager and the theorems that make it correct. This theory is the root: it imports
  every other one.

  \<^bold>\<open>The program.\<close> A user keeps named secrets (passwords, keys) in an encrypted vault and runs approved commands
  with them, without the secrets passing through the hands of whoever asks for the run. There are two
  processes. The broker daemon \<open>vcsm-broker\<close> (cmd/vcsm-broker/main.go) opens the vault (internal/vault/store.go,
  SQLite), listens on a Unix socket (internal/ipc) and answers requests (internal/broker/broker.go): unlocking
  and locking with the master password, creating, rotating, revoking and listing secrets, configuring and
  listing actions, reading the audit log and running an action. The client \<open>vcsm\<close> (cmd/vcsm/main.go) creates the
  vault and turns each command into one request. A run (\<open>runAction\<close>) resolves the secrets of the action, starts
  its command with them in the environment (internal/runner) and streams the output back through a redacting
  writer (internal/redaction). New values come from internal/generator; while the vault is unlocked the broker
  holds an inhibitor of idle sleep (internal/power). Values and metadata are sealed with the primitives that
  internal/securecrypto wraps, under keys that are derived from the data key, which is itself sealed under a
  key derived from the password; changes are recorded in a log that a chain of MACs protects.
\<close>

subsection \<open>The theories and the code\<close>

text \<open>
  \<^bold>\<open>The language and its library.\<close> \<open>Prelude\<close> has the types (\<open>[]byte\<close> as \<open>bytes\<close>, strings as lists of characters that stand
  for bytes, \<open>int\<close> as \<open>int\<close> with the wrap of 64 bits written out), the lemma collections, and two interfaces:
  \<open>encoding\<close> (a partial reader undoes a writer) and \<open>keyed\<close> (a table whose rows may not clash). \<open>GoErrors\<close> has error
  values with \<open>errors.Is\<close>, and results as a sum; \<open>GoRuntime\<close> the random source as a tape, \<open>GoText\<close> decimal, hex,
  base64, UTF-8 and string functions, \<open>GoTime\<close> calendar times with their order and the RFC3339Nano text, \<open>Json\<close>
  what \<open>Marshal\<close> writes and \<open>Unmarshal\<close> and \<open>Decoder\<close> read, with the replacement of invalid UTF-8; \<open>JsonReader\<close> has
  what holds of the reader for every text.

  \<^bold>\<open>Effects.\<close> An operation of the vault is a function from a world (the database, the random tape, a clock with the
  ticks read so far, and the faults that the driver will report) to a result and the next world. \<open>transaction\<close>
  restores the database when its body fails, as \<open>defer tx.Rollback()\<close> does. Every statement may fail at the
  driver's will, so what is proved of errors covers every point where a statement can fail.

  \<^bold>\<open>The vault.\<close> \<open>Model\<close> is internal/model/model.go with the JSON of its records; \<open>SecureCrypto\<close> is
  internal/securecrypto; \<open>Tables\<close> has the five tables of \<open>createSchema\<close> and each SQL statement of store.go as a
  function on lists of rows; \<open>VaultKeys\<close> has \<open>Initialize\<close>, \<open>Open\<close>, \<open>Unlock\<close>, \<open>VerifyPassword\<close>, \<open>Lock\<close>, \<open>Close\<close>, identifiers,
  lookup tokens and associated data; \<open>AuditLog\<close> has \<open>appendAudit\<close>, \<open>RecordAudit\<close> and \<open>ListAudit\<close>; \<open>Secrets\<close> and \<open>Actions\<close>
  have the operations on both kinds of objects, each cut where its transaction begins (\<open>rotate_prepare\<close>,
  \<open>rotate_commit\<close>) so that other requests can run between the parts.

  \<^bold>\<open>The broker.\<close> \<open>Api\<close> is internal/api; \<open>Redaction\<close> is internal/redaction; \<open>Generator\<close>, \<open>PowerHold\<close> and \<open>Runner\<close> are the
  packages generator, power (all four platforms) and runner; \<open>BrokerRun\<close> has the event writers and the environment
  of the child, \<open>Broker\<close> has \<open>New\<close>, \<open>Close\<close>, \<open>Handle\<close> and every request, with validation.

  \<^bold>\<open>The processes.\<close> \<open>Ipc\<close> has \<open>serveConn\<close> and \<open>Call\<close> over the text that crosses the connection, \<open>Endpoint\<close> has \<open>Serve\<close>,
  \<open>Wait\<close>, the Unix listener and the pipe of Windows (ipc.go, transport\_unix.go, transport\_windows.go); \<open>Platform\<close> is internal/platform/path.go; \<open>Cli\<close> is
  cmd/vcsm/main.go, command by command, with messages and exit codes; \<open>Service\<close> is the daemon's \<open>main\<close> and the
  link between a command and the broker that serves it.
\<close>

subsection \<open>What is proved\<close>

text \<open>
  \<^bold>\<open>Specification of the vault\<close> (\<open>VaultSpec\<close>, \<open>VaultRefine\<close>, \<open>VaultCorrect\<close>). The abstract state of a database is \<open>secret_at\<close>, a
  map from lookup tokens to the metadata and the active value of a secret, and \<open>action_at\<close> for actions. The
  invariant \<open>vault_inv\<close> says that the tables are consistent, that the metadata of a secret opens and names the last
  of its versions, that these are numbered from 1, that only the last can be active and that every value opens.
  Each operation, on success, keeps the invariant and is an update of the map, and on any failure leaves the
  database as it was. \<open>VaultLive\<close> shows that the operations succeed when there is no fault, \<open>VaultInit\<close> that
  \<open>Initialize\<close> establishes the invariant and that the same password unlocks what it wrote, \<open>VaultProps\<close> collects
  what clients see. \<open>AuditLog\<close> shows that recording extends a chain, that listing gives it back and that a log with
  the same last MAC has the same events unless the MAC collides.

  \<^bold>\<open>Redaction.\<close> For values without borders and overlaps the writer delivers, for every way to cut the output into
  writes, the redaction of the whole, in which no value occurs; a value with a border leaks.

  \<^bold>\<open>Requests.\<close> \<open>BrokerCorrect\<close>: every request is answered by exactly one final response. \<open>BrokerOutput\<close> follows the two
  streams of a run to its events. \<open>BrokerVault\<close> connects requests to operations of the store, \<open>BrokerLock\<close> shows that
  a locked broker refuses, \<open>BrokerHold\<close> that the inhibitor follows the lock, and \<open>BrokerProps\<close> states the properties.

  \<^bold>\<open>The broker and its vault.\<close> \<open>BrokerSpec\<close> states in \<open>vault_step\<close> what a request may do to the two maps of the vault: which
  entry it changes and to what is read off its operation and its payload. \<open>BrokerServe\<close> follows each operation from
  the payload to the answer with a judgement \<open>leads\<close> (from these worlds to those, by result or by error), discharging
  the conditions of the lemmas on the store: names that pass validation and profiles are valid UTF-8, strings out of
  the parser are, the keys that unlocking installs are the keys of the vault. \<open>BrokerHistory\<close> concludes that every
  request makes a step of the specification, that the answer tells whether it was made and carries what was stored, and
  that through any history of requests, closings and restarts the vault stays sound and loses nothing. \<open>DaemonVault\<close>
  carries this to the process: from the bytes that arrive on the connections to the file the daemon leaves.

  \<^bold>\<open>Composition.\<close> \<open>Ipc\<close> shows that a client receives, through the text on the connection, every response the handler
  sent; \<open>ServiceProps\<close> takes \<open>vcsm run\<close> from its arguments to the exit code of the child, \<open>DaemonProps\<close> follows the daemon
  from start to interruption, \<open>CliProps\<close> treats \<open>vcsm init\<close> and \<open>vcsm action configure\<close>.

  \<^bold>\<open>Interleavings.\<close> Every connection has a goroutine. The operations above run to their end, one request after
  the other; three theories drop this and interleave the atomic parts of requests as step relations: \<open>VaultRace\<close>
  (rotations and stored actions that overlap behave as if each ran alone at its commit; a revocation, which does not
  compare revisions, can lock a secret out), \<open>BrokerRace\<close> (\<open>unlock\<close> and \<open>lock\<close> keep at most one inhibitor, but can leave one on a locked
  vault) and \<open>EndpointRace\<close> (brokers that start and stop on one socket).

  \<^bold>\<open>Interfaces.\<close> The locale \<open>encoding\<close> is interpreted for base64, decimal and hex numbers, time stamps, and the JSON of
  metadata, actions, audit events and KDF parameters; \<open>keyed\<close> for the five tables; \<open>inhibitor\<close>, the contract of a
  platform, for the four of internal/power; \<open>sink\<close>, what a writer does with the bytes it is given, for a buffer and
  for the event writer; \<open>responder\<close>, a handler that answers once, for the broker's \<open>Handle\<close>.
\<close>

subsection \<open>Assumptions and bounds\<close>

text \<open>
  \<^bold>\<open>Primitives.\<close> Argon2id, HKDF, XChaCha20-Poly1305 and SHA-256 are fields of a record \<open>prims\<close>; HMAC is built from
  SHA-256 as the standard says. \<open>prims_ok\<close> states their
  documented behaviour: the lengths of their results, and that a sealed text opens to the plain text under the
  same key, nonce and associated data. Collisions appear in conclusions, never as assumptions. Of other keys
  one thing is assumed, by the theorems on the broker and its vault only: \<open>only_key\<close>, no password opens the wrapped
  data key to another key, which the authentication of the cipher is for. \<open>demo_prims\<close> is an instance for which
  the witnesses evaluate.

  \<^bold>\<open>Environment.\<close> The clock, the random tape, the faults of the driver, the operating system's answers, the child
  process, the order in which Go visits a map (\<open>en_order\<close>), the terminal and the layout of \<open>MarshalIndent\<close> are arguments. Texts of
  errors that the library makes are opaque.

  \<^bold>\<open>Loops.\<close> The reader of JSON has fuel, twice the length of the text and two more, which \<open>parse_fuel\<close> shows to be
  enough for every text; reading a stream of values ends because each value consumes text; the sampling of the generator ends
  because each block shortens the tape, and \<open>Generate_returns\<close> says how much tape is enough. Loops over connections,
  attempts and rows are recursions on their lists. Counters of versions and revisions wrap at 64 bits
  (\<open>inc64\<close>); \<open>roomy\<close> says that a vault is not that full, \<open>room\<close> that it has room for so many more requests, each of which
  takes at most one version and one revision. A connection carries at most \<open>maxFrame\<close>, \<open>2 ^ 20\<close> bytes, of a request.
\<close>

subsection \<open>Not modelled\<close>

text \<open>
  What go-winio does behind the named pipe of Windows, deadlines of contexts, the messages
  of the flag package and the log output of the daemon, which are text for the terminal only. The deferred calls of \<open>securecrypto.Zero\<close> clear buffers that the model, being a function of values, does not keep;
  \<open>Zero\<close> itself and the buffers of \<open>Lock\<close> are modelled. Beyond the three theories of interleavings there is no model
  of concurrency: the mutexes are taken at their word, each critical section being one step.
\<close>

end
